(* ===== verification/Prelude.thy ===== *)
theory Prelude
  imports Main "HOL-Library.Word" "HOL-Library.Monad_Syntax"
begin

text \<open>
  Shared vocabulary of the development: the machine integers of the C++ code, the
  representation of undefined behaviour, the two loop combinators every component
  uses, and the small calculus by which the components prove that an operation is
  free of undefined behaviour and ends in a good state.

  Undefined behaviour. C++ code that reads outside a buffer, writes past the end of
  one or follows a pointer to a destroyed object has no defined result. Every
  operation of the model that could do so returns an \<open>option\<close> in which \<^const>\<open>None\<close>
  means exactly this; an ordinary failure of the source (\<open>return false\<close>, \<open>nullptr\<close>,
  an error status) is never \<^const>\<open>None\<close> at this level but a value of the result.
\<close>

unbundle bit_operations_syntax

type_synonym u8 = "8 word"
type_synonym u16 = "16 word"
type_synonym u32 = "32 word"
type_synonym u64 = "64 word"

lemma unat_u8_less: "unat (w :: u8) < 256"
  using unsigned_less [of w, where ?'a = nat] by simp

lemma unat_u16_less: "unat (w :: u16) < 65536"
  using unsigned_less [of w, where ?'a = nat] by simp

lemma unat_of_nat_small:
  "n < 256 \<Longrightarrow> unat (of_nat n :: u8) = n" "n < 65536 \<Longrightarrow> unat (of_nat n :: u16) = n"
  "n < 2 ^ 64 \<Longrightarrow> unat (of_nat n :: u64) = n"
  by (simp_all add: unsigned_of_nat take_bit_nat_eq_self)

named_theorems wp \<open>rules that push the predicate runs through the constructs of an operation\<close>
named_theorems wire \<open>reading and writing integers in byte buffers\<close>

section \<open>Operations that must not be undefined\<close>

text \<open>\<open>runs m Q\<close>: the operation \<open>m\<close> has a defined result, and the result satisfies \<open>Q\<close>.\<close>

definition runs :: "'a option \<Rightarrow> ('a \<Rightarrow> bool) \<Rightarrow> bool" where
  "runs m Q \<longleftrightarrow> (\<exists>x. m = Some x \<and> Q x)"

lemma runs_Some [wp, simp]: "runs (Some x) Q = Q x"
  by (simp add: runs_def)

lemma runs_None [wp, simp]: "\<not> runs None Q"
  by (simp add: runs_def)

lemma runs_bind [wp]: "runs (m \<bind> f) Q = runs m (\<lambda>x. runs (f x) Q)"
  by (cases m) (auto simp: runs_def)

lemma runs_if [wp]: "runs (if b then m else n) Q = (if b then runs m Q else runs n Q)"
  by simp

lemma runs_mono: "runs m P \<Longrightarrow> (\<And>x. m = Some x \<Longrightarrow> P x \<Longrightarrow> Q x) \<Longrightarrow> runs m Q"
  by (auto simp: runs_def)

lemma runs_conj: "runs m P \<Longrightarrow> runs m Q \<Longrightarrow> runs m (\<lambda>x. P x \<and> Q x)"
  by (auto simp: runs_def)

lemma runsI: "m = Some x \<Longrightarrow> Q x \<Longrightarrow> runs m Q"
  by (simp add: runs_def)

lemma runsE: "runs m Q \<Longrightarrow> (\<And>x. m = Some x \<Longrightarrow> Q x \<Longrightarrow> R) \<Longrightarrow> R"
  by (auto simp: runs_def)

lemma runs_the: "runs m Q \<Longrightarrow> Q (the m)"
  by (auto simp: runs_def)

section \<open>Loops over containers of pointers\<close>

text \<open>
  \<open>for (auto x : xs) body\<close>, where the body updates the state and may be undefined:
  the first undefined iteration makes the loop undefined.
\<close>

fun foldM :: "('a \<Rightarrow> 's \<Rightarrow> 's option) \<Rightarrow> 'a list \<Rightarrow> 's \<Rightarrow> 's option" where
  "foldM f [] s = Some s"
| "foldM f (x # xs) s = f x s \<bind> foldM f xs"

lemma foldM_append: "foldM f (xs @ ys) s = foldM f xs s \<bind> foldM f ys"
proof (induction xs arbitrary: s)
  case Nil
  show ?case by simp
next
  case (Cons x xs)
  show ?case by (cases "f x s") (simp_all add: Cons.IH)
qed

text \<open>The loop rule with an invariant that knows which elements are done.\<close>

lemma runs_foldM_prefix:
  assumes "I [] s"
    and "\<And>ys x zs s. xs = ys @ x # zs \<Longrightarrow> I ys s \<Longrightarrow> runs (f x s) (I (ys @ [x]))"
  shows "runs (foldM f xs s) (I xs)"
proof -
  have "runs (foldM f zs s) (I xs)" if "xs = ys @ zs" "I ys s" for ys zs s
    using that
  proof (induction zs arbitrary: ys s)
    case Nil
    then show ?case by simp
  next
    case (Cons z zs)
    have "runs (f z s) (I (ys @ [z]))"
      using Cons.prems by (intro assms(2)) auto
    then show ?case
      using Cons.IH [of "ys @ [z]"] Cons.prems(1)
      by (auto simp: runs_bind elim!: runs_mono)
  qed
  from this [of "[]" xs s] assms(1) show ?thesis by simp
qed

lemma runs_foldM:
  assumes "I s" and "\<And>x s. x \<in> set xs \<Longrightarrow> I s \<Longrightarrow> runs (f x s) I"
  shows "runs (foldM f xs s) I"
  using assms(1)
  by (rule runs_foldM_prefix [where I = "\<lambda>_. I"]) (auto intro: assms(2))

text \<open>
  \<open>for (auto x : xs) if (p(x)) return x; return nullptr\<close>, where testing an element may be
  undefined; elements after the first hit are not looked at.
\<close>

fun findM :: "('a \<Rightarrow> bool option) \<Rightarrow> 'a list \<Rightarrow> 'a option option" where
  "findM p [] = Some None"
| "findM p (x # xs) = p x \<bind> (\<lambda>b. if b then Some (Some x) else findM p xs)"

lemma findM_defined:
  "(\<And>x. x \<in> set xs \<Longrightarrow> p x = Some (q x)) \<Longrightarrow> findM p xs = Some (List.find q xs)"
  by (induction xs) auto

lemma find_Some_in: "List.find q xs = Some x \<Longrightarrow> x \<in> set xs \<and> q x"
  by (auto simp: find_Some_iff)

lemma find_None_all: "List.find q xs = None \<Longrightarrow> x \<in> set xs \<Longrightarrow> \<not> q x"
  by (auto simp: find_None_iff)

lemma find_unique:
  assumes "x \<in> set xs" "q x" and "\<And>y. y \<in> set xs \<Longrightarrow> q y \<Longrightarrow> y = x"
  shows "List.find q xs = Some x"
proof (cases "List.find q xs")
  case None
  with assms(1,2) show ?thesis by (auto dest: find_None_all)
next
  case (Some y)
  with assms(3) show ?thesis by (auto dest: find_Some_in)
qed

section \<open>Heaps of objects\<close>

text \<open>
  A heap is a partial map from addresses to objects. \<open>modify a f h\<close> writes through a valid
  pointer; \<open>free as h\<close> ends the lifetime of the objects at the addresses \<open>as\<close>.
\<close>

definition modify :: "nat \<Rightarrow> ('a \<Rightarrow> 'a) \<Rightarrow> (nat \<rightharpoonup> 'a) \<Rightarrow> (nat \<rightharpoonup> 'a)" where
  "modify a f h = h(a := map_option f (h a))"

definition free :: "nat list \<Rightarrow> (nat \<rightharpoonup> 'a) \<Rightarrow> (nat \<rightharpoonup> 'a)" where
  "free as h = (\<lambda>a. if a \<in> set as then None else h a)"

lemma modify_apply [simp]: "modify a f h b = (if b = a then map_option f (h b) else h b)"
  by (simp add: modify_def)

lemma dom_modify [simp]: "dom (modify a f h) = dom h"
  by (auto simp: dom_def)

lemma free_apply [simp]: "free as h a = (if a \<in> set as then None else h a)"
  by (simp add: free_def)

lemma free_Nil [simp]: "free [] h = h"
  by (simp add: free_def)

lemma dom_free: "dom (free as h) = dom h - set as"
  by (auto simp: dom_def)

end
