(* ===== verification/Wire.thy ===== *)
theory Wire
  imports Prelude
begin

text \<open>
  Integers in packet buffers. The code moves every multi-byte field with \<open>memcpy\<close> and
  converts it with \<open>ntohs\<close>/\<open>ntohl\<close> or \<open>htons\<close>/\<open>htonl\<close>; the composition reads or writes
  the field in network byte order whatever the host's order is, and that composition is
  what \<open>at16\<close>, \<open>at32\<close>, \<open>be16\<close> and \<open>be32\<close> are. \<open>rd8\<close>, \<open>rd16\<close>, \<open>rd32\<close> are the
  same reads from a buffer of known extent, undefined when they leave it, and \<open>poke\<close>
  is a \<open>memcpy\<close> into a buffer. The locale \<open>wire_field\<close> is the contract between a field
  encoding and the code that stores it in packets.
\<close>

section \<open>Network byte order\<close>

definition be16 :: "u16 \<Rightarrow> u8 list" where
  "be16 w = [ucast (drop_bit 8 w), ucast w]"

definition be32 :: "u32 \<Rightarrow> u8 list" where
  "be32 w = [ucast (drop_bit 24 w), ucast (drop_bit 16 w), ucast (drop_bit 8 w), ucast w]"

definition of16 :: "u8 \<Rightarrow> u8 \<Rightarrow> u16" where
  "of16 a b = push_bit 8 (ucast a) OR ucast b"

definition of32 :: "u8 \<Rightarrow> u8 \<Rightarrow> u8 \<Rightarrow> u8 \<Rightarrow> u32" where
  "of32 a b c d = push_bit 24 (ucast a) OR push_bit 16 (ucast b) OR push_bit 8 (ucast c) OR ucast d"

definition at16 :: "u8 list \<Rightarrow> nat \<Rightarrow> u16" where
  "at16 d i = of16 (d ! i) (d ! (i + 1))"

definition at32 :: "u8 list \<Rightarrow> nat \<Rightarrow> u32" where
  "at32 d i = of32 (d ! i) (d ! (i + 1)) (d ! (i + 2)) (d ! (i + 3))"

lemma length_be16 [simp]: "length (be16 w) = 2"
  by (simp add: be16_def)

lemma length_be32 [simp]: "length (be32 w) = 4"
  by (simp add: be32_def)

lemma of16_be16 [wire]: "of16 (ucast (drop_bit 8 w)) (ucast w) = w"
  unfolding of16_def by (rule bit_word_eqI) (auto simp: bit_simps not_less)

lemma of32_be32 [wire]:
  "of32 (ucast (drop_bit 24 w)) (ucast (drop_bit 16 w)) (ucast (drop_bit 8 w)) (ucast w) = w"
proof (rule bit_word_eqI)
  fix n
  assume "n < LENGTH(32)"
  then consider "n < 8" | "8 \<le> n" "n < 16" | "16 \<le> n" "n < 24" | "24 \<le> n" "n < 32"
    by fastforce
  then show "bit (of32 (ucast (drop_bit 24 w)) (ucast (drop_bit 16 w))
      (ucast (drop_bit 8 w)) (ucast w)) n = bit w n"
    by cases (auto simp: of32_def bit_simps)
qed

lemma be16_of16 [wire]: "be16 (of16 a b) = [a, b]"
  unfolding be16_def of16_def
  by (simp, intro conjI; rule bit_word_eqI; auto simp: bit_simps dest: bit_imp_le_length)

lemma be32_of32 [wire]: "be32 (of32 a b c d) = [a, b, c, d]"
  unfolding be32_def of32_def
  by (simp, intro conjI; rule bit_word_eqI; auto simp: bit_simps dest: bit_imp_le_length)

lemma at16_be16 [wire, simp]: "at16 (be16 w) 0 = w"
  by (simp add: at16_def be16_def of16_be16)

lemma at32_be32 [wire, simp]: "at32 (be32 w) 0 = w"
  by (simp add: at32_def be32_def of32_be32)

lemma be16_at16: "length bs = 2 \<Longrightarrow> be16 (at16 bs 0) = bs"
  by (auto simp: at16_def be16_of16 numeral_2_eq_2 length_Suc_conv)

lemma be32_at32: "length bs = 4 \<Longrightarrow> be32 (at32 bs 0) = bs"
  by (auto simp: at32_def be32_of32 numeral_eq_Suc length_Suc_conv)

lemma nth_append_shift: "(xs @ ys) ! (length xs + i) = ys ! i"
  by (simp add: nth_append)

lemma at16_append1 [wire]: "i + 2 \<le> length xs \<Longrightarrow> at16 (xs @ ys) i = at16 xs i"
  by (simp add: at16_def nth_append)

lemma at32_append1 [wire]: "i + 4 \<le> length xs \<Longrightarrow> at32 (xs @ ys) i = at32 xs i"
  by (simp add: at32_def nth_append)

lemma at16_append2 [wire]: "length xs \<le> i \<Longrightarrow> at16 (xs @ ys) i = at16 ys (i - length xs)"
  by (simp add: at16_def nth_append Suc_diff_le)

lemma at32_append2 [wire]: "length xs \<le> i \<Longrightarrow> at32 (xs @ ys) i = at32 ys (i - length xs)"
  by (simp add: at32_def nth_append Suc_diff_le)

lemma at16_drop [wire]: "j + i + 2 \<le> length d \<Longrightarrow> at16 (drop j d) i = at16 d (j + i)"
  by (simp add: at16_def add.assoc)

lemma at32_drop [wire]: "j + i + 4 \<le> length d \<Longrightarrow> at32 (drop j d) i = at32 d (j + i)"
  by (simp add: at32_def add.assoc)

section \<open>Bounded buffers\<close>

definition rd8 :: "u8 list \<Rightarrow> nat \<Rightarrow> u8 option" where
  "rd8 d i = (if i < length d then Some (d ! i) else None)"

definition rd16 :: "u8 list \<Rightarrow> nat \<Rightarrow> u16 option" where
  "rd16 d i = (if i + 2 \<le> length d then Some (at16 d i) else None)"

definition rd32 :: "u8 list \<Rightarrow> nat \<Rightarrow> u32 option" where
  "rd32 d i = (if i + 4 \<le> length d then Some (at32 d i) else None)"

text \<open>\<open>memcpy(buf + off, src, src.size())\<close>.\<close>

definition poke :: "nat \<Rightarrow> u8 list \<Rightarrow> u8 list \<Rightarrow> u8 list option" where
  "poke off src buf =
     (if off + length src \<le> length buf
      then Some (take off buf @ src @ drop (off + length src) buf) else None)"

lemma rd8_Some [wire]: "i < length d \<Longrightarrow> rd8 d i = Some (d ! i)"
  by (simp add: rd8_def)

lemma rd16_Some [wire]: "i + 2 \<le> length d \<Longrightarrow> rd16 d i = Some (at16 d i)"
  by (simp add: rd16_def)

lemma rd32_Some [wire]: "i + 4 \<le> length d \<Longrightarrow> rd32 d i = Some (at32 d i)"
  by (simp add: rd32_def)

lemma rd8_None [wire]: "length d \<le> i \<Longrightarrow> rd8 d i = None"
  by (simp add: rd8_def)

lemma rd32_None [wire]: "length d < i + 4 \<Longrightarrow> rd32 d i = None"
  by (simp add: rd32_def)

lemma poke_length: "poke off src buf = Some buf' \<Longrightarrow> length buf' = length buf"
  by (auto simp: poke_def split: if_splits)

lemma poke_Some: "off + length src \<le> length buf \<Longrightarrow>
    poke off src buf = Some (take off buf @ src @ drop (off + length src) buf)"
  by (simp add: poke_def)

text \<open>A read at an offset behind a prefix is a read in what follows the prefix.\<close>

lemma rd8_behind [wire]: "rd8 (pre @ d) (length pre + i) = rd8 d i"
  by (simp add: rd8_def nth_append)

lemma rd16_behind [wire]: "rd16 (pre @ d) (length pre + i) = rd16 d i"
  by (simp add: rd16_def at16_def nth_append)

lemma rd32_behind [wire]: "rd32 (pre @ d) (length pre + i) = rd32 d i"
  by (simp add: rd32_def at32_def nth_append)

lemma at16_behind [wire]: "at16 (pre @ d) (length pre + i) = at16 d i"
  by (simp add: at16_def nth_append)

lemma at32_behind [wire]: "at32 (pre @ d) (length pre + i) = at32 d i"
  by (simp add: at32_def nth_append)

section \<open>The contract of a packet format\<close>

text \<open>
  A format has a fixed width, and its encoder and decoder are inverse to each other: on
  every block of bytes of that width, and on every value that fits the format
  (\<open>valid\<close>). What the packet builders and the parsers need about a header or a field
  follows from this; a field is a format that every value fits.
\<close>

locale wire_format =
  fixes enc :: "'a \<Rightarrow> u8 list"
    and dec :: "u8 list \<Rightarrow> 'a"
    and width :: nat
    and valid :: "'a \<Rightarrow> bool"
  assumes enc_length: "length (enc x) = width"
    and dec_enc: "valid x \<Longrightarrow> dec (enc x) = x"
    and enc_dec: "length bs = width \<Longrightarrow> enc (dec bs) = bs"
begin

lemma enc_inject: "valid x \<Longrightarrow> valid y \<Longrightarrow> enc x = enc y \<longleftrightarrow> x = y"
  by (metis dec_enc)

lemma dec_slice:
  "valid x \<Longrightarrow> length pre = off \<Longrightarrow> dec (take width (drop off (pre @ enc x @ post))) = x"
  by (simp add: enc_length dec_enc)

lemma poke_then_dec:
  assumes "valid x" and "poke off (enc x) buf = Some buf'"
  shows "dec (take width (drop off buf')) = x"
proof -
  from assms(2) have "off + width \<le> length buf"
    and "buf' = take off buf @ enc x @ drop (off + width) buf"
    by (auto simp: poke_def enc_length split: if_splits)
  then show ?thesis
    using dec_slice [of x "take off buf" off "drop (off + width) buf"] assms(1)
    by (simp add: min_def)
qed

lemma poke_own_value:
  assumes "off + width \<le> length buf"
  shows "poke off (enc (dec (take width (drop off buf)))) buf = Some buf"
proof -
  have "enc (dec (take width (drop off buf))) = take width (drop off buf)"
    using assms by (intro enc_dec) simp
  moreover have "take off buf @ take width (drop off buf) @ drop (off + width) buf = buf"
    by (metis append_take_drop_id drop_drop add.commute)
  ultimately show ?thesis
    using assms by (simp add: poke_def min_def)
qed

lemma poke_frame:
  assumes "poke off (enc x) buf = Some buf'"
  shows "length buf' = length buf" and "take off buf' = take off buf"
    and "drop (off + width) buf' = drop (off + width) buf"
  using assms by (auto simp: poke_def enc_length split: if_splits)

end

locale wire_field = wire_format enc dec width "\<lambda>_. True"
  for enc :: "'a \<Rightarrow> u8 list" and dec width
begin

lemma field_inject: "enc x = enc y \<longleftrightarrow> x = y"
  using enc_inject by simp

lemma field_surj: "length bs = width \<Longrightarrow> \<exists>!x. enc x = bs"
  by (metis enc_dec field_inject)

end

interpretation f8: wire_field "\<lambda>b. [b]" hd 1
  by unfold_locales (auto simp: length_Suc_conv)

interpretation f16: wire_field be16 "\<lambda>bs. at16 bs 0" 2
  by unfold_locales (simp_all add: be16_at16)

interpretation f32: wire_field be32 "\<lambda>bs. at32 bs 0" 4
  by unfold_locales (simp_all add: be32_at32)

lemma at16_take_drop: "i + 2 \<le> length d \<Longrightarrow> at16 d i = at16 (take 2 (drop i d)) 0"
  by (simp add: at16_def)

lemma at32_take_drop: "i + 4 \<le> length d \<Longrightarrow> at32 d i = at32 (take 4 (drop i d)) 0"
  by (simp add: at32_def)

lemma be16_inject [simp]: "be16 x = be16 y \<longleftrightarrow> x = y"
  by (rule f16.field_inject)

lemma be32_inject [simp]: "be32 x = be32 y \<longleftrightarrow> x = y"
  by (rule f32.field_inject)

end
