(* ===== verification/Rtp.thy ===== *)
theory Rtp
  imports Wire
begin

text \<open>
  \<open>rtp/RtpHeader.h\<close> and \<open>rtp/RtpHeader.cpp\<close>: the fixed RTP header as a record, reading it
  from a packet (\<open>RtpHeader::parse\<close>), computing the length of the whole header
  (\<open>RtpHeader::headerLength\<close>) and writing the fixed part back into the packet
  (\<open>RtpHeader::writeFixedHeader\<close>). The lemmas show that reading and writing are inverse,
  that writing touches the first 12 bytes only, and what \<open>headerLength\<close> returns.
\<close>

record rtp_header =
  h_version :: u8
  h_padding :: bool
  h_extension :: bool
  h_csrcCount :: u8
  h_marker :: bool
  h_payloadType :: u8
  h_sequenceNumber :: u16
  h_timestamp :: u32
  h_ssrc :: u32

section \<open>Reading\<close>

text \<open>\<^const>\<open>None\<close> is \<open>return false\<close>; the length guard keeps every read inside the packet.\<close>

definition rtp_parse :: "u8 list \<Rightarrow> rtp_header option" where
  "rtp_parse data =
     (if length data < 12 then None
      else let byte0 = data ! 0; byte1 = data ! 1 in
        Some \<lparr> h_version = drop_bit 6 byte0 AND 0x03,
               h_padding = (drop_bit 5 byte0 AND 0x01 \<noteq> 0),
               h_extension = (drop_bit 4 byte0 AND 0x01 \<noteq> 0),
               h_csrcCount = byte0 AND 0x0F,
               h_marker = (drop_bit 7 byte1 AND 0x01 \<noteq> 0),
               h_payloadType = byte1 AND 0x7F,
               h_sequenceNumber = at16 data 2,
               h_timestamp = at32 data 4,
               h_ssrc = at32 data 8 \<rparr>)"

text \<open>
  The result is a \<open>size_t\<close>: the subtraction of the padding length is unsigned 64-bit
  arithmetic.
\<close>

definition headerLength :: "u8 list \<Rightarrow> u64" where
  "headerLength data =
     (let len = length data in
      if len < 12 then 0
      else let cc = data ! 0 AND 0x0F;
               length1 = 12 + unat cc * 4;
               extension = (drop_bit 4 (data ! 0) AND 0x01 \<noteq> 0);
               length2 = (if extension \<and> length1 + 4 \<le> len
                          then length1 + 4 + unat (at16 data (length1 + 2)) * 4
                          else length1);
               padding = (drop_bit 5 (data ! 0) AND 0x01 \<noteq> 0);
               padLen = data ! (len - 1)
           in if padding \<and> 0 < len \<and> 0 < padLen then of_nat len - ucast padLen
              else of_nat length2)"

section \<open>Writing\<close>

definition header_byte0 :: "rtp_header \<Rightarrow> u8" where
  "header_byte0 hdr =
     push_bit 6 (h_version hdr AND 0x03)
     OR push_bit 5 (if h_padding hdr then 1 else 0)
     OR push_bit 4 (if h_extension hdr then 1 else 0)
     OR (h_csrcCount hdr AND 0x0F)"

definition header_byte1 :: "rtp_header \<Rightarrow> u8" where
  "header_byte1 hdr = push_bit 7 (if h_marker hdr then 1 else 0) OR (h_payloadType hdr AND 0x7F)"

definition header_bytes :: "rtp_header \<Rightarrow> u8 list" where
  "header_bytes hdr =
     [header_byte0 hdr, header_byte1 hdr]
     @ be16 (h_sequenceNumber hdr) @ be32 (h_timestamp hdr) @ be32 (h_ssrc hdr)"

definition writeFixedHeader :: "u8 list \<Rightarrow> rtp_header \<Rightarrow> u8 list" where
  "writeFixedHeader data hdr =
     (if length data < 12 then data else header_bytes hdr @ drop 12 data)"

section \<open>The fixed header as a packet format\<close>

definition header_valid :: "rtp_header \<Rightarrow> bool" where
  "header_valid hdr \<longleftrightarrow> h_version hdr < 4 \<and> h_csrcCount hdr < 16 \<and> h_payloadType hdr < 128"

lemma mask_small_u8:
  "(w :: u8) < 4 \<Longrightarrow> w AND 3 = w" "w < 16 \<Longrightarrow> w AND 15 = w" "w < 128 \<Longrightarrow> w AND 127 = w"
  using less_mask_eq [of w 2] less_mask_eq [of w 4] less_mask_eq [of w 7]
  by (simp_all add: mask_eq_exp_minus_1 and_mask_less')

lemma length_header_bytes [simp]: "length (header_bytes hdr) = 12"
  by (simp add: header_bytes_def)


lemma small_masks: "(0x03 :: u8) = mask 2" "(0x0F :: u8) = mask 4"
    "(0x1F :: u8) = mask 5" "(0x7F :: u8) = mask 7"
  by (simp_all add: mask_eq_exp_minus_1)

lemma bit_and_one_u8: "(drop_bit n (w :: u8) AND 1 \<noteq> 0) = bit w n"
  by (simp add: bit_iff_odd_drop_bit and_one_eq odd_iff_mod_2_eq_one)

lemma header_byte0_bit:
  "bit (header_byte0 hdr) n \<longleftrightarrow>
     (n < 4 \<and> bit (h_csrcCount hdr) n) \<or> (n = 4 \<and> h_extension hdr) \<or> (n = 5 \<and> h_padding hdr)
     \<or> (6 \<le> n \<and> n < 8 \<and> bit (h_version hdr) (n - 6))"
  unfolding header_byte0_def small_masks
  by (auto simp: bit_simps)

lemma header_byte1_bit:
  "bit (header_byte1 hdr) n \<longleftrightarrow>
     (n < 7 \<and> bit (h_payloadType hdr) n) \<or> (n = 7 \<and> h_marker hdr)"
  unfolding header_byte1_def small_masks
  by (auto simp: bit_simps)

lemma u8_eqI:
  assumes "\<And>n. n \<in> {0, 1, 2, 3, 4, 5, 6, 7} \<Longrightarrow> bit v n = bit (w :: u8) n"
  shows "v = w"
proof (rule bit_word_eqI)
  fix n :: nat
  assume "n < LENGTH(8)"
  then have "n \<in> {0, 1, 2, 3, 4, 5, 6, 7}" by auto
  then show "bit v n = bit w n" by (rule assms)
qed

text \<open>The decoder of a 12-byte block, with the fields read as \<open>parse\<close> reads them.\<close>

definition header_of :: "u8 list \<Rightarrow> rtp_header" where
  "header_of bs = the (rtp_parse bs)"

lemma rtp_parse_Some_iff: "(\<exists>hdr. rtp_parse data = Some hdr) \<longleftrightarrow> 12 \<le> length data"
  by (simp add: rtp_parse_def Let_def)

lemma rtp_parse_header_of: "12 \<le> length data \<Longrightarrow> rtp_parse data = Some (header_of data)"
  by (simp add: header_of_def rtp_parse_def Let_def)

lemma rtp_parse_fields:
  assumes "12 \<le> length data"
  shows "h_version (header_of data) = drop_bit 6 (data ! 0) AND mask 2"
    and "h_padding (header_of data) = bit (data ! 0) 5"
    and "h_extension (header_of data) = bit (data ! 0) 4"
    and "h_csrcCount (header_of data) = data ! 0 AND mask 4"
    and "h_marker (header_of data) = bit (data ! 1) 7"
    and "h_payloadType (header_of data) = data ! 1 AND mask 7"
    and "h_sequenceNumber (header_of data) = at16 data 2"
    and "h_timestamp (header_of data) = at32 data 4"
    and "h_ssrc (header_of data) = at32 data 8"
  using assms
  by (simp_all add: header_of_def rtp_parse_def Let_def small_masks bit_and_one_u8 del: One_nat_def)

lemma header_byte0_of: "12 \<le> length data \<Longrightarrow> header_byte0 (header_of data) = data ! 0"
  by (rule u8_eqI) (auto simp: header_byte0_bit rtp_parse_fields bit_simps)

lemma header_byte1_of: "12 \<le> length data \<Longrightarrow> header_byte1 (header_of data) = data ! 1"
  by (rule u8_eqI) (auto simp: header_byte1_bit rtp_parse_fields bit_simps)

lemma header_bytes_of:
  assumes "length bs = 12"
  shows "header_bytes (header_of bs) = bs"
proof -
  obtain b0 b1 b2 b3 b4 b5 b6 b7 b8 b9 b10 b11
    where bs: "bs = [b0, b1, b2, b3, b4, b5, b6, b7, b8, b9, b10, b11]"
    using assms by (auto simp: numeral_eq_Suc length_Suc_conv)
  then show ?thesis
    by (simp add: header_bytes_def header_byte0_of header_byte1_of rtp_parse_fields
        at16_def at32_def be16_of16 be32_of32)
qed

lemma header_of_bytes:
  assumes "header_valid hdr"
  shows "header_of (header_bytes hdr) = hdr"
proof -
  let ?d = "header_bytes hdr"
  have d: "?d ! 0 = header_byte0 hdr" "?d ! 1 = header_byte1 hdr"
    "at16 ?d 2 = h_sequenceNumber hdr" "at32 ?d 4 = h_timestamp hdr" "at32 ?d 8 = h_ssrc hdr"
    by (simp_all add: header_bytes_def at16_def at32_def be16_def be32_def of16_be16 of32_be32)
  have small: "h_version hdr AND mask 2 = h_version hdr"
    "h_csrcCount hdr AND mask 4 = h_csrcCount hdr"
    "h_payloadType hdr AND mask 7 = h_payloadType hdr"
    using assms mask_small_u8 by (simp_all add: header_valid_def small_masks)
  have "drop_bit 6 (header_byte0 hdr) AND mask 2 = h_version hdr AND mask 2"
    by (rule u8_eqI) (auto simp: bit_simps header_byte0_bit)
  moreover have "header_byte0 hdr AND mask 4 = h_csrcCount hdr AND mask 4"
    by (rule u8_eqI) (auto simp: bit_simps header_byte0_bit)
  moreover have "header_byte1 hdr AND mask 7 = h_payloadType hdr AND mask 7"
    by (rule u8_eqI) (auto simp: bit_simps header_byte1_bit)
  ultimately show ?thesis
    by (intro rtp_header.equality)
      (simp_all add: rtp_parse_fields d small header_byte0_bit header_byte1_bit del: One_nat_def)
qed

interpretation rtp_fmt: wire_format header_bytes header_of 12 header_valid
  by unfold_locales (simp_all add: header_of_bytes header_bytes_of)

lemma rtp_parse_valid: "rtp_parse data = Some hdr \<Longrightarrow> header_valid hdr"
  using and_mask_less' [of 2 "drop_bit 6 (data ! 0)"] and_mask_less' [of 4 "data ! 0"]
    and_mask_less' [of 7 "data ! 1"]
  by (auto simp: rtp_parse_def Let_def header_valid_def small_masks split: if_splits)

lemma header_of_take: "12 \<le> length data \<Longrightarrow> header_of (take 12 data) = header_of data"
  by (simp add: header_of_def rtp_parse_def at16_def at32_def)

lemma writeFixedHeader_poke:
  "12 \<le> length data \<Longrightarrow> poke 0 (header_bytes hdr) data = Some (writeFixedHeader data hdr)"
  by (simp add: poke_def writeFixedHeader_def)

lemma length_writeFixedHeader [simp]: "length (writeFixedHeader data hdr) = length data"
  by (simp add: writeFixedHeader_def)

lemma drop_writeFixedHeader: "drop 12 (writeFixedHeader data hdr) = drop 12 data"
  by (simp add: writeFixedHeader_def)

lemma rtp_parse_write:
  assumes "12 \<le> length data" "header_valid hdr"
  shows "rtp_parse (writeFixedHeader data hdr) = Some hdr"
  using rtp_fmt.poke_then_dec [OF assms(2) writeFixedHeader_poke [OF assms(1)]] assms(1)
  by (simp add: rtp_parse_header_of header_of_take)

lemma write_rtp_parse:
  assumes "rtp_parse data = Some hdr"
  shows "writeFixedHeader data hdr = data"
proof -
  have len: "12 \<le> length data" using assms rtp_parse_Some_iff by auto
  then have "hdr = header_of (take 12 data)"
    using assms by (simp add: rtp_parse_header_of header_of_take)
  then show ?thesis
    using rtp_fmt.poke_own_value [of 0 data] writeFixedHeader_poke [of data hdr] len by simp
qed

section \<open>Whole headers\<close>

text \<open>
  RFC 3550, section 5.1 and 5.3.1: the fixed header, the CSRC list and the optional
  extension (a profile word, the number of 32-bit words, the words).
\<close>

definition rtp_header_block :: "rtp_header \<Rightarrow> u32 list \<Rightarrow> (u16 \<times> u32 list) option \<Rightarrow> u8 list" where
  "rtp_header_block hdr csrcs ext = header_bytes hdr @ concat (map be32 csrcs) @
     (case ext of None \<Rightarrow> []
      | Some (profile, ws) \<Rightarrow> be16 profile @ be16 (of_nat (length ws)) @ concat (map be32 ws))"

definition block_ok :: "rtp_header \<Rightarrow> u32 list \<Rightarrow> (u16 \<times> u32 list) option \<Rightarrow> bool" where
  "block_ok hdr csrcs ext \<longleftrightarrow> header_valid hdr \<and> length csrcs < 16 \<and>
     h_csrcCount hdr = of_nat (length csrcs) \<and>
     (case ext of None \<Rightarrow> \<not> h_extension hdr
      | Some (profile, ws) \<Rightarrow> h_extension hdr \<and> length ws < 65536)"

lemma length_concat_be32 [simp]: "length (concat (map be32 ws)) = 4 * length ws"
  by (induction ws) simp_all

lemma rtp_header_block_bytes:
  assumes ok: "block_ok hdr csrcs ext"
  shows "unat (rtp_header_block hdr csrcs ext ! 0 AND 0x0F) = length csrcs"
    and "(drop_bit 4 (rtp_header_block hdr csrcs ext ! 0) AND 0x01 \<noteq> 0) = h_extension hdr"
    and "(drop_bit 5 (rtp_header_block hdr csrcs ext ! 0) AND 0x01 \<noteq> 0) = h_padding hdr"
proof -
  let ?b = "rtp_header_block hdr csrcs ext"
  have b0: "?b ! 0 = header_byte0 hdr" by (simp add: rtp_header_block_def header_bytes_def)
  have c: "h_csrcCount hdr < 16"
    using ok unfolding block_ok_def header_valid_def by blast
  have "header_byte0 hdr AND mask 4 = h_csrcCount hdr AND mask 4"
    by (rule u8_eqI) (auto simp: bit_simps header_byte0_bit)
  then have "?b ! 0 AND 0x0F = h_csrcCount hdr"
    using b0 mask_small_u8(2) [OF c] by (simp add: small_masks)
  moreover have "unat (of_nat (length csrcs) :: u8) = length csrcs"
    using ok by (simp add: block_ok_def unat_of_nat_small)
  ultimately show "unat (?b ! 0 AND 0x0F) = length csrcs"
    using ok by (simp add: block_ok_def)
  show "(drop_bit 4 (?b ! 0) AND 0x01 \<noteq> 0) = h_extension hdr"
    "(drop_bit 5 (?b ! 0) AND 0x01 \<noteq> 0) = h_padding hdr"
    by (simp_all add: b0 bit_and_one_u8 header_byte0_bit)
qed

text \<open>The two lengths the code computes before it looks at the padding bit.\<close>

lemma rtp_header_block_length:
  fixes rest :: "u8 list"
  assumes ok: "block_ok hdr csrcs ext"
  defines "d \<equiv> rtp_header_block hdr csrcs ext @ rest"
  shows "(let length1 = 12 + length csrcs * 4 in
     if h_extension hdr \<and> length1 + 4 \<le> length d
     then length1 + 4 + unat (at16 d (length1 + 2)) * 4 else length1)
     = length (rtp_header_block hdr csrcs ext)"
proof (cases ext)
  case None
  then show ?thesis using ok by (simp add: block_ok_def rtp_header_block_def)
next
  case (Some pw)
  then obtain profile ws where ext: "ext = Some (profile, ws)" by (cases pw) auto
  let ?l = "12 + length csrcs * 4"
  let ?pre = "header_bytes hdr @ concat (map be32 csrcs)"
  have l: "length ?pre = ?l" by simp
  have d: "d = ?pre @ be16 profile @ be16 (of_nat (length ws)) @ concat (map be32 ws) @ rest"
    by (simp add: d_def rtp_header_block_def ext)
  have "at16 d (?l + 2) = of_nat (length ws)"
    unfolding d l [symmetric] by (subst at16_behind) (simp add: at16_def be16_def of16_be16)
  moreover have "unat (of_nat (length ws) :: u16) = length ws"
    using ok ext by (simp add: block_ok_def unat_of_nat_small)
  moreover have "h_extension hdr" "?l + 4 \<le> length d"
    using ok ext by (simp_all add: block_ok_def d)
  ultimately show ?thesis by (simp add: rtp_header_block_def ext)
qed

lemma headerLength_unfold:
  assumes "12 \<le> length d"
  shows "headerLength d =
    (if (drop_bit 5 (d ! 0) AND 0x01 \<noteq> 0) \<and> last d \<noteq> 0 then of_nat (length d) - ucast (last d)
     else of_nat (let length1 = 12 + unat (d ! 0 AND 0x0F) * 4 in
       if (drop_bit 4 (d ! 0) AND 0x01 \<noteq> 0) \<and> length1 + 4 \<le> length d
       then length1 + 4 + unat (at16 d (length1 + 2)) * 4 else length1))"
proof -
  have "d \<noteq> []" "\<not> length d < 12" "0 < length d" using assms by auto
  then show ?thesis
    using last_conv_nth [of d] unfolding headerLength_def Let_def
    by (simp only: word_neq_0_conv if_False simp_thms)
qed

lemma headerLength_block:
  fixes rest :: "u8 list"
  assumes ok: "block_ok hdr csrcs ext"
  defines "d \<equiv> rtp_header_block hdr csrcs ext @ rest"
  shows "headerLength d =
    (if h_padding hdr \<and> last d \<noteq> 0 then of_nat (length d) - ucast (last d)
     else of_nat (length (rtp_header_block hdr csrcs ext)))"
proof -
  let ?b = "rtp_header_block hdr csrcs ext"
  have "12 \<le> length ?b" by (simp add: rtp_header_block_def)
  then have d: "12 \<le> length d" "d ! 0 = ?b ! 0" by (auto simp: d_def nth_append)
  show ?thesis
    unfolding headerLength_unfold [OF d(1)] d(2) rtp_header_block_bytes [OF ok]
      rtp_header_block_length [OF ok, of rest, folded d_def] ..
qed

section \<open>Properties\<close>

text \<open>
  C27. Writing a header into a packet of at least 12 bytes and parsing the packet gives
  that header back, for every header whose fields fit their bits; the length and every
  byte from 12 on (CSRCs, extension, payload) stay as they were.
\<close>

theorem header_write_then_parse:
  assumes "12 \<le> length data" "header_valid hdr"
  shows "rtp_parse (writeFixedHeader data hdr) = Some hdr \<and>
    length (writeFixedHeader data hdr) = length data \<and>
    drop 12 (writeFixedHeader data hdr) = drop 12 data"
  using rtp_parse_write [OF assms] by (simp add: drop_writeFixedHeader)

definition sample_header :: rtp_header where
  "sample_header = \<lparr>h_version = 2, h_padding = False, h_extension = True, h_csrcCount = 1,
     h_marker = True, h_payloadType = 96, h_sequenceNumber = 0xFFFF, h_timestamp = 0x12345678,
     h_ssrc = 0xCAFEBABE\<rparr>"

lemma sample_header_valid: "header_valid sample_header"
  by (simp add: header_valid_def sample_header_def)

theorem header_write_then_parse_witness:
  "rtp_parse (writeFixedHeader (replicate 20 7) sample_header) = Some sample_header \<and>
   length (writeFixedHeader (replicate 20 7) sample_header) = 20 \<and>
   drop 12 (writeFixedHeader (replicate 20 7) sample_header) = replicate 8 7"
  using header_write_then_parse [of "replicate 20 7" sample_header] sample_header_valid
  by simp

text \<open>
  Parsing a packet and writing the parsed header back changes no byte: \<open>parse\<close> loses
  nothing of the 12 bytes it reads, and what it returns always fits its bits.
\<close>

lemma parse_then_write_back:
  assumes "rtp_parse data = Some hdr"
  shows "writeFixedHeader data hdr = data \<and> header_valid hdr"
  using write_rtp_parse [OF assms] rtp_parse_valid [OF assms] by simp

text \<open>
  On a well-formed packet without padding \<open>headerLength\<close> is the offset of the payload,
  whatever CSRCs and extension the header carries. On a padded packet it is not: it is the
  offset at which the padding begins, that is the end of the payload.
\<close>

lemma headerLength_well_formed:
  assumes "block_ok hdr csrcs ext"
    and "pad = (if h_padding hdr then replicate (n - 1) 0 @ [of_nat n] else [])"
    and "0 < n" "n < 256" "length (rtp_header_block hdr csrcs ext @ payload @ pad) < 2 ^ 64"
  shows "unat (headerLength (rtp_header_block hdr csrcs ext @ payload @ pad)) =
    length (rtp_header_block hdr csrcs ext) + (if h_padding hdr then length payload else 0)"
proof -
  let ?b = "rtp_header_block hdr csrcs ext"
  have b: "unat (of_nat (length ?b) :: u64) = length ?b"
    using assms(5) by (intro unat_of_nat_small(3)) simp
  show ?thesis
  proof (cases "h_padding hdr")
    case True
    have n8: "unat (of_nat n :: u8) = n"
      using assms(4) by (rule unat_of_nat_small)
    then have last: "last (?b @ payload @ pad) = of_nat n" "(of_nat n :: u8) \<noteq> 0"
      using True assms(2,3) by auto
    have len: "length (?b @ payload @ pad) = length ?b + length payload + n"
      using True assms(2,3) by simp
    have "unat (ucast (of_nat n :: u8) :: u64) = n"
      using n8 assms(4) by (simp add: unsigned_ucast_eq unat_of_nat_small take_bit_nat_eq_self)
    moreover have "unat (of_nat (length ?b + length payload + n) :: u64) = length ?b + length payload + n"
      using assms(5) len by (intro unat_of_nat_small(3)) linarith
    ultimately have "unat (of_nat (length ?b + length payload + n) - ucast (of_nat n :: u8) :: u64)
        = length ?b + length payload"
      by (simp add: unat_sub word_le_nat_alt)
    then show ?thesis
      unfolding headerLength_block [OF assms(1)] len last(1) using True last(2) by simp
  next
    case False
    then show ?thesis using b by (simp add: headerLength_block [OF assms(1)])
  qed
qed

lemma headerLength_well_formed_example:
  "unat (headerLength (rtp_header_block sample_header [5] (Some (0xBEDE, [1, 2])) @ [9, 9] @ [])) = 28"
  using headerLength_well_formed [of sample_header "[5]" "Some (0xBEDE, [1, 2])" "[]" 1 "[9, 9]"]
  by (simp add: block_ok_def sample_header_valid)
    (simp add: sample_header_def rtp_header_block_def)

end
