(* ===== verification/Rtcp.thy ===== *)
theory Rtcp
  imports Wire
begin

text \<open>
  \<open>rtcp/RtcpHandler.h\<close> and \<open>rtcp/RtcpHandler.cpp\<close>: the packets the SFU builds (PLI, NACK,
  SR) and the traversal of a received compound packet. A callback that is installed is
  called with the fields of the sub-packet; the calls, in order, are the handler's
  observable behaviour. The locale \<open>rtcp_traversal\<close> is the contract shared by the two
  traversals of the program, the one here and the one in \<open>sfu/Router.cpp\<close>.
\<close>

section \<open>Building packets\<close>

definition pli_bytes :: "u32 \<Rightarrow> u32 \<Rightarrow> u8 list" where
  "pli_bytes senderSsrc mediaSsrc =
     [0x80 OR 1, 206] @ be16 2 @ be32 senderSsrc @ be32 mediaSsrc"

definition nack_bytes :: "u32 \<Rightarrow> u32 \<Rightarrow> u16 \<Rightarrow> u16 \<Rightarrow> u8 list" where
  "nack_bytes senderSsrc mediaSsrc pid blp =
     [0x80 OR 1, 205] @ be16 3 @ be32 senderSsrc @ be32 mediaSsrc @ be16 pid @ be16 blp"

definition sr_bytes :: "u32 \<Rightarrow> u32 \<Rightarrow> u32 \<Rightarrow> u32 \<Rightarrow> u32 \<Rightarrow> u32 \<Rightarrow> u8 list" where
  "sr_bytes ssrc ntpMsw ntpLsw rtpTs pktCnt octCnt =
     [0x80, 200] @ be16 6 @ be32 ssrc @ be32 ntpMsw @ be32 ntpLsw @ be32 rtpTs
     @ be32 pktCnt @ be32 octCnt"

text \<open>Which of the five callbacks are installed.\<close>

record rtcp_handler =
  sendCb :: bool
  pliCb :: bool
  nackCb :: bool
  sdesCb :: bool
  srCb :: bool

definition setSendCallback :: "bool \<Rightarrow> rtcp_handler \<Rightarrow> rtcp_handler" where
  "setSendCallback cb h = h\<lparr>sendCb := cb\<rparr>"

definition setPliCallback :: "bool \<Rightarrow> rtcp_handler \<Rightarrow> rtcp_handler" where
  "setPliCallback cb h = h\<lparr>pliCb := cb\<rparr>"

definition setNackCallback :: "bool \<Rightarrow> rtcp_handler \<Rightarrow> rtcp_handler" where
  "setNackCallback cb h = h\<lparr>nackCb := cb\<rparr>"

definition setSdesCallback :: "bool \<Rightarrow> rtcp_handler \<Rightarrow> rtcp_handler" where
  "setSdesCallback cb h = h\<lparr>sdesCb := cb\<rparr>"

definition setSrCallback :: "bool \<Rightarrow> rtcp_handler \<Rightarrow> rtcp_handler" where
  "setSrCallback cb h = h\<lparr>srCb := cb\<rparr>"

text \<open>The packets handed to the send callback: none when it is not installed.\<close>

definition sendPLI :: "rtcp_handler \<Rightarrow> u32 \<Rightarrow> u32 \<Rightarrow> u8 list list" where
  "sendPLI h senderSsrc mediaSsrc =
     (if \<not> sendCb h then [] else [pli_bytes senderSsrc mediaSsrc])"

definition sendNACK :: "rtcp_handler \<Rightarrow> u32 \<Rightarrow> u32 \<Rightarrow> u16 \<Rightarrow> u16 \<Rightarrow> u8 list list" where
  "sendNACK h senderSsrc mediaSsrc pid blp =
     (if \<not> sendCb h then [] else [nack_bytes senderSsrc mediaSsrc pid blp])"

definition sendSR ::
  "rtcp_handler \<Rightarrow> u32 \<Rightarrow> u32 \<Rightarrow> u32 \<Rightarrow> u32 \<Rightarrow> u32 \<Rightarrow> u32 \<Rightarrow> u32 \<Rightarrow> u8 list list" where
  "sendSR h receiverSsrc mediaSsrc ntpMsw ntpLsw rtpTs pktCnt octCnt =
     (if \<not> sendCb h then [] else [sr_bytes receiverSsrc ntpMsw ntpLsw rtpTs pktCnt octCnt])"

section \<open>Traversing a compound packet\<close>

datatype rtcp_event =
    OnSr u32 u32 u32 u32 u32 u32
  | OnSdes u32 "u8 list"
  | OnNack u32 u16 u16
  | OnPli u32

text \<open>The SDES items between \<open>item\<close> and \<open>itemEnd\<close>: only non-empty CNAMEs are reported.\<close>

function sdes_items ::
  "rtcp_handler \<Rightarrow> u8 list \<Rightarrow> u32 \<Rightarrow> nat \<Rightarrow> nat \<Rightarrow> rtcp_event list \<Rightarrow> rtcp_event list option" where
  "sdes_items h d ssrc item itemEnd evs =
     (if item + 2 \<le> itemEnd then do {
        type \<leftarrow> rd8 d item;
        if type = 0 then Some evs else do {
          valLen \<leftarrow> rd8 d (item + 1);
          if itemEnd < item + 2 + unat valLen then Some evs
          else sdes_items h d ssrc (item + 2 + unat valLen) itemEnd
                 (if type = 1 \<and> 0 < unat valLen \<and> sdesCb h
                  then evs @ [OnSdes ssrc (take (unat valLen) (drop (item + 2) d))] else evs)
        }
      } else Some evs)"
  by pat_completeness auto
termination
  by (relation "measure (\<lambda>(h, d, ssrc, item, itemEnd, evs). itemEnd - item)") auto

declare sdes_items.simps [simp del]

text \<open>
  The body of the \<open>switch\<close> for the sub-packet of \<open>packetLen\<close> bytes at \<open>p\<close>. The SR and
  SDES cases read their fields without looking at \<open>packetLen\<close>.
\<close>

definition rtcp_case ::
  "rtcp_handler \<Rightarrow> u8 list \<Rightarrow> nat \<Rightarrow> nat \<Rightarrow> rtcp_event list \<Rightarrow> rtcp_event list option" where
  "rtcp_case h d p packetLen evs = do {
     pt \<leftarrow> rd8 d (p + 1);
     if pt = 200 then do {
       senderSsrc \<leftarrow> rd32 d (p + 4);
       ntpMsw \<leftarrow> rd32 d (p + 8);
       ntpLsw \<leftarrow> rd32 d (p + 12);
       rtpTs \<leftarrow> rd32 d (p + 16);
       pktCnt \<leftarrow> rd32 d (p + 20);
       octCnt \<leftarrow> rd32 d (p + 24);
       Some (if srCb h then evs @ [OnSr senderSsrc ntpMsw ntpLsw rtpTs pktCnt octCnt] else evs)
     } else if pt = 202 then do {
       ssrc \<leftarrow> rd32 d (p + 4);
       sdes_items h d ssrc (p + 8) (p + packetLen) evs
     } else if pt = 205 then do {
       b0 \<leftarrow> rd8 d p;
       if b0 AND 0x1F = 1 \<and> 16 \<le> packetLen then do {
         mediaSsrc \<leftarrow> rd32 d (p + 8);
         pid \<leftarrow> rd16 d (p + 12);
         blp \<leftarrow> rd16 d (p + 14);
         Some (if nackCb h then evs @ [OnNack mediaSsrc pid blp] else evs)
       } else Some evs
     } else if pt = 206 then do {
       b0 \<leftarrow> rd8 d p;
       if b0 AND 0x1F = 1 \<and> 12 \<le> packetLen then do {
         mediaSsrc \<leftarrow> rd32 d (p + 8);
         Some (if pliCb h then evs @ [OnPli mediaSsrc] else evs)
       } else Some evs
     } else Some evs
   }"

text \<open>The length of the sub-packet at \<open>p\<close>, from its 16-bit length field.\<close>

definition rtcp_packetLen :: "u8 list \<Rightarrow> nat \<Rightarrow> nat" where
  "rtcp_packetLen d p = (unat (at16 d (p + 2)) + 1) * 4"

lemma rtcp_packetLen_pos [simp]: "4 \<le> rtcp_packetLen d p" "0 < rtcp_packetLen d p"
    "rtcp_packetLen d p \<noteq> 0"
  by (simp_all add: rtcp_packetLen_def)

function rtcp_loop ::
  "rtcp_handler \<Rightarrow> u8 list \<Rightarrow> nat \<Rightarrow> rtcp_event list \<Rightarrow> rtcp_event list option" where
  "rtcp_loop h d p evs =
     (if p + 4 \<le> length d then
        (if length d < p + rtcp_packetLen d p then Some evs
         else do {
           evs' \<leftarrow> rtcp_case h d p (rtcp_packetLen d p) evs;
           rtcp_loop h d (p + rtcp_packetLen d p) evs'
         })
      else Some evs)"
  by pat_completeness auto
termination
  by (relation "measure (\<lambda>(h, d, p, evs). length d - p)")
    (auto simp: diff_less_mono2 less_le_trans [OF _ rtcp_packetLen_pos(1)])

declare rtcp_loop.simps [simp del]

text \<open>\<open>RtcpHandler::onRtcpPacket\<close>: the callbacks made, or undefined.\<close>

definition handler_onRtcpPacket :: "rtcp_handler \<Rightarrow> u8 list \<Rightarrow> rtcp_event list option" where
  "handler_onRtcpPacket h data = rtcp_loop h data 0 []"

section \<open>The contract of a traversal\<close>

text \<open>
  The sub-packets of a compound packet: offset and length of each, up to the first one
  that does not fit.
\<close>

function subpackets :: "u8 list \<Rightarrow> nat \<Rightarrow> (nat \<times> nat) list" where
  "subpackets d p =
     (if p + 4 \<le> length d \<and> p + rtcp_packetLen d p \<le> length d
      then (p, rtcp_packetLen d p) # subpackets d (p + rtcp_packetLen d p) else [])"
  by pat_completeness auto
termination
  by (relation "measure (\<lambda>(d, p). length d - p)")
    (auto simp: diff_less_mono2 less_le_trans [OF _ rtcp_packetLen_pos(1)])

declare subpackets.simps [simp del]

lemma subpackets_bounds:
  "(o', n) \<in> set (subpackets d p) \<Longrightarrow> p \<le> o' \<and> 4 \<le> n \<and> n = rtcp_packetLen d o' \<and> o' + n \<le> length d"
proof (induction d p rule: subpackets.induct)
  case (1 d p)
  show ?case
    using 1 by (subst (asm) subpackets.simps) (fastforce split: if_splits)
qed

text \<open>
  A loop that looks at the length field, gives the sub-packet to \<open>visit\<close> and goes on
  behind it runs \<open>visit\<close> over exactly these sub-packets, in order.
\<close>

locale rtcp_traversal =
  fixes visit :: "u8 list \<Rightarrow> nat \<Rightarrow> nat \<Rightarrow> 's \<Rightarrow> 's option"
    and loop :: "u8 list \<Rightarrow> nat \<Rightarrow> 's \<Rightarrow> 's option"
  assumes loop_unfold: "loop d p s =
     (if p + 4 \<le> length d then
        (if length d < p + rtcp_packetLen d p then Some s
         else visit d p (rtcp_packetLen d p) s \<bind> loop d (p + rtcp_packetLen d p))
      else Some s)"
begin

lemma loop_foldM: "loop d p s = foldM (\<lambda>(o', n). visit d o' n) (subpackets d p) s"
proof (induction d p arbitrary: s rule: subpackets.induct)
  case (1 d p)
  show ?case
  proof (cases "p + 4 \<le> length d \<and> p + rtcp_packetLen d p \<le> length d")
    case True
    then show ?thesis
      using "1.IH" by (subst loop_unfold, subst subpackets.simps)
        (cases "visit d p (rtcp_packetLen d p) s", auto)
  next
    case False
    then show ?thesis by (subst loop_unfold, subst subpackets.simps) auto
  qed
qed

lemma loop_runs:
  assumes "I s"
    and "\<And>o' n s. o' + n \<le> length d \<Longrightarrow> 4 \<le> n \<Longrightarrow> I s \<Longrightarrow> runs (visit d o' n s) I"
  shows "runs (loop d p s) I"
  unfolding loop_foldM using assms(1)
  by (rule runs_foldM) (auto dest!: subpackets_bounds intro: assms(2))

end

interpretation rtcp_h: rtcp_traversal "rtcp_case h" "rtcp_loop h" for h
  by unfold_locales (subst rtcp_loop.simps, simp)


section \<open>What is built is what is parsed\<close>

text \<open>The packets the handler can build, and the callback each causes when received.\<close>

datatype rtcp_out = OutPli u32 u32 | OutNack u32 u32 u16 u16 | OutSr u32 u32 u32 u32 u32 u32

fun out_packets :: "rtcp_handler \<Rightarrow> rtcp_out \<Rightarrow> u8 list list" where
  "out_packets h (OutPli ss ms) = sendPLI h ss ms"
| "out_packets h (OutNack ss ms pid blp) = sendNACK h ss ms pid blp"
| "out_packets h (OutSr ss hi lo ts pc oc) = sendSR h ss 0 hi lo ts pc oc"

fun out_event :: "rtcp_out \<Rightarrow> rtcp_event" where
  "out_event (OutPli ss ms) = OnPli ms"
| "out_event (OutNack ss ms pid blp) = OnNack ms pid blp"
| "out_event (OutSr ss hi lo ts pc oc) = OnSr ss hi lo ts pc oc"

definition all_callbacks :: rtcp_handler where
  "all_callbacks = \<lparr>sendCb = True, pliCb = True, nackCb = True, sdesCb = True, srCb = True\<rparr>"

lemma all_callbacks_simps [simp]:
  "sendCb all_callbacks" "pliCb all_callbacks" "nackCb all_callbacks" "srCb all_callbacks"
  by (simp_all add: all_callbacks_def)

lemma length_pli_bytes [simp]: "length (pli_bytes ss ms) = 12"
  by (simp add: pli_bytes_def)

lemma length_nack_bytes [simp]: "length (nack_bytes ss ms pid blp) = 16"
  by (simp add: nack_bytes_def)

lemma length_sr_bytes [simp]: "length (sr_bytes ss hi lo ts pc oc) = 28"
  by (simp add: sr_bytes_def)

text \<open>Reading the fields of the three packets, whatever follows them.\<close>

lemma pli_bytes_read:
  "(pli_bytes ss ms @ post) ! 0 = 0x81" "(pli_bytes ss ms @ post) ! 1 = 206"
  "at16 (pli_bytes ss ms @ post) 2 = 2" "at32 (pli_bytes ss ms @ post) 4 = ss"
  "at32 (pli_bytes ss ms @ post) 8 = ms"
  by (simp_all add: pli_bytes_def at16_def at32_def be16_def be32_def of32_be32 of16_def)

lemma nack_bytes_read:
  "(nack_bytes ss ms pid blp @ post) ! 0 = 0x81" "(nack_bytes ss ms pid blp @ post) ! 1 = 205"
  "at16 (nack_bytes ss ms pid blp @ post) 2 = 3" "at32 (nack_bytes ss ms pid blp @ post) 8 = ms"
  "at16 (nack_bytes ss ms pid blp @ post) 12 = pid" "at16 (nack_bytes ss ms pid blp @ post) 14 = blp"
  by (simp_all add: nack_bytes_def at16_def at32_def be16_def be32_def of32_be32 of16_be16)
    (simp add: of16_def)

lemma sr_bytes_read:
  "(sr_bytes ss hi lo ts pc oc @ post) ! 0 = 0x80" "(sr_bytes ss hi lo ts pc oc @ post) ! 1 = 200"
  "at16 (sr_bytes ss hi lo ts pc oc @ post) 2 = 6" "at32 (sr_bytes ss hi lo ts pc oc @ post) 4 = ss"
  "at32 (sr_bytes ss hi lo ts pc oc @ post) 8 = hi" "at32 (sr_bytes ss hi lo ts pc oc @ post) 12 = lo"
  "at32 (sr_bytes ss hi lo ts pc oc @ post) 16 = ts" "at32 (sr_bytes ss hi lo ts pc oc @ post) 20 = pc"
  "at32 (sr_bytes ss hi lo ts pc oc @ post) 24 = oc"
  by (simp_all add: sr_bytes_def at16_def at32_def be16_def be32_def of32_be32)
    (simp add: of16_def)

definition out_bytes :: "rtcp_out \<Rightarrow> u8 list" where
  "out_bytes m = concat (out_packets all_callbacks m)"

lemma out_bytes_simps:
  "out_bytes (OutPli ss ms) = pli_bytes ss ms"
  "out_bytes (OutNack ss ms pid blp) = nack_bytes ss ms pid blp"
  "out_bytes (OutSr ss hi lo ts pc oc) = sr_bytes ss hi lo ts pc oc"
  by (simp_all add: out_bytes_def sendPLI_def sendNACK_def sendSR_def)

lemma out_bytes_packetLen:
  "rtcp_packetLen (pre @ out_bytes m @ post) (length pre) = length (out_bytes m)"
  using at16_behind [of pre "out_bytes m @ post" 2]
  by (cases m) (simp_all add: rtcp_packetLen_def out_bytes_simps pli_bytes_read nack_bytes_read
      sr_bytes_read)

lemma out_bytes_case:
  "rtcp_case all_callbacks (pre @ out_bytes m @ post) (length pre) (length (out_bytes m)) evs
   = Some (evs @ [out_event m])"
proof (cases m)
  case (OutPli ss ms)
  then show ?thesis
    using rd8_behind [of pre "pli_bytes ss ms @ post" 0]
    by (simp add: rtcp_case_def out_bytes_simps rd8_behind at32_behind rd8_def rd32_def
        pli_bytes_read del: One_nat_def)
next
  case (OutNack ss ms pid blp)
  then show ?thesis
    using rd8_behind [of pre "nack_bytes ss ms pid blp @ post" 0]
    by (simp add: rtcp_case_def out_bytes_simps rd8_behind at16_behind at32_behind rd8_def
        rd16_def rd32_def nack_bytes_read del: One_nat_def)
next
  case (OutSr ss hi lo ts pc oc)
  then show ?thesis
    by (simp add: rtcp_case_def out_bytes_simps rd8_behind at32_behind rd8_def rd32_def
        sr_bytes_read del: One_nat_def)
qed

lemma compound_roundtrip:
  "rtcp_loop all_callbacks (pre @ concat (map out_bytes ms)) (length pre) evs
   = Some (evs @ map out_event ms)"
proof (induction ms arbitrary: pre evs)
  case Nil
  show ?case by (subst rtcp_loop.simps) simp
next
  case (Cons m ms)
  let ?d = "pre @ out_bytes m @ concat (map out_bytes ms)"
  have "4 \<le> length (out_bytes m)"
    by (cases m) (simp_all add: out_bytes_simps)
  then have "rtcp_loop all_callbacks ?d (length pre) evs
      = rtcp_loop all_callbacks ?d (length pre + length (out_bytes m)) (evs @ [out_event m])"
    by (subst rtcp_loop.simps) (simp add: out_bytes_packetLen out_bytes_case)
  then show ?case
    using Cons.IH [of "pre @ out_bytes m" "evs @ [out_event m]"] by simp
qed

section \<open>Out-of-bounds reads\<close>

lemma sdes_items_defined:
  "itemEnd \<le> length d \<Longrightarrow> \<exists>evs'. sdes_items h d ssrc item itemEnd evs = Some evs'"
proof (induction h d ssrc item itemEnd evs rule: sdes_items.induct)
  case (1 h d ssrc item itemEnd evs)
  show ?case
    using 1 by (subst sdes_items.simps) (auto simp: rd8_def)
qed

text \<open>The bytes the case for packet type \<open>pt\<close> reads without a check of its own.\<close>

definition rtcp_need :: "u8 \<Rightarrow> nat" where
  "rtcp_need pt = (if pt = 200 then 28 else if pt = 202 then 8 else 4)"

lemma rtcp_case_defined_iff:
  assumes "p + n \<le> length d" "4 \<le> n"
  shows "rtcp_case h d p n evs \<noteq> None \<longleftrightarrow> p + rtcp_need (d ! (p + 1)) \<le> length d"
proof -
  have sd: "\<exists>e. sdes_items h d s (p + 8) (p + n) evs = Some e" for s
    using assms(1) by (rule sdes_items_defined)
  show ?thesis
    using assms sd
    by (auto simp: rtcp_case_def rtcp_need_def rd8_def rd16_def rd32_def split: if_splits)
qed

lemma rtcp_loop_defined_iff:
  "rtcp_loop h d p evs \<noteq> None \<longleftrightarrow>
     (\<forall>(o', n) \<in> set (subpackets d p). o' + rtcp_need (d ! (o' + 1)) \<le> length d)"
proof -
  have "foldM (\<lambda>(o', n). rtcp_case h d o' n) xs evs \<noteq> None \<longleftrightarrow>
      (\<forall>(o', n) \<in> set xs. o' + rtcp_need (d ! (o' + 1)) \<le> length d)"
    if "\<forall>(o', n) \<in> set xs. o' + n \<le> length d \<and> 4 \<le> n" for xs
    using that
  proof (induction xs arbitrary: evs)
    case (Cons x xs)
    obtain o' n where x: "x = (o', n)" by (cases x)
    with Cons.prems have "rtcp_case h d o' n evs \<noteq> None \<longleftrightarrow>
        o' + rtcp_need (d ! (o' + 1)) \<le> length d"
      by (intro rtcp_case_defined_iff) auto
    with Cons x show ?case
      by (cases "rtcp_case h d o' n evs") auto
  qed simp
  then show ?thesis
    unfolding rtcp_h.loop_foldM using subpackets_bounds [of _ _ d p] by auto
qed

section \<open>Properties\<close>

text \<open>
  C28. A compound packet made of any sequence of the PLI, NACK and SR packets that
  \<open>sendPLI\<close>, \<open>sendNACK\<close> and \<open>sendSR\<close> build is traversed without leaving the packet, and
  the callbacks are called once per packet, in order, with the fields that were put in.
\<close>

theorem rtcp_built_is_parsed:
  "handler_onRtcpPacket all_callbacks (concat (map (\<lambda>m. concat (out_packets all_callbacks m)) ms))
   = Some (map out_event ms)"
  using compound_roundtrip [of "[]" ms "[]"]
  by (simp add: handler_onRtcpPacket_def out_bytes_def [abs_def])

text \<open>
  C29. The traversal of a received packet stays inside the packet exactly when every
  sub-packet of type SR has 28 bytes behind its start and every SDES has 8: these two
  cases read their fields without a length check. The NACK and PLI cases are always safe.
\<close>

theorem rtcp_parser_memory_safe_iff:
  "handler_onRtcpPacket h d \<noteq> None \<longleftrightarrow>
     (\<forall>(p, n) \<in> set (subpackets d 0).
        p + (if d ! (p + 1) = 200 then 28 else if d ! (p + 1) = 202 then 8 else 4) \<le> length d)"
  unfolding handler_onRtcpPacket_def rtcp_loop_defined_iff rtcp_need_def ..

text \<open>A bare SR header of 4 bytes is accepted by the length check and read past its end.\<close>

theorem rtcp_parser_memory_safe_iff_witness:
  "subpackets [0x80, 200, 0, 0] 0 = [(0, 4)] \<and> handler_onRtcpPacket all_callbacks [0x80, 200, 0, 0] = None"
proof -
  have "rtcp_packetLen [0x80, 200, 0, 0] 0 = 4"
    by (simp add: rtcp_packetLen_def at16_def of16_def)
  then have "subpackets [0x80, 200, 0, 0] 0 = [(0, 4)]"
    by (subst subpackets.simps, subst subpackets.simps) simp
  then show ?thesis
    using rtcp_parser_memory_safe_iff [of all_callbacks "[0x80, 200, 0, 0]"] by simp
qed

fun event_wanted :: "rtcp_handler \<Rightarrow> rtcp_event \<Rightarrow> bool" where
  "event_wanted h (OnSr ssrc msw lsw ts pc oc) = srCb h"
| "event_wanted h (OnSdes ssrc cname) = (sdesCb h \<and> cname \<noteq> [] \<and> length cname < 256)"
| "event_wanted h (OnNack ssrc pid blp) = nackCb h"
| "event_wanted h (OnPli ssrc) = pliCb h"

lemma sdes_items_wanted:
  "itemEnd \<le> length d \<Longrightarrow> \<forall>e \<in> set evs. event_wanted h e \<Longrightarrow>
     runs (sdes_items h d ssrc item itemEnd evs) (\<lambda>evs'. \<forall>e \<in> set evs'. event_wanted h e)"
proof (induction h d ssrc item itemEnd evs rule: sdes_items.induct)
  case (1 h d ssrc item itemEnd evs)
  show ?case
  proof (cases "item + 2 \<le> itemEnd \<and> d ! item \<noteq> 0 \<and> item + 2 + unat (d ! (item + 1)) \<le> itemEnd")
    case True
    then have r: "rd8 d item = Some (d ! item)" "rd8 d (item + 1) = Some (d ! (item + 1))"
      using "1.prems" by (simp_all add: rd8_def)
    let ?v = "take (unat (d ! (item + 1))) (drop (item + 2) d)"
    define evs1 where "evs1 = (if d ! item = 1 \<and> 0 < unat (d ! (item + 1)) \<and> sdesCb h
      then evs @ [OnSdes ssrc ?v] else evs)"
    have "0 < unat (d ! (item + 1)) \<Longrightarrow> ?v \<noteq> []" "length ?v < 256"
      using True "1.prems"(1) unat_u8_less [of "d ! (item + 1)"] by auto
    then have "\<forall>e \<in> set evs1. event_wanted h e"
      using "1.prems"(2) by (auto simp: evs1_def)
    then have "runs (sdes_items h d ssrc (item + 2 + unat (d ! (item + 1))) itemEnd evs1)
        (\<lambda>evs'. \<forall>e \<in> set evs'. event_wanted h e)"
      using True "1.prems"(1) by (intro "1.IH" [OF _ r(1) _ r(2), folded evs1_def]) simp_all
    then show ?thesis
      using True r by (subst sdes_items.simps) (simp add: not_less evs1_def [symmetric] del: One_nat_def)
  next
    case False
    then show ?thesis
      using "1.prems" by (subst sdes_items.simps) (auto simp: rd8_def)
  qed
qed

lemma rtcp_case_wanted:
  assumes "rtcp_case h d p n evs = Some evs'" "p + n \<le> length d" "\<forall>e \<in> set evs. event_wanted h e"
  shows "\<forall>e \<in> set evs'. event_wanted h e"
proof -
  have "sdes_items h d ssrc (p + 8) (p + n) evs = Some evs' \<Longrightarrow> ?thesis" for ssrc
    using sdes_items_wanted [OF assms(2,3), of ssrc "p + 8"] by (simp add: runs_def)
  then show ?thesis
    using assms(1,3) by (auto simp: rtcp_case_def bind_eq_Some_conv split: if_splits)
qed

text \<open>
  Only the installed callbacks are called: every callback the traversal makes belongs
  to one of the four that are set, and an SDES callback always carries a non-empty CNAME.
\<close>

lemma rtcp_callbacks_installed:
  assumes "handler_onRtcpPacket h d = Some evs" "e \<in> set evs"
  shows "event_wanted h e"
proof -
  have "foldM (\<lambda>(o', n). rtcp_case h d o' n) xs evs0 = Some evs1 \<Longrightarrow>
      \<forall>(o', n) \<in> set xs. o' + n \<le> length d \<Longrightarrow> \<forall>e \<in> set evs0. event_wanted h e \<Longrightarrow>
      \<forall>e \<in> set evs1. event_wanted h e" for xs evs0 evs1
    by (induction xs arbitrary: evs0)
      (auto simp: bind_eq_Some_conv split: prod.splits dest: rtcp_case_wanted)
  then show ?thesis
    using assms subpackets_bounds [of _ _ d 0]
    unfolding handler_onRtcpPacket_def rtcp_h.loop_foldM by fastforce
qed

end
