(* ===== verification/Srtp.thy ===== *)
theory Srtp
  imports Prelude
begin

text \<open>
  \<open>transport/SrtpContext.h\<close> and \<open>transport/SrtpContext.cpp\<close>: the pair of SRTP sessions of
  a peer. libsrtp is a parameter (\<open>srtp_lib\<close>): a session is an opaque value that each call
  may change, and a call either fails or yields the bytes it leaves in the caller's
  buffer. The C functions work in place, so each operation here takes the size of the
  memory behind \<open>buf\<close>; a result that does not fit is a write past its end.
\<close>

section \<open>libsrtp as a parameter\<close>

datatype srtp_direction = Ssrc_any_inbound | Ssrc_any_outbound
datatype srtp_crypto = Aes_cm_128_hmac_sha1_80

record srtp_policy =
  pol_rtp :: srtp_crypto
  pol_rtcp :: srtp_crypto
  pol_ssrc :: srtp_direction
  pol_window_size :: nat
  pol_allow_repeat_tx :: bool
  pol_key :: "u8 list"

record 's srtp_lib =
  srtp_create :: "srtp_policy \<Rightarrow> 's option"
  srtp_protect :: "'s \<Rightarrow> u8 list \<Rightarrow> 's \<times> u8 list option"
  srtp_unprotect :: "'s \<Rightarrow> u8 list \<Rightarrow> 's \<times> u8 list option"
  srtp_protect_rtcp :: "'s \<Rightarrow> u8 list \<Rightarrow> 's \<times> u8 list option"
  srtp_unprotect_rtcp :: "'s \<Rightarrow> u8 list \<Rightarrow> 's \<times> u8 list option"

text \<open>
  What RFC 3711 says of the sizes under the one profile the code uses
  (AES_CM_128_HMAC_SHA1_80, no MKI): protection appends the 10-byte tag to an RTP packet
  and the 4-byte index and the tag to an RTCP packet; removing it never grows a packet.
\<close>

definition libsrtp_sizes :: "'s srtp_lib \<Rightarrow> bool" where
  "libsrtp_sizes lib \<longleftrightarrow>
     (\<forall>s b s' out. srtp_protect lib s b = (s', Some out) \<longrightarrow> length out = length b + 10) \<and>
     (\<forall>s b s' out. srtp_protect_rtcp lib s b = (s', Some out) \<longrightarrow> length out = length b + 14) \<and>
     (\<forall>s b s' out. srtp_unprotect lib s b = (s', Some out) \<longrightarrow> length out \<le> length b) \<and>
     (\<forall>s b s' out. srtp_unprotect_rtcp lib s b = (s', Some out) \<longrightarrow> length out \<le> length b)"

section \<open>The context\<close>

record 's srtp_ctx =
  srtpIn :: "'s option"
  srtpOut :: "'s option"
  inited :: bool

definition srtp_new :: "'s srtp_ctx" where
  "srtp_new = \<lparr>srtpIn = None, srtpOut = None, inited = False\<rparr>"

definition srtp_policy_for :: "srtp_direction \<Rightarrow> u8 list \<Rightarrow> srtp_policy" where
  "srtp_policy_for dir keyWithSalt =
     \<lparr>pol_rtp = Aes_cm_128_hmac_sha1_80, pol_rtcp = Aes_cm_128_hmac_sha1_80, pol_ssrc = dir,
      pol_window_size = 128, pol_allow_repeat_tx = False, pol_key = keyWithSalt\<rparr>"

text \<open>\<open>SrtpContext::init\<close>: its result and the context it leaves.\<close>

definition srtp_init :: "'s srtp_lib \<Rightarrow> u8 list \<Rightarrow> 's srtp_ctx \<Rightarrow> bool \<times> 's srtp_ctx" where
  "srtp_init lib keyMaterial ctx =
     (if length keyMaterial < 60 then (False, ctx)
      else
        let clientKey = take 16 keyMaterial;
            serverKey = take 16 (drop 16 keyMaterial);
            clientSalt = take 14 (drop 32 keyMaterial);
            serverSalt = take 14 (drop 46 keyMaterial)
        in case srtp_create lib (srtp_policy_for Ssrc_any_inbound (clientKey @ clientSalt)) of
             None \<Rightarrow> (False, ctx\<lparr>srtpIn := None\<rparr>)
           | Some sIn \<Rightarrow>
               (case srtp_create lib (srtp_policy_for Ssrc_any_outbound (serverKey @ serverSalt)) of
                  None \<Rightarrow> (False, ctx\<lparr>srtpIn := None, srtpOut := None\<rparr>)
                | Some sOut \<Rightarrow>
                    (True, ctx\<lparr>srtpIn := Some sIn, srtpOut := Some sOut, inited := True\<rparr>)))"

text \<open>An in-place library call on a buffer of \<open>cap\<close> bytes.\<close>

definition in_place :: "nat \<Rightarrow> 's \<times> u8 list option \<Rightarrow> ('s \<times> u8 list option) option" where
  "in_place cap r =
     (case snd r of None \<Rightarrow> Some r | Some out \<Rightarrow> if cap < length out then None else Some r)"

definition unprotect ::
  "'s srtp_lib \<Rightarrow> nat \<Rightarrow> u8 list \<Rightarrow> 's srtp_ctx \<Rightarrow> ('s srtp_ctx \<times> u8 list option) option" where
  "unprotect lib cap buf ctx =
     (if \<not> inited ctx then Some (ctx, None)
      else case srtpIn ctx of None \<Rightarrow> Some (ctx, None)
      | Some s \<Rightarrow> do {
          r \<leftarrow> in_place cap (srtp_unprotect lib s buf);
          Some (ctx\<lparr>srtpIn := Some (fst r)\<rparr>, snd r)
        })"

definition unprotectRtcp ::
  "'s srtp_lib \<Rightarrow> nat \<Rightarrow> u8 list \<Rightarrow> 's srtp_ctx \<Rightarrow> ('s srtp_ctx \<times> u8 list option) option" where
  "unprotectRtcp lib cap buf ctx =
     (if \<not> inited ctx then Some (ctx, None)
      else case srtpIn ctx of None \<Rightarrow> Some (ctx, None)
      | Some s \<Rightarrow> do {
          r \<leftarrow> in_place cap (srtp_unprotect_rtcp lib s buf);
          Some (ctx\<lparr>srtpIn := Some (fst r)\<rparr>, snd r)
        })"

definition protect ::
  "'s srtp_lib \<Rightarrow> nat \<Rightarrow> u8 list \<Rightarrow> 's srtp_ctx \<Rightarrow> ('s srtp_ctx \<times> u8 list option) option" where
  "protect lib cap buf ctx =
     (if \<not> inited ctx then Some (ctx, None)
      else case srtpOut ctx of None \<Rightarrow> Some (ctx, None)
      | Some s \<Rightarrow> do {
          r \<leftarrow> in_place cap (srtp_protect lib s buf);
          Some (ctx\<lparr>srtpOut := Some (fst r)\<rparr>, snd r)
        })"

definition protectRtcp ::
  "'s srtp_lib \<Rightarrow> nat \<Rightarrow> u8 list \<Rightarrow> 's srtp_ctx \<Rightarrow> ('s srtp_ctx \<times> u8 list option) option" where
  "protectRtcp lib cap buf ctx =
     (if \<not> inited ctx then Some (ctx, None)
      else case srtpOut ctx of None \<Rightarrow> Some (ctx, None)
      | Some s \<Rightarrow> do {
          r \<leftarrow> in_place cap (srtp_protect_rtcp lib s buf);
          Some (ctx\<lparr>srtpOut := Some (fst r)\<rparr>, snd r)
        })"

section \<open>Which key does what\<close>

text \<open>
  After a successful \<open>init\<close> the inbound session was made from the client's key and salt
  and the outbound one from the server's, cut out of the DTLS export.
\<close>

lemma srtp_init_keys:
  assumes "length ck = 16" "length sk = 16" "length cs = 14" "length ss = 14"
    and "srtp_init lib (ck @ sk @ cs @ ss) ctx = (True, ctx')"
  shows "inited ctx'"
    and "srtpIn ctx' = srtp_create lib (srtp_policy_for Ssrc_any_inbound (ck @ cs))"
    and "srtpOut ctx' = srtp_create lib (srtp_policy_for Ssrc_any_outbound (sk @ ss))"
  using assms by (auto simp: srtp_init_def Let_def split: option.splits)

lemma srtp_init_ready:
  "srtp_init lib km ctx = (True, ctx') \<Longrightarrow> inited ctx' \<and> srtpIn ctx' \<noteq> None \<and> srtpOut ctx' \<noteq> None"
  by (auto simp: srtp_init_def Let_def split: if_splits option.splits)

lemma srtp_init_false:
  "srtp_init lib km ctx = (False, ctx') \<Longrightarrow> inited ctx' = inited ctx"
  by (auto simp: srtp_init_def Let_def split: if_splits option.splits)

section \<open>Buffers that are large enough\<close>

lemma protect_fits:
  assumes "libsrtp_sizes lib" "length buf + 10 \<le> cap"
  shows "runs (protect lib cap buf ctx) (\<lambda>(ctx', r). srtpIn ctx' = srtpIn ctx \<and> inited ctx' = inited ctx
    \<and> (\<forall>out. r = Some out \<longrightarrow> length out = length buf + 10))"
proof (cases "srtpOut ctx")
  case (Some s)
  obtain s' r where "srtp_protect lib s buf = (s', r)" by fastforce
  moreover have "length out = length buf + 10" if "r = Some out" for out
    using assms(1) calculation that by (auto simp: libsrtp_sizes_def)
  ultimately show ?thesis
    using Some assms(2) by (cases r) (auto simp: protect_def in_place_def)
qed (simp add: protect_def)

lemma protectRtcp_fits:
  assumes "libsrtp_sizes lib" "length buf + 14 \<le> cap"
  shows "runs (protectRtcp lib cap buf ctx) (\<lambda>(ctx', r). srtpIn ctx' = srtpIn ctx \<and> inited ctx' = inited ctx
    \<and> (\<forall>out. r = Some out \<longrightarrow> length out = length buf + 14))"
proof (cases "srtpOut ctx")
  case (Some s)
  obtain s' r where "srtp_protect_rtcp lib s buf = (s', r)" by fastforce
  moreover have "length out = length buf + 14" if "r = Some out" for out
    using assms(1) calculation that by (auto simp: libsrtp_sizes_def)
  ultimately show ?thesis
    using Some assms(2) by (cases r) (auto simp: protectRtcp_def in_place_def)
qed (simp add: protectRtcp_def)

text \<open>
  A successful protection of an RTCP packet in a buffer of exactly the packet's size
  writes past its end.
\<close>

lemma protectRtcp_tight_overflows:
  assumes "libsrtp_sizes lib" "inited ctx" "srtpOut ctx = Some s"
    and "srtp_protect_rtcp lib s buf = (s', Some out)"
  shows "protectRtcp lib (length buf) buf ctx = None"
proof -
  have "length out = length buf + 14" using assms(1,4) by (auto simp: libsrtp_sizes_def)
  then show ?thesis using assms by (simp add: protectRtcp_def in_place_def)
qed

lemma unprotect_fits:
  assumes "libsrtp_sizes lib" "length buf \<le> cap"
  shows "runs (unprotect lib cap buf ctx)
    (\<lambda>(ctx', r). \<forall>out. r = Some out \<longrightarrow> length out \<le> length buf)"
proof (cases "srtpIn ctx")
  case (Some s)
  obtain s' r where "srtp_unprotect lib s buf = (s', r)" by fastforce
  moreover have "length out \<le> length buf" if "r = Some out" for out
    using assms(1) calculation that by (auto simp: libsrtp_sizes_def)
  ultimately show ?thesis
    using Some assms(2) by (cases r) (fastforce simp: unprotect_def in_place_def)+
qed (simp add: unprotect_def)

lemma unprotectRtcp_fits:
  assumes "libsrtp_sizes lib" "length buf \<le> cap"
  shows "runs (unprotectRtcp lib cap buf ctx)
    (\<lambda>(ctx', r). \<forall>out. r = Some out \<longrightarrow> length out \<le> length buf)"
proof (cases "srtpIn ctx")
  case (Some s)
  obtain s' r where "srtp_unprotect_rtcp lib s buf = (s', r)" by fastforce
  moreover have "length out \<le> length buf" if "r = Some out" for out
    using assms(1) calculation that by (auto simp: libsrtp_sizes_def)
  ultimately show ?thesis
    using Some assms(2) by (cases r) (fastforce simp: unprotectRtcp_def in_place_def)+
qed (simp add: unprotectRtcp_def)

section \<open>Properties\<close>

text \<open>
  The layout of the key material: after a successful \<open>init\<close> with client key, server
  key, client salt and server salt the session that decrypts what the browser sends was
  created with the client's key and salt, the one that encrypts towards the browser with
  the server's, and both operate.
\<close>

lemma srtp_keys_by_role:
  assumes "length ck = 16" "length sk = 16" "length cs = 14" "length ss = 14"
    and "srtp_init lib (ck @ sk @ cs @ ss) ctx = (True, ctx')"
  shows "inited ctx' \<and> srtpIn ctx' \<noteq> None \<and> srtpOut ctx' \<noteq> None \<and>
    srtpIn ctx' = srtp_create lib (srtp_policy_for Ssrc_any_inbound (ck @ cs)) \<and>
    srtpOut ctx' = srtp_create lib (srtp_policy_for Ssrc_any_outbound (sk @ ss))"
  using srtp_init_keys [OF assms] srtp_init_ready [OF assms(5)] by simp

text \<open>A library instance: sessions are the policies, protection appends zeros.\<close>

definition zero_tag_lib :: "srtp_policy srtp_lib" where
  "zero_tag_lib =
     \<lparr>srtp_create = Some,
      srtp_protect = (\<lambda>s b. (s, Some (b @ replicate 10 0))),
      srtp_unprotect = (\<lambda>s b. (s, if length b < 22 then None else Some (take (length b - 10) b))),
      srtp_protect_rtcp = (\<lambda>s b. (s, Some (b @ replicate 14 0))),
      srtp_unprotect_rtcp = (\<lambda>s b. (s, if length b < 22 then None else Some (take (length b - 14) b)))\<rparr>"

lemma zero_tag_lib_sizes: "libsrtp_sizes zero_tag_lib"
  by (auto simp: libsrtp_sizes_def zero_tag_lib_def split: if_splits)

definition zero_tag_ctx :: "srtp_policy srtp_ctx" where
  "zero_tag_ctx = snd (srtp_init zero_tag_lib (replicate 60 0) srtp_new)"

lemma zero_tag_ctx_simps:
  "inited zero_tag_ctx"
  "srtpOut zero_tag_ctx = Some (srtp_policy_for Ssrc_any_outbound (replicate 30 0))"
  "srtpIn zero_tag_ctx = Some (srtp_policy_for Ssrc_any_inbound (replicate 30 0))"
  by (simp_all add: zero_tag_ctx_def srtp_init_def zero_tag_lib_def replicate_add [symmetric])

lemma srtp_keys_by_role_example:
  "srtpIn zero_tag_ctx = srtp_create zero_tag_lib
     (srtp_policy_for Ssrc_any_inbound (replicate 16 0 @ replicate 14 0))"
proof -
  have "srtp_init zero_tag_lib (replicate 16 0 @ replicate 16 0 @ replicate 14 0 @ replicate 14 0)
      srtp_new = (True, zero_tag_ctx)"
    by (simp add: zero_tag_ctx_def srtp_init_def zero_tag_lib_def replicate_add [symmetric])
  from srtp_keys_by_role [OF _ _ _ _ this] show ?thesis by simp
qed

text \<open>
  A context whose \<open>init\<close> never succeeded refuses all four operations, leaves its state
  alone and never calls the library; \<open>init\<close> refuses less than 60 bytes.
\<close>

lemma srtp_not_initialised_refuses:
  assumes "\<not> inited ctx"
  shows "protect lib cap buf ctx = Some (ctx, None) \<and> protectRtcp lib cap buf ctx = Some (ctx, None) \<and>
    unprotect lib cap buf ctx = Some (ctx, None) \<and> unprotectRtcp lib cap buf ctx = Some (ctx, None) \<and>
    (length km < 60 \<longrightarrow> srtp_init lib km ctx = (False, ctx))"
  using assms
  by (simp add: protect_def protectRtcp_def unprotect_def unprotectRtcp_def srtp_init_def)

end
