(* ===== verification/Dtls.thy ===== *)
theory Dtls
  imports Prelude
begin

text \<open>
  \<open>transport/DtlsContext.h\<close> and \<open>transport/DtlsContext.cpp\<close>: the DTLS handshake of a peer
  and the certificate fingerprint. OpenSSL is a parameter (\<open>dtls_lib\<close>): the \<open>SSL\<close> object
  with its read BIO is an opaque value; a handshake step returns OpenSSL's status and the
  bytes it put into the write BIO. Also here: the UDP endpoint and the datagrams sent.
\<close>

record endpoint =
  ep_addr :: u32
  ep_port :: u16

type_synonym datagram = "endpoint \<times> u8 list"

section \<open>The certificate fingerprint\<close>

definition hex_digit :: "nat \<Rightarrow> char" where
  "hex_digit n = ''0123456789ABCDEF'' ! n"

definition hex2 :: "u8 \<Rightarrow> string" where
  "hex2 b = [hex_digit (unat b div 16), hex_digit (unat b mod 16)]"

text \<open>The loop of \<open>initGlobals\<close> over the digest, from index \<open>i\<close> on.\<close>

fun fingerprint_loop :: "nat \<Rightarrow> u8 list \<Rightarrow> string" where
  "fingerprint_loop i [] = []"
| "fingerprint_loop i (b # md) =
     (if 0 < i then '':'' else '''') @ hex2 b @ fingerprint_loop (Suc i) md"

definition cert_fingerprint :: "u8 list \<Rightarrow> string" where
  "cert_fingerprint md = fingerprint_loop 0 md"

section \<open>The context of the process\<close>

text \<open>
  What \<open>initGlobals\<close> uses of OpenSSL. The times of a certificate are seconds from now; the
  key that is generated is part of the parameter. Status codes are not looked at by the code.
\<close>

datatype dtls_version = DTLS1_0 | DTLS1_2

record ('k, 'x, 'c) tls_lib =
  pkey_new :: 'k
  pkey_keygen :: "string \<Rightarrow> 'k \<Rightarrow> 'k"
  x509_new :: 'x
  x509_set_serial :: "int \<Rightarrow> 'x \<Rightarrow> 'x"
  x509_set_notBefore :: "int \<Rightarrow> 'x \<Rightarrow> 'x"
  x509_set_notAfter :: "int \<Rightarrow> 'x \<Rightarrow> 'x"
  x509_set_pubkey :: "'k \<Rightarrow> 'x \<Rightarrow> 'x"
  x509_sign :: "'k \<Rightarrow> 'x \<Rightarrow> 'x"
  x509_digest :: "'x \<Rightarrow> u8 list"
  ctx_new :: 'c
  ctx_set_min_version :: "dtls_version \<Rightarrow> 'c \<Rightarrow> 'c"
  ctx_set_max_version :: "dtls_version \<Rightarrow> 'c \<Rightarrow> 'c"
  ctx_use_certificate :: "'x \<Rightarrow> 'c \<Rightarrow> 'c"
  ctx_use_key :: "'k \<Rightarrow> 'c \<Rightarrow> 'c"
  ctx_use_srtp :: "string \<Rightarrow> 'c \<Rightarrow> 'c"

text \<open>The static members; \<^const>\<open>None\<close> is a null \<open>SSL_CTX\<close>.\<close>

record 'c dtls_globals =
  g_ctx :: "'c option"
  g_certFingerprint :: string

definition dtls_globals_init :: "'c dtls_globals" where
  "dtls_globals_init = \<lparr>g_ctx = None, g_certFingerprint = ''''\<rparr>"

text \<open>The static getter \<open>fingerprint\<close>.\<close>

definition dtls_fingerprint_of :: "'c dtls_globals \<Rightarrow> string" where
  "dtls_fingerprint_of g = g_certFingerprint g"

definition make_key :: "('k, 'x, 'c) tls_lib \<Rightarrow> 'k" where
  "make_key lib = pkey_keygen lib ''prime256v1'' (pkey_new lib)"

definition make_certificate :: "('k, 'x, 'c) tls_lib \<Rightarrow> 'k \<Rightarrow> 'x" where
  "make_certificate lib pkey =
     (let c1 = x509_set_serial lib 1 (x509_new lib);
          c2 = x509_set_notBefore lib 0 c1;
          c3 = x509_set_notAfter lib (365 * 24 * 3600) c2;
          c4 = x509_set_pubkey lib pkey c3
      in x509_sign lib pkey c4)"

definition make_ctx :: "('k, 'x, 'c) tls_lib \<Rightarrow> 'x \<Rightarrow> 'k \<Rightarrow> 'c" where
  "make_ctx lib cert pkey =
     (let x1 = ctx_set_min_version lib DTLS1_0 (ctx_new lib);
          x2 = ctx_set_max_version lib DTLS1_2 x1;
          x3 = ctx_use_certificate lib cert x2;
          x4 = ctx_use_key lib pkey x3
      in ctx_use_srtp lib ''SRTP_AES128_CM_SHA1_80'' x4)"

text \<open>The files are tested for being named, with an empty branch.\<close>

definition initGlobals ::
  "('k, 'x, 'c) tls_lib \<Rightarrow> string \<Rightarrow> string \<Rightarrow> 'c dtls_globals \<Rightarrow> string \<times> 'c dtls_globals" where
  "initGlobals lib certFile keyFile g =
     (let pkey = make_key lib;
          cert = make_certificate lib pkey;
          g1 = g\<lparr>g_certFingerprint := cert_fingerprint (x509_digest lib cert)\<rparr>;
          g2 = g1\<lparr>g_ctx := Some (make_ctx lib cert pkey)\<rparr>
      in (g_certFingerprint g2, g2))"

definition cleanupGlobals :: "'c dtls_globals \<Rightarrow> 'c dtls_globals" where
  "cleanupGlobals g = (if g_ctx g \<noteq> None then g\<lparr>g_ctx := None\<rparr> else g)"

section \<open>OpenSSL as a parameter\<close>

record 'd dtls_lib =
  ssl_new :: 'd
  bio_write :: "'d \<Rightarrow> u8 list \<Rightarrow> 'd"
  ssl_do_handshake :: "'d \<Rightarrow> 'd \<times> int \<times> u8 list"
  ssl_export_keying_material :: "'d \<Rightarrow> int \<times> u8 list"

section \<open>The context of a peer\<close>

text \<open>The send callback captures the endpoint it sends to.\<close>

record 'd dtls_ctx =
  ssl :: 'd
  writeBIO :: "u8 list"
  handshakeDone :: bool
  dtls_sendCb :: "endpoint option"

definition dtls_new :: "'d dtls_lib \<Rightarrow> 'd dtls_ctx" where
  "dtls_new lib = \<lparr>ssl = ssl_new lib, writeBIO = [], handshakeDone = False, dtls_sendCb = None\<rparr>"

definition dtls_setSendCallback :: "endpoint \<Rightarrow> 'd dtls_ctx \<Rightarrow> 'd dtls_ctx" where
  "dtls_setSendCallback ep ctx = ctx\<lparr>dtls_sendCb := Some ep\<rparr>"

text \<open>The loop over \<open>BIO_read\<close> with a buffer of 4096 bytes.\<close>

function drain :: "u8 list \<Rightarrow> u8 list list" where
  "drain bio = (if bio = [] then [] else take 4096 bio # drain (drop 4096 bio))"
  by pat_completeness auto
termination
  by (relation "measure length") auto

declare drain.simps [simp del]

text \<open>\<open>DtlsContext::handlePacket\<close>: the context, the datagrams sent, the result.\<close>

definition handlePacket ::
  "'d dtls_lib \<Rightarrow> u8 list \<Rightarrow> 'd dtls_ctx \<Rightarrow> 'd dtls_ctx \<times> datagram list \<times> bool" where
  "handlePacket lib data ctx =
     (if handshakeDone ctx then (ctx, [], True)
      else
        let (ssl', ret, written) = ssl_do_handshake lib (bio_write lib (ssl ctx) data);
            done' = (ret = 1);
            chunks = drain (writeBIO ctx @ written)
        in (ctx\<lparr>ssl := ssl', writeBIO := [], handshakeDone := done'\<rparr>,
            (case dtls_sendCb ctx of None \<Rightarrow> [] | Some ep \<Rightarrow> map (\<lambda>c. (ep, c)) chunks),
            done'))"

text \<open>\<open>exportSrtpKeys\<close>: a status of 0 is the empty string, every other status is the array.\<close>

definition exportSrtpKeys :: "'d dtls_lib \<Rightarrow> 'd dtls_ctx \<Rightarrow> u8 list" where
  "exportSrtpKeys lib ctx =
     (let (ret, material) = ssl_export_keying_material lib (ssl ctx)
      in if ret = 0 then [] else material)"

section \<open>Lemmas\<close>

lemma drain_concat: "concat (drain bio) = bio"
  by (induction bio rule: drain.induct) (subst drain.simps, simp)

lemma drain_chunks: "c \<in> set (drain bio) \<Longrightarrow> c \<noteq> [] \<and> length c \<le> 4096"
proof (induction bio rule: drain.induct)
  case (1 bio)
  then show ?case by (subst (asm) drain.simps) (auto split: if_splits)
qed

lemma handlePacket_done: "handshakeDone ctx \<Longrightarrow> handlePacket lib data ctx = (ctx, [], True)"
  by (simp add: handlePacket_def)

lemma handlePacket_result: "handlePacket lib data ctx = (ctx', sent, r) \<Longrightarrow> handshakeDone ctx' = r"
  by (auto simp: handlePacket_def Let_def split: if_splits prod.splits)

lemma handlePacket_monotone:
  "handlePacket lib data ctx = (ctx', sent, r) \<Longrightarrow> handshakeDone ctx \<Longrightarrow> handshakeDone ctx'"
  by (simp add: handlePacket_def)

lemma handlePacket_dest:
  "handlePacket lib data ctx = (ctx', sent, r) \<Longrightarrow> (ep, c) \<in> set sent \<Longrightarrow>
     dtls_sendCb ctx = Some ep \<and> c \<noteq> [] \<and> length c \<le> 4096"
  by (auto simp: handlePacket_def Let_def split: if_splits prod.splits option.splits
      dest: drain_chunks)

text \<open>The fingerprint text determines the digest.\<close>

lemma hex_digit_inject: "m < 16 \<Longrightarrow> n < 16 \<Longrightarrow> hex_digit m = hex_digit n \<longleftrightarrow> m = n"
proof -
  assume "m < 16" "n < 16"
  moreover have "distinct ''0123456789ABCDEF''" by simp
  ultimately show ?thesis
    unfolding hex_digit_def by (subst nth_eq_iff_index_eq) simp_all
qed

lemma hex2_inject: "hex2 a = hex2 b \<longleftrightarrow> a = b"
proof
  assume "hex2 a = hex2 b"
  then have "unat a div 16 = unat b div 16" "unat a mod 16 = unat b mod 16"
    using unat_u8_less [of a] unat_u8_less [of b] by (auto simp: hex2_def hex_digit_inject)
  then have "unat a = unat b" by (metis div_mult_mod_eq)
  then show "a = b" by (simp add: word_unat_eq_iff)
qed simp

lemma length_hex2 [simp]: "length (hex2 b) = 2"
  by (simp add: hex2_def)

lemma length_fingerprint_loop:
  "length (fingerprint_loop i md) = (if i = 0 then 3 * length md - 1 else 3 * length md)"
  by (induction md arbitrary: i) auto

lemma fingerprint_loop_inject:
  "fingerprint_loop i xs = fingerprint_loop i ys \<Longrightarrow> length xs = length ys \<Longrightarrow> xs = ys"
proof (induction xs arbitrary: i ys)
  case (Cons x xs)
  then obtain y ys' where "ys = y # ys'" by (cases ys) auto
  with Cons show ?case by (auto simp: hex2_inject split: if_splits)
qed simp

lemma cert_fingerprint_inject:
  assumes "cert_fingerprint xs = cert_fingerprint ys"
  shows "xs = ys"
proof -
  have "length (cert_fingerprint xs) = length (cert_fingerprint ys)" using assms by simp
  then have "length xs = length ys"
    by (cases xs; cases ys) (auto simp: cert_fingerprint_def length_fingerprint_loop)
  then show ?thesis
    using assms fingerprint_loop_inject by (simp add: cert_fingerprint_def)
qed

section \<open>Properties\<close>

text \<open>
  C30. While the handshake runs, \<open>handlePacket\<close> sends everything OpenSSL has written, in
  order, cut into datagrams of 1 to 4096 bytes, all to the endpoint captured by the send
  callback, and leaves nothing behind in the write BIO.
\<close>

theorem dtls_sends_all_output:
  assumes "\<not> handshakeDone ctx" "dtls_sendCb ctx = Some ep"
    and "ssl_do_handshake lib (bio_write lib (ssl ctx) data) = (ssl', ret, written)"
    and "handlePacket lib data ctx = (ctx', out, r)"
  shows "concat (map snd out) = writeBIO ctx @ written \<and>
    (\<forall>(dest, chunk) \<in> set out. dest = ep \<and> 0 < length chunk \<and> length chunk \<le> 4096) \<and>
    writeBIO ctx' = [] \<and> handshakeDone ctx' = r \<and> (r \<longleftrightarrow> ret = 1)"
proof -
  let ?cs = "drain (writeBIO ctx @ written)"
  have "[] \<notin> set ?cs" "\<forall>c \<in> set ?cs. length c \<le> 4096" using drain_chunks by blast+
  then show ?thesis
    using assms drain_concat [of "writeBIO ctx @ written"]
    by (auto simp: handlePacket_def Let_def comp_def)
qed

text \<open>A library instance that answers every packet with 5000 bytes and is then done.\<close>

definition one_shot_lib :: "unit dtls_lib" where
  "one_shot_lib = \<lparr>ssl_new = (), bio_write = (\<lambda>s d. ()),
     ssl_do_handshake = (\<lambda>s. ((), 1, replicate 5000 22)),
     ssl_export_keying_material = (\<lambda>s. (1, replicate 60 0))\<rparr>"

theorem dtls_sends_all_output_witness:
  "concat (map snd (fst (snd (handlePacket one_shot_lib [22]
     (dtls_setSendCallback \<lparr>ep_addr = 1, ep_port = 2\<rparr> (dtls_new one_shot_lib)))))) = replicate 5000 22"
proof -
  let ?ctx = "dtls_setSendCallback \<lparr>ep_addr = 1, ep_port = 2\<rparr> (dtls_new one_shot_lib)"
  obtain ctx' out r where hp: "handlePacket one_shot_lib [22] ?ctx = (ctx', out, r)"
    by (cases "handlePacket one_shot_lib [22] ?ctx")
  have "\<not> handshakeDone ?ctx" "dtls_sendCb ?ctx = Some \<lparr>ep_addr = 1, ep_port = 2\<rparr>"
    "ssl_do_handshake one_shot_lib (bio_write one_shot_lib (ssl ?ctx) [22]) = ((), 1, replicate 5000 22)"
    "writeBIO ?ctx = []"
    by (simp_all add: dtls_setSendCallback_def dtls_new_def one_shot_lib_def)
  from dtls_sends_all_output [OF this(1-3) hp] this(4) show ?thesis by (simp add: hp)
qed

text \<open>
  Different digests have different fingerprints in the SDP answer, and the fingerprint
  of a digest of \<open>n\<close> bytes has \<open>3 n - 1\<close> characters.
\<close>

lemma fingerprint_faithful:
  "(cert_fingerprint xs = cert_fingerprint ys \<longleftrightarrow> xs = ys) \<and>
   length (cert_fingerprint xs) = 3 * length xs - 1"
  using cert_fingerprint_inject by (auto simp: cert_fingerprint_def length_fingerprint_loop)

end
