(* ===== verification/Routes.thy ===== *)
theory Routes
  imports Prelude "HOL-Library.AList"
begin

text \<open>
  \<open>sfu/RouteTable.h\<close> and \<open>sfu/RouteTable.cpp\<close>: the table from SSRC to peer. The hash map
  is the list of its entries in iteration order. The locale \<open>ssrc_table\<close> is what the
  router relies on: the table behaves as a map from SSRC to peer.
\<close>

section \<open>The table\<close>

type_synonym route_table = "(u32 \<times> nat) list"

text \<open>\<open>nullptr\<close> is \<^const>\<open>None\<close>.\<close>

definition route_lookup :: "u32 \<Rightarrow> route_table \<Rightarrow> nat option" where
  "route_lookup ssrc t = map_of t ssrc"

definition route_bind :: "u32 \<Rightarrow> nat \<Rightarrow> route_table \<Rightarrow> route_table" where
  "route_bind ssrc peer t = AList.update ssrc peer t"

text \<open>The loop over the entries that erases those of one peer.\<close>

fun route_unbindPeer :: "nat \<Rightarrow> route_table \<Rightarrow> route_table" where
  "route_unbindPeer peer [] = []"
| "route_unbindPeer peer (e # t) =
     (if snd e = peer then route_unbindPeer peer t else e # route_unbindPeer peer t)"

section \<open>The contract\<close>

locale ssrc_table =
  fixes lookup :: "u32 \<Rightarrow> 't \<Rightarrow> 'p option"
    and bind :: "u32 \<Rightarrow> 'p \<Rightarrow> 't \<Rightarrow> 't"
    and unbind :: "'p \<Rightarrow> 't \<Rightarrow> 't"
    and invar :: "'t \<Rightarrow> bool"
  assumes lookup_bind: "invar t \<Longrightarrow> lookup k (bind k' p t) = (if k = k' then Some p else lookup k t)"
    and lookup_unbind: "invar t \<Longrightarrow>
      lookup k (unbind p t) = (if lookup k t = Some p then None else lookup k t)"
    and invar_bind: "invar t \<Longrightarrow> invar (bind k p t)"
    and invar_unbind: "invar t \<Longrightarrow> invar (unbind p t)"
begin

definition owned :: "'p \<Rightarrow> 't \<Rightarrow> u32 set" where
  "owned p t = {k. lookup k t = Some p}"

lemma owned_bind: "invar t \<Longrightarrow> owned p (bind k p t) = insert k (owned p t)"
  by (auto simp: owned_def lookup_bind)

lemma owned_bind_other: "invar t \<Longrightarrow> q \<noteq> p \<Longrightarrow> owned q (bind k p t) = owned q t - {k}"
  by (auto simp: owned_def lookup_bind)

lemma owned_unbind: "invar t \<Longrightarrow> owned p (unbind p t) = {}"
  by (auto simp: owned_def lookup_unbind)

lemma owned_unbind_other: "invar t \<Longrightarrow> q \<noteq> p \<Longrightarrow> owned q (unbind p t) = owned q t"
  by (auto simp: owned_def lookup_unbind)

lemma owned_disjoint: "p \<noteq> q \<Longrightarrow> owned p t \<inter> owned q t = {}"
  by (auto simp: owned_def)

lemma unbind_idem: "invar t \<Longrightarrow> lookup k (unbind p (unbind p t)) = lookup k (unbind p t)"
  by (simp add: lookup_unbind invar_unbind)

end

definition route_invar :: "route_table \<Rightarrow> bool" where
  "route_invar t \<longleftrightarrow> distinct (map fst t)"

lemma unbindPeer_filter: "route_unbindPeer p t = filter (\<lambda>e. snd e \<noteq> p) t"
  by (induction t) auto

lemma map_of_filter_value:
  "distinct (map fst t) \<Longrightarrow>
     map_of (filter (\<lambda>e. snd e \<noteq> p) t) k = (if map_of t k = Some p then None else map_of t k)"
proof (induction t)
  case (Cons e t)
  obtain k' q where e: "e = (k', q)" by (cases e)
  show ?case
  proof (cases "k = k'")
    case True
    then have "map_of (filter (\<lambda>e. snd e \<noteq> p) t) k = None"
      using Cons.prems e by (auto simp: map_of_eq_None_iff)
    with True e show ?thesis by simp
  next
    case False
    with Cons e show ?thesis by simp
  qed
qed simp

interpretation rt: ssrc_table route_lookup route_bind route_unbindPeer route_invar
  by unfold_locales
    (auto simp: route_lookup_def route_bind_def route_invar_def unbindPeer_filter
      map_of_filter_value update_conv' distinct_update distinct_map_filter)

section \<open>Properties\<close>

text \<open>
  The route table is a map: after \<open>bind\<close> the SSRC belongs to the peer bound last and
  every other SSRC to whom it did before; after \<open>unbindPeer\<close> no SSRC leads to the peer and
  the SSRCs of all other peers are untouched.
\<close>

lemma route_table_is_map:
  assumes "route_invar t"
  shows "route_lookup k (route_bind k' p t) = (if k = k' then Some p else route_lookup k t) \<and>
    route_lookup k (route_unbindPeer p t) =
      (if route_lookup k t = Some p then None else route_lookup k t) \<and>
    route_invar (route_bind k' p t) \<and> route_invar (route_unbindPeer p t)"
  using rt.lookup_bind [OF assms] rt.lookup_unbind [OF assms] rt.invar_bind [OF assms]
    rt.invar_unbind [OF assms] by simp

end
