(* ===== verification/Sfu.thy ===== *)
theory Sfu
  imports Rtp Rtcp Srtp Dtls Routes
begin

text \<open>
  The objects of the SFU and the state they live in: \<open>sfu/Peer.h\<close>, \<open>sfu/Producer.h\<close>,
  \<open>sfu/Consumer.h\<close> and the members of \<open>Router\<close> (\<open>sfu/Router.h\<close>).

  Peers, producers and consumers refer to each other by raw pointers, so they are kept
  in three heaps and a pointer is an address, a natural number; a null pointer is
  \<^const>\<open>None\<close> where the code tests for it. An address outside the domain of its heap is
  that of an object that does not exist any more. \<open>unique_ptr\<close> vectors are lists of
  addresses of the objects they own. The datagrams handed to \<open>UdpServer::sendTo\<close> are
  recorded in \<open>sent\<close>, in order.
\<close>

record ('s, 'd) peer =
  peerId :: string
  remoteEp :: endpoint
  dtls :: "'d dtls_ctx option"
  srtp :: "'s srtp_ctx option"
  producers :: "nat list"
  consumers :: "nat list"

record producer =
  p_publisher :: nat
  p_originalSsrc :: u32
  p_isVideo :: bool
  p_consumers :: "nat list"

text \<open>The two offsets are \<open>int32_t\<close>.\<close>

record consumer =
  c_consumerId :: string
  c_subscriber :: "nat option"
  c_publisher :: "nat option"
  c_isVideo :: bool
  c_rewrittenSsrc :: u32
  c_publisherSsrc :: u32
  c_recvMid :: string
  c_seqInitialized :: bool
  c_lastSentSeq :: u16
  c_lastSentTimestamp :: u32
  c_seqDelta :: int
  c_tsDelta :: int
  c_packetsSent :: u32
  c_octetsSent :: u32
  c_lastSrNtpTs :: u32
  c_lastSrRtpTs :: u32
  c_active :: bool

text \<open>
  The default member initialisers. A default-constructed Asio endpoint is 0.0.0.0:0.
\<close>

definition new_peer :: "('s, 'd) peer" where
  "new_peer = \<lparr>peerId = '''', remoteEp = \<lparr>ep_addr = 0, ep_port = 0\<rparr>, dtls = None, srtp = None,
     producers = [], consumers = []\<rparr>"

definition new_producer :: "nat \<Rightarrow> u32 \<Rightarrow> bool \<Rightarrow> producer" where
  "new_producer publisher originalSsrc isVideo =
     \<lparr>p_publisher = publisher, p_originalSsrc = originalSsrc, p_isVideo = isVideo,
      p_consumers = []\<rparr>"

definition new_consumer :: "nat \<Rightarrow> nat \<Rightarrow> bool \<Rightarrow> u32 \<Rightarrow> consumer" where
  "new_consumer subscriber publisher isVideo rewrittenSsrc =
     \<lparr>c_consumerId = '''', c_subscriber = Some subscriber, c_publisher = Some publisher,
      c_isVideo = isVideo, c_rewrittenSsrc = rewrittenSsrc, c_publisherSsrc = 0,
      c_recvMid = '''', c_seqInitialized = False, c_lastSentSeq = 0, c_lastSentTimestamp = 0,
      c_seqDelta = 0, c_tsDelta = 0, c_packetsSent = 0, c_octetsSent = 0,
      c_lastSrNtpTs = 0, c_lastSrRtpTs = 0, c_active = True\<rparr>"

text \<open>
  The router with its heaps. \<open>ssrcGen\<close> is the sequence of values the Mersenne twister
  will produce and \<open>ssrcPos\<close> how many have been taken; \<open>nextAddr\<close> is an address no
  object has had yet.
\<close>

record ('s, 'd) sfu =
  peers :: "nat \<rightharpoonup> ('s, 'd) peer"
  prods :: "nat \<rightharpoonup> producer"
  conss :: "nat \<rightharpoonup> consumer"
  nextAddr :: nat
  allPeers :: "nat list"
  outSsrcToConsumer :: "u32 \<rightharpoonup> nat"
  routes :: route_table
  ssrcGen :: "nat \<Rightarrow> u32"
  ssrcPos :: nat
  sent :: "datagram list"

definition sfu_init :: "(nat \<Rightarrow> u32) \<Rightarrow> ('s, 'd) sfu" where
  "sfu_init gen = \<lparr>peers = Map.empty, prods = Map.empty, conss = Map.empty, nextAddr = 0,
     allPeers = [], outSsrcToConsumer = Map.empty, routes = [], ssrcGen = gen, ssrcPos = 0,
     sent = []\<rparr>"

text \<open>\<open>std::make_shared<Peer>()\<close> whose members the caller has set to \<open>p\<close>.\<close>

definition alloc_peer :: "('s, 'd) peer \<Rightarrow> ('s, 'd, 'z) sfu_scheme \<Rightarrow> ('s, 'd, 'z) sfu_scheme" where
  "alloc_peer p s = s\<lparr>peers := (peers s)(nextAddr s \<mapsto> p), nextAddr := Suc (nextAddr s)\<rparr>"

end
