(* ===== verification/Router.thy ===== *)
theory Router
  imports Sfu
begin

text \<open>
  \<open>sfu/Router.cpp\<close>: every operation of the router, in the order of the file. Each runs
  under the router's lock in the code and is one step here; \<open>onRtpPacket\<close> and \<open>addConsumer\<close> go on
  after they have released the lock, so they are given as two steps and their composition:
  \<open>rtp_targets\<close> and \<open>rtp_forward\<close>, \<open>insert_consumer\<close> and the read of the SSRC.
\<close>

section \<open>Outgoing SSRCs\<close>

text \<open>
  \<open>std::uniform_int_distribution\<close> on \<open>[a, b]\<close>, for a generator value \<open>g\<close>: some value of
  the range, and each one for some \<open>g\<close>.
\<close>

definition uniform_u32 :: "u32 \<Rightarrow> u32 \<Rightarrow> u32 \<Rightarrow> u32" where
  "uniform_u32 a b g = a + g mod (b - a + 1)"

text \<open>\<open>allocateSsrc\<close>: the loop draws until the value is not 0; \<^const>\<open>None\<close> would be an endless loop.\<close>

partial_function (option) allocateSsrc :: "(nat \<Rightarrow> u32) \<Rightarrow> nat \<Rightarrow> (u32 \<times> nat) option" where
  "allocateSsrc gen pos =
     (let ssrc = uniform_u32 0x40000000 0x7FFFFFFF (gen pos)
      in if ssrc = 0 then allocateSsrc gen (Suc pos) else Some (ssrc, Suc pos))"

declare allocateSsrc.simps [code]

section \<open>Peers and consumers\<close>

definition addForwarding :: "nat \<Rightarrow> nat \<Rightarrow> ('s, 'd, 'z) sfu_scheme \<Rightarrow> ('s, 'd, 'z) sfu_scheme" where
  "addForwarding fromPeer toPeer s = s"

definition findPeerBySsrc :: "u32 \<Rightarrow> ('s, 'd, 'z) sfu_scheme \<Rightarrow> nat option" where
  "findPeerBySsrc ssrc s = route_lookup ssrc (routes s)"

definition registerPeer :: "nat \<Rightarrow> ('s, 'd, 'z) sfu_scheme \<Rightarrow> ('s, 'd, 'z) sfu_scheme" where
  "registerPeer p s = (if p \<in> set (allPeers s) then s else s\<lparr>allPeers := allPeers s @ [p]\<rparr>)"

text \<open>\<open>c->publisherSsrc = ssrc; p->consumers.push_back(c)\<close>, for the producer at \<open>r\<close>.\<close>

definition link_consumer ::
  "nat \<Rightarrow> u32 \<Rightarrow> nat \<Rightarrow> ('s, 'd, 'z) sfu_scheme \<Rightarrow> ('s, 'd, 'z) sfu_scheme" where
  "link_consumer r ssrc c s =
     s\<lparr>conss := modify c (\<lambda>x. x\<lparr>c_publisherSsrc := ssrc\<rparr>) (conss s),
       prods := modify r (\<lambda>p. p\<lparr>p_consumers := p_consumers p @ [c]\<rparr>) (prods s)\<rparr>"

text \<open>
  \<open>addConsumer\<close> up to the end of the locked block, with the raw pointer it goes on with; then the
  SSRC is read through that pointer.
\<close>

definition insert_consumer ::
  "nat \<Rightarrow> nat \<Rightarrow> bool \<Rightarrow> ('s, 'd, 'z) sfu_scheme \<Rightarrow> (nat \<times> ('s, 'd, 'z) sfu_scheme) option" where
  "insert_consumer subscriber publisher isVideo s = do {
     (ssrc, pos) \<leftarrow> allocateSsrc (ssrcGen s) (ssrcPos s);
     let c = nextAddr s;
     let s1 = s\<lparr>ssrcPos := pos, nextAddr := Suc c,
                conss := (conss s)(c \<mapsto> new_consumer subscriber publisher isVideo ssrc)\<rparr>;
     let s2 = registerPeer publisher (registerPeer subscriber s1);
     let s3 = s2\<lparr>outSsrcToConsumer := (outSsrcToConsumer s2)(ssrc \<mapsto> c)\<rparr>;
     pub \<leftarrow> peers s3 publisher;
     found \<leftarrow> findM (\<lambda>r. do {
         p \<leftarrow> prods s3 r;
         Some (p_isVideo p = isVideo \<and> p_originalSsrc p \<noteq> 0)
       }) (producers pub);
     s4 \<leftarrow> (case found of None \<Rightarrow> Some s3
            | Some r \<Rightarrow> do {
                p \<leftarrow> prods s3 r;
                Some (link_consumer r (p_originalSsrc p) c s3)
              });
     sub \<leftarrow> peers s4 subscriber;
     Some (c, s4\<lparr>peers := modify subscriber (\<lambda>p. p\<lparr>consumers := consumers p @ [c]\<rparr>) (peers s4)\<rparr>)
   }"

definition addConsumer ::
  "nat \<Rightarrow> nat \<Rightarrow> bool \<Rightarrow> ('s, 'd, 'z) sfu_scheme \<Rightarrow> (u32 \<times> ('s, 'd, 'z) sfu_scheme) option" where
  "addConsumer subscriber publisher isVideo s = do {
     (raw, s1) \<leftarrow> insert_consumer subscriber publisher isVideo s;
     c \<leftarrow> conss s1 raw;
     Some (c_rewrittenSsrc c, s1)
   }"

section \<open>Removing a peer\<close>

text \<open>Step 1, for one consumer of a producer of the peer that leaves.\<close>

definition detach_subscription ::
  "nat \<Rightarrow> ('s, 'd, 'z) sfu_scheme \<Rightarrow> ('s, 'd, 'z) sfu_scheme option" where
  "detach_subscription c s = do {
     cc \<leftarrow> conss s c;
     Some (s\<lparr>conss := modify c (\<lambda>x. x\<lparr>c_publisher := None, c_active := False\<rparr>) (conss s),
             outSsrcToConsumer := (outSsrcToConsumer s)(c_rewrittenSsrc cc := None)\<rparr>)
   }"

definition detach_producer ::
  "nat \<Rightarrow> ('s, 'd, 'z) sfu_scheme \<Rightarrow> ('s, 'd, 'z) sfu_scheme option" where
  "detach_producer r s = do {
     p \<leftarrow> prods s r;
     foldM detach_subscription (p_consumers p) s
   }"

text \<open>Step 2, for one consumer of the peer that leaves.\<close>

definition detach_consumer ::
  "nat \<Rightarrow> ('s, 'd, 'z) sfu_scheme \<Rightarrow> ('s, 'd, 'z) sfu_scheme option" where
  "detach_consumer c s = do {
     cc \<leftarrow> conss s c;
     s1 \<leftarrow> (case c_publisher cc of None \<Rightarrow> Some s
            | Some q \<Rightarrow> do {
                pub \<leftarrow> peers s q;
                found \<leftarrow> findM (\<lambda>r. do {
                    p \<leftarrow> prods s r;
                    Some (p_originalSsrc p = c_publisherSsrc cc \<and> p_originalSsrc p \<noteq> 0)
                  }) (producers pub);
                case found of None \<Rightarrow> Some s
                | Some r \<Rightarrow>
                    Some (s\<lparr>prods := modify r (\<lambda>p. p\<lparr>p_consumers := removeAll c (p_consumers p)\<rparr>)
                                       (prods s)\<rparr>)
              });
     Some (s1\<lparr>outSsrcToConsumer := (outSsrcToConsumer s1)(c_rewrittenSsrc cc := None)\<rparr>)
   }"

definition removePeer ::
  "nat \<Rightarrow> ('s, 'd, 'z) sfu_scheme \<Rightarrow> ('s, 'd, 'z) sfu_scheme option" where
  "removePeer peer s = do {
     p \<leftarrow> peers s peer;
     s1 \<leftarrow> foldM detach_producer (producers p) s;
     let s2 = s1\<lparr>prods := free (producers p) (prods s1),
                 peers := modify peer (\<lambda>p. p\<lparr>producers := []\<rparr>) (peers s1)\<rparr>;
     s3 \<leftarrow> foldM detach_consumer (consumers p) s2;
     let s4 = s3\<lparr>conss := free (consumers p) (conss s3),
                 peers := modify peer (\<lambda>p. p\<lparr>consumers := []\<rparr>) (peers s3)\<rparr>;
     Some (s4\<lparr>allPeers := removeAll peer (allPeers s4),
              routes := route_unbindPeer peer (routes s4)\<rparr>)
   }"

section \<open>Producers\<close>

definition findProducer ::
  "nat \<Rightarrow> u32 \<Rightarrow> ('s, 'd, 'z) sfu_scheme \<Rightarrow> nat option option" where
  "findProducer fromPeer ssrc s = do {
     p \<leftarrow> peers s fromPeer;
     findM (\<lambda>r. do { pr \<leftarrow> prods s r; Some (p_originalSsrc pr = ssrc) }) (producers p)
   }"

text \<open>
  The sequence \<open>if (peer->srtp->protectRtcp(out, &outLen)) _udp->sendTo(out, outLen, ep)\<close>
  for the packet \<open>pkt\<close> in a buffer of \<open>cap\<close> bytes, together with the test of \<open>srtp\<close> that
  precedes it at every place. The result says whether the datagram was sent.
\<close>

definition sendProtectedRtcp ::
  "'s srtp_lib \<Rightarrow> nat \<Rightarrow> u8 list \<Rightarrow> nat \<Rightarrow> ('s, 'd, 'z) sfu_scheme
   \<Rightarrow> (bool \<times> ('s, 'd, 'z) sfu_scheme) option" where
  "sendProtectedRtcp lib cap pkt p s = do {
     peer \<leftarrow> peers s p;
     case srtp peer of None \<Rightarrow> Some (False, s)
     | Some ctx \<Rightarrow> do {
         (ctx', r) \<leftarrow> protectRtcp lib cap pkt ctx;
         let s1 = s\<lparr>peers := modify p (\<lambda>x. x\<lparr>srtp := Some ctx'\<rparr>) (peers s)\<rparr>;
         case r of None \<Rightarrow> Some (False, s1)
         | Some out \<Rightarrow> Some (True, s1\<lparr>sent := sent s1 @ [(remoteEp peer, out)]\<rparr>)
       }
   }"

text \<open>The body of the loop that attaches the waiting consumers to the new producer \<open>r\<close>.\<close>

definition link_if_waiting ::
  "nat \<Rightarrow> bool \<Rightarrow> u32 \<Rightarrow> nat \<Rightarrow> nat \<Rightarrow> ('s, 'd, 'z) sfu_scheme \<Rightarrow> ('s, 'd, 'z) sfu_scheme option" where
  "link_if_waiting fromPeer isVideo ssrc r c s = do {
     cc \<leftarrow> conss s c;
     if c_publisher cc = Some fromPeer \<and> c_isVideo cc = isVideo \<and> c_publisherSsrc cc = 0
     then do { p \<leftarrow> prods s r; Some (link_consumer r ssrc c s) }
     else Some s
   }"

definition link_waiting ::
  "nat \<Rightarrow> bool \<Rightarrow> u32 \<Rightarrow> nat \<Rightarrow> ('s, 'd, 'z) sfu_scheme \<Rightarrow> ('s, 'd, 'z) sfu_scheme option" where
  "link_waiting fromPeer isVideo ssrc r s =
     foldM (\<lambda>sub s. do {
         p \<leftarrow> peers s sub;
         foldM (link_if_waiting fromPeer isVideo ssrc r) (consumers p) s
       }) (allPeers s) s"

definition findOrCreateProducer ::
  "'s srtp_lib \<Rightarrow> nat \<Rightarrow> u32 \<Rightarrow> bool \<Rightarrow> ('s, 'd, 'z) sfu_scheme
   \<Rightarrow> (nat \<times> ('s, 'd, 'z) sfu_scheme) option" where
  "findOrCreateProducer lib fromPeer ssrc isVideo s = do {
     found \<leftarrow> findProducer fromPeer ssrc s;
     case found of Some r \<Rightarrow> Some (r, s)
     | None \<Rightarrow> do {
         let r = nextAddr s;
         let s1 = s\<lparr>nextAddr := Suc r, prods := (prods s)(r \<mapsto> new_producer fromPeer ssrc isVideo),
                    peers := modify fromPeer (\<lambda>p. p\<lparr>producers := producers p @ [r]\<rparr>) (peers s),
                    routes := route_bind ssrc fromPeer (routes s)\<rparr>;
         s2 \<leftarrow> (if isVideo
                then do { (b, s') \<leftarrow> sendProtectedRtcp lib 64 (pli_bytes 0 ssrc) fromPeer s1; Some s' }
                else Some s1);
         s3 \<leftarrow> link_waiting fromPeer isVideo ssrc r s2;
         Some (r, s3)
       }
   }"

section \<open>RTP\<close>

text \<open>Subtraction of \<open>int32_t\<close> values; a result that does not fit is undefined.\<close>

definition int32_sub :: "int \<Rightarrow> int \<Rightarrow> int option" where
  "int32_sub a b = (if - (2 ^ 31) \<le> a - b \<and> a - b < 2 ^ 31 then Some (a - b) else None)"

definition rewriteRtpHeader :: "u8 list \<Rightarrow> consumer \<Rightarrow> (u8 list \<times> consumer) option" where
  "rewriteRtpHeader buf c =
     (case rtp_parse buf of None \<Rightarrow> Some (buf, c)
      | Some hdr0 \<Rightarrow>
          let hdr = hdr0\<lparr>h_ssrc := c_rewrittenSsrc c\<rparr> in
          if \<not> c_seqInitialized c then
            Some (writeFixedHeader buf hdr,
                  c\<lparr>c_lastSentSeq := h_sequenceNumber hdr, c_lastSentTimestamp := h_timestamp hdr,
                    c_seqDelta := 0, c_tsDelta := 0, c_seqInitialized := True\<rparr>)
          else do {
            let origSeqDelta = h_sequenceNumber hdr - c_lastSentSeq c;
            let origTsDelta = h_timestamp hdr - c_lastSentTimestamp c;
            let newSentSeq = c_lastSentSeq c + origSeqDelta;
            let newSentTs = c_lastSentTimestamp c + origTsDelta;
            seqDelta \<leftarrow> int32_sub (uint newSentSeq) (uint (h_sequenceNumber hdr));
            tsDelta \<leftarrow> int32_sub (sint newSentTs) (sint (h_timestamp hdr));
            Some (writeFixedHeader buf (hdr\<lparr>h_sequenceNumber := newSentSeq, h_timestamp := newSentTs\<rparr>),
                  c\<lparr>c_seqDelta := seqDelta, c_tsDelta := tsDelta,
                    c_lastSentSeq := newSentSeq, c_lastSentTimestamp := newSentTs\<rparr>)
          })"

text \<open>
  The part of \<open>onRtpPacket\<close> under the lock: find or create the producer and copy its
  consumer list. \<open>videoPTs\<close> is the static \<open>SdpParser::videoPTs\<close>.
\<close>

definition rtp_targets ::
  "'s srtp_lib \<Rightarrow> u8 set \<Rightarrow> u8 list \<Rightarrow> nat \<Rightarrow> ('s, 'd, 'z) sfu_scheme
   \<Rightarrow> (nat list \<times> ('s, 'd, 'z) sfu_scheme) option" where
  "rtp_targets lib videoPTs plainRtp fromPeer s =
     (case rtp_parse plainRtp of None \<Rightarrow> Some ([], s)
      | Some hdr \<Rightarrow> do {
          let isVideo = (h_payloadType hdr \<in> videoPTs);
          fast \<leftarrow> findProducer fromPeer (h_ssrc hdr) s;
          case fast of Some r \<Rightarrow> do { p \<leftarrow> prods s r; Some (p_consumers p, s) }
          | None \<Rightarrow> do {
              again \<leftarrow> findProducer fromPeer (h_ssrc hdr) s;
              (r, s1) \<leftarrow> (case again of Some r \<Rightarrow> Some (r, s)
                          | None \<Rightarrow> findOrCreateProducer lib fromPeer (h_ssrc hdr) isVideo s);
              p \<leftarrow> prods s1 r;
              Some (p_consumers p, s1)
            }
        })"

text \<open>One target: the packet is copied into an array of 65536 bytes, rewritten, protected, sent.\<close>

definition rtp_forward_one ::
  "'s srtp_lib \<Rightarrow> u8 list \<Rightarrow> nat \<Rightarrow> ('s, 'd, 'z) sfu_scheme \<Rightarrow> ('s, 'd, 'z) sfu_scheme option" where
  "rtp_forward_one lib plainRtp c s = do {
     cc \<leftarrow> conss s c;
     if \<not> c_active cc then Some s
     else case c_subscriber cc of None \<Rightarrow> Some s
     | Some sub \<Rightarrow> do {
         peer \<leftarrow> peers s sub;
         case srtp peer of None \<Rightarrow> Some s
         | Some ctx \<Rightarrow>
             if c_recvMid cc = '''' then Some s
             else if 65536 < length plainRtp then None
             else do {
               (out, cc') \<leftarrow> rewriteRtpHeader plainRtp cc;
               (ctx', r) \<leftarrow> protect lib 65536 out ctx;
               let s1 = s\<lparr>conss := (conss s)(c \<mapsto> cc'),
                          peers := modify sub (\<lambda>x. x\<lparr>srtp := Some ctx'\<rparr>) (peers s)\<rparr>;
               case r of None \<Rightarrow> Some s1
               | Some enc \<Rightarrow>
                   Some (s1\<lparr>sent := sent s1 @ [(remoteEp peer, enc)],
                            conss := modify c (\<lambda>x. x\<lparr>c_packetsSent := c_packetsSent x + 1,
                              c_octetsSent := c_octetsSent x + of_nat (length plainRtp)\<rparr>) (conss s1)\<rparr>)
             }
       }
   }"

definition rtp_forward ::
  "'s srtp_lib \<Rightarrow> u8 list \<Rightarrow> nat list \<Rightarrow> ('s, 'd, 'z) sfu_scheme \<Rightarrow> ('s, 'd, 'z) sfu_scheme option" where
  "rtp_forward lib plainRtp targets s = foldM (rtp_forward_one lib plainRtp) targets s"

definition onRtpPacket ::
  "'s srtp_lib \<Rightarrow> u8 set \<Rightarrow> u8 list \<Rightarrow> nat \<Rightarrow> ('s, 'd, 'z) sfu_scheme
   \<Rightarrow> ('s, 'd, 'z) sfu_scheme option" where
  "onRtpPacket lib videoPTs plainRtp fromPeer s = do {
     (targets, s1) \<leftarrow> rtp_targets lib videoPTs plainRtp fromPeer s;
     rtp_forward lib plainRtp targets s1
   }"

section \<open>Operations for SendOffer and for new peers\<close>

definition bindConsumerByMid ::
  "nat \<Rightarrow> string \<Rightarrow> bool \<Rightarrow> string \<Rightarrow> ('s, 'd, 'z) sfu_scheme
   \<Rightarrow> (u32 \<times> ('s, 'd, 'z) sfu_scheme) option" where
  "bindConsumerByMid subscriber publisherPeerId isVideo recvMid s = do {
     sub \<leftarrow> peers s subscriber;
     found \<leftarrow> findM (\<lambda>c. do {
         cc \<leftarrow> conss s c;
         if c_isVideo cc = isVideo
         then (case c_publisher cc of None \<Rightarrow> Some False
               | Some q \<Rightarrow> do { pub \<leftarrow> peers s q; Some (peerId pub = publisherPeerId) })
         else Some False
       }) (consumers sub);
     case found of None \<Rightarrow> Some (0, s)
     | Some c \<Rightarrow> do {
         cc \<leftarrow> conss s c;
         Some (c_rewrittenSsrc cc,
               s\<lparr>conss := modify c (\<lambda>x. x\<lparr>c_recvMid := recvMid\<rparr>) (conss s)\<rparr>)
       }
   }"

definition findRewrittenSsrc :: "nat \<Rightarrow> string \<Rightarrow> ('s, 'd, 'z) sfu_scheme \<Rightarrow> u32 option" where
  "findRewrittenSsrc subscriber recvMid s = do {
     sub \<leftarrow> peers s subscriber;
     found \<leftarrow> findM (\<lambda>c. do { cc \<leftarrow> conss s c; Some (c_recvMid cc = recvMid) }) (consumers sub);
     case found of None \<Rightarrow> Some 0
     | Some c \<Rightarrow> do { cc \<leftarrow> conss s c; Some (c_rewrittenSsrc cc) }
   }"

definition getAllBoundSsrcs :: "nat \<Rightarrow> ('s, 'd, 'z) sfu_scheme \<Rightarrow> (string \<rightharpoonup> u32) option" where
  "getAllBoundSsrcs subscriber s = do {
     sub \<leftarrow> peers s subscriber;
     foldM (\<lambda>c result. do {
         cc \<leftarrow> conss s c;
         if c_recvMid cc \<noteq> '''' then Some (result(c_recvMid cc \<mapsto> c_rewrittenSsrc cc))
         else Some result
       }) (consumers sub) Map.empty
   }"

definition getAllVideoProducers :: "('s, 'd, 'z) sfu_scheme \<Rightarrow> nat list option" where
  "getAllVideoProducers s =
     foldM (\<lambda>p out. do {
         peer \<leftarrow> peers s p;
         foldM (\<lambda>r out. do {
             pr \<leftarrow> prods s r;
             Some (if p_isVideo pr then out @ [r] else out)
           }) (producers peer) out
       }) (allPeers s) []"

definition findConsumerByOutSsrc :: "u32 \<Rightarrow> ('s, 'd, 'z) sfu_scheme \<Rightarrow> nat option" where
  "findConsumerByOutSsrc outSsrc s = outSsrcToConsumer s outSsrc"

section \<open>RTCP\<close>

text \<open>
  The classification of the sub-packet at offset \<open>p\<close>; \<open>len\<close> is the number of bytes from
  there to the end of the whole compound packet.
\<close>

definition rtcpIsPLI :: "u8 list \<Rightarrow> nat \<Rightarrow> nat \<Rightarrow> bool" where
  "rtcpIsPLI d p len \<longleftrightarrow> 12 \<le> len \<and> d ! (p + 1) = 206 \<and> d ! p AND 0x1F = 1"

definition rtcpIsNACK :: "u8 list \<Rightarrow> nat \<Rightarrow> nat \<Rightarrow> bool" where
  "rtcpIsNACK d p len \<longleftrightarrow> 16 \<le> len \<and> d ! (p + 1) = 205 \<and> d ! p AND 0x1F = 1"

definition rtcpIsSR :: "u8 list \<Rightarrow> nat \<Rightarrow> nat \<Rightarrow> bool" where
  "rtcpIsSR d p len \<longleftrightarrow> 28 \<le> len \<and> d ! (p + 1) = 200"

definition rtcpIsRR :: "u8 list \<Rightarrow> nat \<Rightarrow> nat \<Rightarrow> bool" where
  "rtcpIsRR d p len \<longleftrightarrow> 8 \<le> len \<and> d ! (p + 1) = 201"

text \<open>The clock is read once; \<open>ns\<close> is the number of nanoseconds since 1970.\<close>

definition getNtpTimestamp :: "nat \<Rightarrow> u64" where
  "getNtpTimestamp ns =
     (let secs = ns div 1000000000; frac = ns mod 1000000000;
          ntpSecs = of_nat secs + 2208988800;
          ntpFrac = push_bit 32 (of_nat frac) div 1000000000
      in push_bit 32 ntpSecs OR ntpFrac)"

text \<open>
  The three handlers look the consumer up by an SSRC of the packet and send to the
  consumer's publisher; the packet is in \<open>d\<close> at offset \<open>p\<close>.
\<close>

definition handlePLI ::
  "'s srtp_lib \<Rightarrow> u8 list \<Rightarrow> nat \<Rightarrow> nat \<Rightarrow> nat \<Rightarrow> ('s, 'd, 'z) sfu_scheme
   \<Rightarrow> ('s, 'd, 'z) sfu_scheme option" where
  "handlePLI lib d p len subscriber s = do {
     outSsrc \<leftarrow> rd32 d (p + 8);
     case findConsumerByOutSsrc outSsrc s of None \<Rightarrow> Some s
     | Some c \<Rightarrow> do {
         cc \<leftarrow> conss s c;
         case c_publisher cc of None \<Rightarrow> Some s
         | Some publisher \<Rightarrow> do {
             (b, s') \<leftarrow> sendProtectedRtcp lib 64 (pli_bytes 0 (c_publisherSsrc cc)) publisher s;
             Some s'
           }
       }
   }"

definition handleNACK ::
  "'s srtp_lib \<Rightarrow> u8 list \<Rightarrow> nat \<Rightarrow> nat \<Rightarrow> nat \<Rightarrow> ('s, 'd, 'z) sfu_scheme
   \<Rightarrow> ('s, 'd, 'z) sfu_scheme option" where
  "handleNACK lib d p len subscriber s = do {
     outSsrc \<leftarrow> rd32 d (p + 8);
     pid \<leftarrow> rd16 d (p + 12);
     blp \<leftarrow> rd16 d (p + 14);
     case findConsumerByOutSsrc outSsrc s of None \<Rightarrow> Some s
     | Some c \<Rightarrow> do {
         cc \<leftarrow> conss s c;
         case c_publisher cc of None \<Rightarrow> Some s
         | Some publisher \<Rightarrow> do {
             let origPid = pid - of_int (c_seqDelta cc);
             (b, s') \<leftarrow> sendProtectedRtcp lib 64 (nack_bytes 0 (c_publisherSsrc cc) origPid blp)
                         publisher s;
             Some s'
           }
       }
   }"

text \<open>The report is copied into a vector of exactly its size and protected there.\<close>

definition handleRR ::
  "'s srtp_lib \<Rightarrow> u8 list \<Rightarrow> nat \<Rightarrow> nat \<Rightarrow> nat \<Rightarrow> ('s, 'd, 'z) sfu_scheme
   \<Rightarrow> ('s, 'd, 'z) sfu_scheme option" where
  "handleRR lib d p len subscriber s =
     (if len < 8 then Some s
      else do {
        outSsrc \<leftarrow> rd32 d (p + 4);
        case findConsumerByOutSsrc outSsrc s of None \<Rightarrow> Some s
        | Some c \<Rightarrow> do {
            cc \<leftarrow> conss s c;
            case c_publisher cc of None \<Rightarrow> Some s
            | Some publisher \<Rightarrow> do {
                pub \<leftarrow> peers s publisher;
                if srtp pub = None then Some s
                else do {
                  copy \<leftarrow> (if length d < p + len then None else Some (take len (drop p d)));
                  out \<leftarrow> (if 12 \<le> length copy then poke 8 (be32 (c_publisherSsrc cc)) copy
                         else Some copy);
                  (b, s') \<leftarrow> sendProtectedRtcp lib (length out) out publisher s;
                  Some s'
                }
              }
          }
      })"

text \<open>The body of the loop over the sub-packets.\<close>

definition router_rtcp_case ::
  "'s srtp_lib \<Rightarrow> nat \<Rightarrow> u8 list \<Rightarrow> nat \<Rightarrow> nat \<Rightarrow> ('s, 'd, 'z) sfu_scheme
   \<Rightarrow> ('s, 'd, 'z) sfu_scheme option" where
  "router_rtcp_case lib fromPeer d p pktLen s =
     (let remaining = length d - p in
      if rtcpIsPLI d p remaining then handlePLI lib d p pktLen fromPeer s
      else if rtcpIsNACK d p remaining then handleNACK lib d p pktLen fromPeer s
      else if rtcpIsRR d p remaining then handleRR lib d p pktLen fromPeer s
      else if rtcpIsSR d p remaining then Some s
      else Some s)"

function router_rtcp_loop ::
  "'s srtp_lib \<Rightarrow> nat \<Rightarrow> u8 list \<Rightarrow> nat \<Rightarrow> ('s, 'd, 'z) sfu_scheme
   \<Rightarrow> ('s, 'd, 'z) sfu_scheme option" where
  "router_rtcp_loop lib fromPeer d offset s =
     (if offset + 4 \<le> length d then
        (if rtcp_packetLen d offset = 0 \<or> length d < offset + rtcp_packetLen d offset then Some s
         else do {
           s' \<leftarrow> router_rtcp_case lib fromPeer d offset (rtcp_packetLen d offset) s;
           router_rtcp_loop lib fromPeer d (offset + rtcp_packetLen d offset) s'
         })
      else Some s)"
  by pat_completeness auto
termination
  by (relation "measure (\<lambda>(lib, from, d, offset, s). length d - offset)")
    (auto simp: diff_less_mono2 less_le_trans [OF _ rtcp_packetLen_pos(1)])

declare router_rtcp_loop.simps [simp del]

definition onRtcpPacket ::
  "'s srtp_lib \<Rightarrow> u8 list \<Rightarrow> nat \<Rightarrow> ('s, 'd, 'z) sfu_scheme \<Rightarrow> ('s, 'd, 'z) sfu_scheme option" where
  "onRtcpPacket lib rtcp fromPeer s = router_rtcp_loop lib fromPeer rtcp 0 s"

interpretation rtcp_r: rtcp_traversal "router_rtcp_case lib from" "router_rtcp_loop lib from"
  for lib "from"
  by unfold_locales (subst router_rtcp_loop.simps, simp)

text \<open>\<open>generateAndSendSR\<close>, for the consumer pointer \<open>cp\<close> and the time \<open>ns\<close>.\<close>

definition generateAndSendSR ::
  "'s srtp_lib \<Rightarrow> nat \<Rightarrow> nat option \<Rightarrow> ('s, 'd, 'z) sfu_scheme
   \<Rightarrow> ('s, 'd, 'z) sfu_scheme option" where
  "generateAndSendSR lib ns cp s =
     (case cp of None \<Rightarrow> Some s
      | Some c \<Rightarrow> do {
          cc \<leftarrow> conss s c;
          case c_subscriber cc of None \<Rightarrow> Some s
          | Some subscriber \<Rightarrow> do {
              let ntp = getNtpTimestamp ns;
              let ntpHi = ucast (drop_bit 32 ntp);
              let ntpLo = ucast (ntp AND 0xFFFFFFFF);
              (done', s') \<leftarrow> sendProtectedRtcp lib 64
                 (sr_bytes (c_rewrittenSsrc cc) ntpHi ntpLo (c_lastSentTimestamp cc)
                    (c_packetsSent cc) (c_octetsSent cc)) subscriber s;
              Some (if done'
                    then s'\<lparr>conss := modify c (\<lambda>x. x\<lparr>c_lastSrNtpTs := ntpHi,
                            c_lastSrRtpTs := c_lastSentTimestamp x\<rparr>) (conss s')\<rparr>
                    else s')
            }
        })"

end
