(* ===== verification/Ice.thy ===== *)
theory Ice
  imports Wire Dtls
begin

text \<open>
  \<open>transport/IceServer.h\<close> and \<open>transport/IceServer.cpp\<close>: the ICE-lite server that answers
  STUN binding requests. HMAC-SHA1 and CRC-32 are parameters (\<open>stun_lib\<close>). Strings are
  the bytes of the \<open>std::string\<close>. The lemmas show which requests are answered and that
  the answer carries the address and the integrity value a client checks.
\<close>

record stun_lib =
  hmac_sha1 :: "u8 list \<Rightarrow> u8 list \<Rightarrow> u8 list"
  crc32 :: "u8 list \<Rightarrow> u32"

text \<open>RFC 2104 and RFC 3174: the value is 20 bytes long.\<close>

definition hmac_length :: "stun_lib \<Rightarrow> bool" where
  "hmac_length lib \<longleftrightarrow> (\<forall>k m. length (hmac_sha1 lib k m) = 20)"

section \<open>The server\<close>

record ice_server =
  iceUfrag :: "u8 list"
  icePwd :: "u8 list"
  ice_sendCb :: bool

text \<open>\<open>randomString\<close>; the generator is the stream \<open>gen\<close>, of which \<open>pos\<close> values are used.\<close>

definition random_chars :: "u8 list" where
  "random_chars = map of_char ''abcdefghijklmnopqrstuvwxyz0123456789''"

fun randomString :: "(nat \<Rightarrow> u32) \<Rightarrow> nat \<Rightarrow> nat \<Rightarrow> u8 list" where
  "randomString gen pos 0 = []"
| "randomString gen pos (Suc n) =
     random_chars ! (unat (gen pos) mod length random_chars) # randomString gen (Suc pos) n"

definition ice_new :: "(nat \<Rightarrow> u32) \<Rightarrow> nat \<Rightarrow> ice_server" where
  "ice_new gen pos =
     \<lparr>iceUfrag = randomString gen pos 4, icePwd = randomString gen (pos + 4) 22, ice_sendCb = False\<rparr>"

definition ice_setSendCallback :: "ice_server \<Rightarrow> ice_server" where
  "ice_setSendCallback ice = ice\<lparr>ice_sendCb := True\<rparr>"

section \<open>Checking a request\<close>

text \<open>\<open>find(':')\<close> and the two \<open>substr\<close> calls; \<^const>\<open>None\<close> is \<open>npos\<close>.\<close>

fun split_colon :: "u8 list \<Rightarrow> (u8 list \<times> u8 list) option" where
  "split_colon [] = None"
| "split_colon (b # bs) =
     (if b = 58 then Some ([], bs)
      else case split_colon bs of None \<Rightarrow> None | Some (l, r) \<Rightarrow> Some (b # l, r))"

text \<open>
  The loop over the attributes; \<^const>\<open>None\<close> is \<open>return false\<close>, otherwise the offset of the last
  MESSAGE-INTEGRITY attribute, if there was one, and the peer's fragment.
\<close>

function attr_loop ::
  "u8 list \<Rightarrow> u8 list \<Rightarrow> nat \<Rightarrow> nat option \<Rightarrow> u8 list \<Rightarrow> (nat option \<times> u8 list) option" where
  "attr_loop ufrag data pos mi peerUfrag =
     (if pos + 4 \<le> length data then
        let attrType = at16 data pos; attrLen = unat (at16 data (pos + 2));
            valEnd = pos + 4 + attrLen;
            nextPos = (valEnd + 3) div 4 * 4
        in if length data < valEnd then Some (mi, peerUfrag)
        else if attrType = 0x0006 then
          (case split_colon (take attrLen (drop (pos + 4) data)) of
             None \<Rightarrow> attr_loop ufrag data nextPos mi peerUfrag
           | Some (srvUfrag, peer) \<Rightarrow>
               if srvUfrag \<noteq> ufrag then None else attr_loop ufrag data nextPos mi peer)
        else if attrType = 0x0008 then
          (if attrLen \<noteq> 20 then None else attr_loop ufrag data nextPos (Some pos) peerUfrag)
        else attr_loop ufrag data nextPos mi peerUfrag
      else Some (mi, peerUfrag))"
  by pat_completeness auto
termination
  by (relation "measure (\<lambda>(u, d, p, m, q). length d - p)")
    (auto simp: Let_def intro!: diff_less_mono2)

declare attr_loop.simps [simp del]

text \<open>The bytes that are authenticated: all before the attribute, with the length adjusted.\<close>

definition hmac_input :: "u8 list \<Rightarrow> nat \<Rightarrow> u8 list" where
  "hmac_input data miStart =
     (let buf = take miStart data; newLen = of_nat (miStart + 4 + 20 - 20)
      in take 2 buf @ be16 newLen @ drop 4 buf)"

text \<open>\<open>validateCredentials\<close>: \<^const>\<open>None\<close> is false, otherwise \<open>outPeerUfrag\<close>.\<close>

definition validateCredentials :: "stun_lib \<Rightarrow> ice_server \<Rightarrow> u8 list \<Rightarrow> u8 list option" where
  "validateCredentials lib ice data =
     (case attr_loop (iceUfrag ice) data 20 None [] of None \<Rightarrow> None
      | Some (mi, peerUfrag) \<Rightarrow>
          (case mi of None \<Rightarrow> None
           | Some miStart \<Rightarrow>
               if peerUfrag = [] then None
               else if 4096 < miStart then None
               else if hmac_sha1 lib (icePwd ice) (hmac_input data miStart)
                     \<noteq> take 20 (drop (miStart + 4) data) then None
               else Some peerUfrag))"

section \<open>Building the response\<close>

definition stun_magic :: u32 where
  "stun_magic = 0x2112A442"

definition sendResponse :: "stun_lib \<Rightarrow> ice_server \<Rightarrow> u8 list \<Rightarrow> endpoint \<Rightarrow> u8 list" where
  "sendResponse lib ice request remote =
     (let txn = take 12 (drop 8 request);
          body = be32 stun_magic @ txn @ be16 0x0020 @ be16 8 @ [0, 1]
            @ be16 (ep_port remote XOR 0x2112) @ be32 (ep_addr remote XOR stun_magic);
          forHmac = be16 0x0101 @ be16 36 @ body;
          mi = be16 0x0008 @ be16 20 @ hmac_sha1 lib (icePwd ice) forHmac;
          final = be16 0x0101 @ be16 44 @ body @ mi;
          fp = crc32 lib final XOR 0x5354554E
      in final @ be16 0x8028 @ be16 4 @ be32 fp)"

text \<open>\<open>onStunPacket\<close>: the datagrams handed to the send callback.\<close>

definition onStunPacket :: "stun_lib \<Rightarrow> ice_server \<Rightarrow> u8 list \<Rightarrow> endpoint \<Rightarrow> datagram list" where
  "onStunPacket lib ice data remote =
     (if length data < 20 then []
      else if at16 data 0 \<noteq> 0x0001 then []
      else if at32 data 4 \<noteq> stun_magic then []
      else case validateCredentials lib ice data of None \<Rightarrow> []
      | Some peerUfrag \<Rightarrow>
          if ice_sendCb ice then [(remote, sendResponse lib ice data remote)] else [])"

section \<open>Requests that are answered\<close>

text \<open>The attribute at \<open>mi\<close> is a MESSAGE-INTEGRITY attribute inside the packet.\<close>

definition integrity_at :: "u8 list \<Rightarrow> nat \<Rightarrow> bool" where
  "integrity_at data mi \<longleftrightarrow>
     20 \<le> mi \<and> mi + 24 \<le> length data \<and> at16 data mi = 0x0008 \<and> at16 data (mi + 2) = 20"

lemma attr_loop_step:
  assumes "attr_loop ufrag data pos mi q = Some (mi', q')" "20 \<le> pos"
    and "pos + 4 \<le> length data" "pos + 4 + unat (at16 data (pos + 2)) \<le> length data"
  shows "\<exists>m1 q1. attr_loop ufrag data ((pos + 4 + unat (at16 data (pos + 2)) + 3) div 4 * 4) m1 q1
      = Some (mi', q') \<and> (m1 = mi \<or> m1 = Some pos \<and> integrity_at data pos)"
proof -
  have "integrity_at data pos" if "at16 data pos = 8" "unat (at16 data (pos + 2)) = 20"
    using that assms(2,4) by (simp add: integrity_at_def word_unat_eq_iff)
  then show ?thesis
    using assms by (subst (asm) attr_loop.simps)
      (auto simp: Let_def split: if_splits option.splits prod.splits)
qed

lemma attr_loop_integrity:
  "attr_loop ufrag data pos mi q = Some (mi', q') \<Longrightarrow> 20 \<le> pos \<Longrightarrow>
     mi' = mi \<or> (\<exists>m. mi' = Some m \<and> integrity_at data m)"
proof (induction "length data - pos" arbitrary: pos mi q rule: less_induct)
  case less
  let ?next = "(pos + 4 + unat (at16 data (pos + 2)) + 3) div 4 * 4"
  show ?case
  proof (cases "pos + 4 \<le> length data \<and> pos + 4 + unat (at16 data (pos + 2)) \<le> length data")
    case False
    then show ?thesis
      using less.prems(1) by (subst (asm) attr_loop.simps) (auto simp: Let_def split: if_splits)
  next
    case True
    then obtain m1 q1 where m1: "attr_loop ufrag data ?next m1 q1 = Some (mi', q')"
      "m1 = mi \<or> m1 = Some pos \<and> integrity_at data pos"
      using attr_loop_step [OF less.prems] by blast
    have next': "pos + 4 \<le> ?next" by linarith
    have "mi' = m1 \<or> (\<exists>m. mi' = Some m \<and> integrity_at data m)"
      by (rule less.hyps [OF _ m1(1)]) (use next' less.prems(2) True in linarith)+
    then show ?thesis using m1(2) by blast
  qed
qed

section \<open>What a client sends\<close>

text \<open>An attribute with its padding to a multiple of four bytes.\<close>

definition stun_attr :: "u16 \<Rightarrow> u8 list \<Rightarrow> u8 list \<Rightarrow> u8 list" where
  "stun_attr ty v pad = be16 ty @ be16 (of_nat (length v)) @ v @ pad"

definition pad_ok :: "u8 list \<Rightarrow> u8 list \<Rightarrow> bool" where
  "pad_ok v pad \<longleftrightarrow> length v < 65536 \<and> length pad < 4 \<and> (length v + length pad) mod 4 = 0"

lemma attr_loop_at:
  assumes pre: "length pre mod 4 = 0" and pad: "pad_ok v pad"
  shows "attr_loop ufrag (pre @ stun_attr ty v pad @ post) (length pre) mi q =
    (let next' = length (pre @ stun_attr ty v pad);
         data = pre @ stun_attr ty v pad @ post
     in if ty = 0x0006 then
          (case split_colon v of None \<Rightarrow> attr_loop ufrag data next' mi q
           | Some (srv, peer) \<Rightarrow> if srv \<noteq> ufrag then None else attr_loop ufrag data next' mi peer)
        else if ty = 0x0008 then
          (if length v \<noteq> 20 then None else attr_loop ufrag data next' (Some (length pre)) q)
        else attr_loop ufrag data next' mi q)"
proof -
  let ?d = "pre @ stun_attr ty v pad @ post"
  have v: "unat (of_nat (length v) :: u16) = length v"
    using pad by (simp add: pad_ok_def unat_of_nat_small)
  have ty: "at16 ?d (length pre) = ty"
    using at16_behind [of pre "stun_attr ty v pad @ post" 0]
    by (simp add: stun_attr_def at16_append1)
  have len: "at16 ?d (length pre + 2) = of_nat (length v)"
    using at16_behind [of pre "stun_attr ty v pad @ post" 2]
    by (simp add: stun_attr_def at16_append1 at16_append2)
  have val: "take (length v) (drop (length pre + 4) ?d) = v"
    by (simp add: stun_attr_def)
  have "(length pre + 4 + length v + 3) div 4 * 4 = length pre + 4 + length v + length pad"
    using pre pad unfolding pad_ok_def by presburger
  then have next': "(length pre + 4 + length v + 3) div 4 * 4 = length (pre @ stun_attr ty v pad)"
    by (simp add: stun_attr_def)
  have fits: "length pre + 4 \<le> length ?d" "\<not> length ?d < length pre + 4 + length v"
    by (simp_all add: stun_attr_def)
  show ?thesis
    by (subst attr_loop.simps) (simp only: Let_def fits ty len val next' v if_True if_False)
qed

lemma attr_loop_end: "length data < pos + 4 \<Longrightarrow> attr_loop ufrag data pos mi q = Some (mi, q)"
  by (subst attr_loop.simps) simp

lemma split_colon_append: "58 \<notin> set l \<Longrightarrow> split_colon (l @ 58 # r) = Some (l, r)"
  by (induction l) auto

text \<open>
  A binding request: header with any length field, USERNAME, MESSAGE-INTEGRITY computed
  with the password over everything before it, and a FINGERPRINT.
\<close>

definition stun_prefix :: "u16 \<Rightarrow> u8 list \<Rightarrow> u8 list \<Rightarrow> u8 list \<Rightarrow> u8 list" where
  "stun_prefix lenField txn name pad =
     (be16 1 @ be16 lenField @ be32 stun_magic @ txn) @ stun_attr 0x0006 name pad"

definition stun_request ::
  "stun_lib \<Rightarrow> u8 list \<Rightarrow> u16 \<Rightarrow> u8 list \<Rightarrow> u8 list \<Rightarrow> u8 list \<Rightarrow> u8 list \<Rightarrow> u8 list" where
  "stun_request lib pwd lenField txn name pad fp =
     (let p = stun_prefix lenField txn name pad
      in p @ stun_attr 0x0008 (hmac_sha1 lib pwd (hmac_input p (length p))) [] @ stun_attr 0x8028 fp [])"

lemma length_stun_prefix:
  "length txn = 12 \<Longrightarrow> length (stun_prefix lf txn name pad) = 24 + length name + length pad"
  by (simp add: stun_prefix_def stun_attr_def)

lemma hmac_input_prefix: "hmac_input (p @ rest) (length p) = hmac_input p (length p)"
  by (simp add: hmac_input_def)

lemma validate_request:
  assumes lib: "hmac_length lib" and txn: "length txn = 12" and name: "name = iceUfrag ice @ 58 # peer"
    and u: "58 \<notin> set (iceUfrag ice)" and peer: "peer \<noteq> []" and pad: "pad_ok name pad"
    and fp: "length fp = 4" and small: "24 + length name + length pad \<le> 4096"
  shows "validateCredentials lib ice (stun_request lib (icePwd ice) lf txn name pad fp) = Some peer"
proof -
  let ?hdr = "be16 1 @ be16 lf @ be32 stun_magic @ txn"
  let ?p = "stun_prefix lf txn name pad"
  let ?mac = "hmac_sha1 lib (icePwd ice) (hmac_input ?p (length ?p))"
  define d where "d = stun_request lib (icePwd ice) lf txn name pad fp"
  let ?d1 = "?hdr @ stun_attr 6 name pad @ (stun_attr 8 ?mac [] @ stun_attr 0x8028 fp [])"
  let ?d2 = "?p @ stun_attr 8 ?mac [] @ stun_attr 0x8028 fp []"
  let ?d3 = "(?p @ stun_attr 8 ?mac []) @ stun_attr 0x8028 fp [] @ []"
  have mac: "length ?mac = 20" using lib by (simp add: hmac_length_def)
  have d: "?d1 = d" "?d2 = d" "?d3 = d"
    by (simp_all add: d_def stun_request_def stun_prefix_def Let_def)
  have lens: "length ?hdr = 20" "length ?hdr mod 4 = 0" "length (?hdr @ stun_attr 6 name pad) = length ?p"
    "length ?p mod 4 = 0" "length (?p @ stun_attr 8 ?mac []) mod 4 = 0"
    using txn pad mac by (simp_all add: stun_prefix_def stun_attr_def pad_ok_def) presburger+
  have pads: "pad_ok ?mac []" "pad_ok fp []" using mac fp by (simp_all add: pad_ok_def)
  have last: "length ((?p @ stun_attr 8 ?mac []) @ stun_attr 0x8028 fp []) = length d"
    using d(3) by simp
  have name': "split_colon name = Some (iceUfrag ice, peer)" using split_colon_append [OF u] name by simp
  have "attr_loop (iceUfrag ice) d 20 None [] = attr_loop (iceUfrag ice) d (length ?p) None peer"
    using attr_loop_at [OF lens(2) pad, of "iceUfrag ice" 6 "stun_attr 8 ?mac [] @ stun_attr 0x8028 fp []" None "[]"]
    unfolding d lens(1,3) by (simp add: name')
  also have "\<dots> = attr_loop (iceUfrag ice) d (length (?p @ stun_attr 8 ?mac [])) (Some (length ?p)) peer"
    using attr_loop_at [OF lens(4) pads(1), of "iceUfrag ice" 8 "stun_attr 0x8028 fp []" None peer]
    unfolding d mac by (simp add: Let_def del: length_append)
  also have "\<dots> = attr_loop (iceUfrag ice) d (length d) (Some (length ?p)) peer"
    using attr_loop_at [OF lens(5) pads(2), of "iceUfrag ice" "0x8028" "[]" "Some (length ?p)" peer]
    unfolding d last by (simp add: Let_def del: length_append append_assoc)
  also have "\<dots> = Some (Some (length ?p), peer)" by (rule attr_loop_end) simp
  finally have "attr_loop (iceUfrag ice) d 20 None [] = Some (Some (length ?p), peer)" .
  moreover have "take 20 (drop (length ?p + 4) d) = ?mac"
    using mac by (simp add: d(2) [symmetric] stun_attr_def)
  moreover have "hmac_input d (length ?p) = hmac_input ?p (length ?p)"
    by (simp only: d(2) [symmetric] hmac_input_prefix)
  ultimately show ?thesis
    using peer small length_stun_prefix [OF txn] by (simp add: validateCredentials_def d_def)
qed

section \<open>Properties\<close>

lemma answer_authentic:
  assumes "e \<in> set (onStunPacket lib ice data remote)"
  shows "fst e = remote \<and> at16 data 0 = 0x0001 \<and> at32 data 4 = stun_magic \<and>
    (\<exists>mi. integrity_at data mi \<and>
       hmac_sha1 lib (icePwd ice) (hmac_input data mi) = take 20 (drop (mi + 4) data))"
proof -
  have "fst e = remote" "at16 data 0 = 1" "at32 data 4 = stun_magic"
    "\<exists>peer. validateCredentials lib ice data = Some peer"
    using assms by (cases "validateCredentials lib ice data"; auto simp: onStunPacket_def split: if_splits)+
  moreover from this(4) obtain mi q where "attr_loop (iceUfrag ice) data 20 None [] = Some (Some mi, q)"
    "hmac_sha1 lib (icePwd ice) (hmac_input data mi) = take 20 (drop (mi + 4) data)"
    by (auto simp: validateCredentials_def split: if_splits option.splits prod.splits)
  ultimately show ?thesis using attr_loop_integrity by blast
qed

text \<open>A library instance and a server.\<close>

definition toy_stun_lib :: stun_lib where
  "toy_stun_lib = \<lparr>hmac_sha1 = (\<lambda>k m. replicate 20 (of_nat (length k + length m))), crc32 = (\<lambda>m. 0)\<rparr>"

definition sample_ice :: ice_server where
  "sample_ice = \<lparr>iceUfrag = [97, 98, 99, 100], icePwd = replicate 22 120, ice_sendCb = True\<rparr>"

definition sample_stun :: "u8 list" where
  "sample_stun = stun_request toy_stun_lib (icePwd sample_ice) 0 (replicate 12 1)
     ([97, 98, 99, 100] @ 58 # [120]) [0, 0] [0, 0, 0, 0]"

lemma sample_stun_head: "at16 sample_stun 0 = 1" "at32 sample_stun 4 = stun_magic" "20 \<le> length sample_stun"
  by (simp_all add: sample_stun_def stun_request_def stun_prefix_def Let_def at16_append1 at32_append1
      at32_append2 at16_append2)

lemma valid_request_answered:
  assumes "hmac_length lib" "ice_sendCb ice" "58 \<notin> set (iceUfrag ice)" "length txn = 12" "peer \<noteq> []"
    and "pad_ok (iceUfrag ice @ 58 # peer) pad" "length fp = 4"
    and "24 + length (iceUfrag ice @ 58 # peer) + length pad \<le> 4096"
    and "data = stun_request lib (icePwd ice) lf txn (iceUfrag ice @ 58 # peer) pad fp"
  shows "onStunPacket lib ice data remote = [(remote, sendResponse lib ice data remote)]"
proof -
  have "at16 data 0 = 1" "at32 data 4 = stun_magic" "\<not> length data < 20"
    using assms(4) by (simp_all add: assms(9) stun_request_def stun_prefix_def Let_def at16_append1
        at32_append1 at32_append2 at16_append2)
  moreover have "validateCredentials lib ice data = Some peer"
    unfolding assms(9) by (rule validate_request [OF assms(1,4) refl assms(3,5,6,7,8)])
  ultimately show ?thesis using assms(2) by (simp add: onStunPacket_def)
qed



lemma at_Cons2:
  "2 \<le> i \<Longrightarrow> at16 (x # y # d) i = at16 d (i - 2)" "2 \<le> i \<Longrightarrow> at32 (x # y # d) i = at32 d (i - 2)"
  using at16_append2 [of "[x, y]" i d] at32_append2 [of "[x, y]" i d]
  by (simp_all add: numeral_2_eq_2)

lemma response_fields:
  fixes T H :: "u8 list" and m a f :: u32 and p :: u16
  assumes T: "length T = 12" and H: "length H = 20"
  defines "out \<equiv> be16 0x0101 @ be16 44 @ be32 m @ T @ be16 0x0020 @ be16 8 @ [0, 1] @ be16 p @ be32 a
    @ be16 0x0008 @ be16 20 @ H @ be16 0x8028 @ be16 4 @ be32 f"
  shows "length out = 64" "at16 out 0 = 0x0101" "at16 out 2 = 44" "at32 out 4 = m" "take 12 (drop 8 out) = T"
    and "at16 out 20 = 0x0020" "at16 out 26 = p" "at32 out 28 = a" "integrity_at out 32"
    and "take 20 (drop 36 out) = H" "at16 out 56 = 0x8028" "at32 out 60 = f"
    and "take 56 out = be16 0x0101 @ be16 44 @ be32 m @ T @ be16 0x0020 @ be16 8 @ [0, 1] @ be16 p @ be32 a
      @ be16 0x0008 @ be16 20 @ H"
    and "hmac_input out 32 = be16 0x0101 @ be16 36 @ be32 m @ T @ be16 0x0020 @ be16 8 @ [0, 1] @ be16 p @ be32 a"
  unfolding out_def using T H
  by (simp_all add: at16_append1 at16_append2 at32_append1 at32_append2 at_Cons2 hmac_input_def Let_def
      integrity_at_def)

text \<open>
  The binding response is 64 bytes with a correct length field, the request's transaction
  id, the sender's address and port under the XOR of RFC 5389, a MESSAGE-INTEGRITY that the
  receiver verifies by the rule the server itself applies to requests, and a FINGERPRINT
  over everything before it.
\<close>

lemma stun_response_well_formed:
  assumes "hmac_length lib" "20 \<le> length request"
  shows "let out = sendResponse lib ice request remote in
    length out = 64 \<and> at16 out 0 = 0x0101 \<and> unat (at16 out 2) = length out - 20 \<and>
    at32 out 4 = stun_magic \<and> take 12 (drop 8 out) = take 12 (drop 8 request) \<and>
    at16 out 20 = 0x0020 \<and> at16 out 26 XOR 0x2112 = ep_port remote \<and>
    at32 out 28 XOR stun_magic = ep_addr remote \<and>
    integrity_at out 32 \<and> hmac_sha1 lib (icePwd ice) (hmac_input out 32) = take 20 (drop 36 out) \<and>
    at16 out 56 = 0x8028 \<and> at32 out 60 = crc32 lib (take 56 out) XOR 0x5354554E"
proof -
  let ?txn = "take 12 (drop 8 request)"
  have txn: "length ?txn = 12" using assms(2) by simp
  then have hm: "length (hmac_sha1 lib k m) = 20" for k m using assms(1) by (simp add: hmac_length_def)
  note fields = response_fields [OF txn hm]
  show ?thesis
    unfolding sendResponse_def Let_def append_assoc fields
    by (simp only: fields) (simp add: xor.assoc)
qed

lemma stun_response_well_formed_example:
  "length (sendResponse toy_stun_lib sample_ice sample_stun \<lparr>ep_addr = 0x0A000001, ep_port = 40000\<rparr>) = 64"
  using stun_response_well_formed [of toy_stun_lib sample_stun sample_ice "\<lparr>ep_addr = 0x0A000001, ep_port = 40000\<rparr>"]
  by (simp add: hmac_length_def toy_stun_lib_def sample_stun_head Let_def)

text \<open>
  The generated credentials satisfy ICE: a fragment of 4 and a password of 22 characters,
  all lower-case letters or digits, so that the fragment never contains the colon that
  separates the two fragments of a USERNAME.
\<close>

lemma ice_credentials_well_formed:
  "length (iceUfrag (ice_new gen pos)) = 4 \<and> length (icePwd (ice_new gen pos)) = 22 \<and>
   set (iceUfrag (ice_new gen pos)) \<subseteq> set random_chars \<and> set (icePwd (ice_new gen pos)) \<subseteq> set random_chars \<and>
   58 \<notin> set (iceUfrag (ice_new gen pos))"
proof -
  have "length (randomString g p n) = n" for g p n
    by (induction n arbitrary: p) simp_all
  moreover have chars: "set (randomString g p n) \<subseteq> set random_chars" for g p n
  proof (induction n arbitrary: p)
    case (Suc n)
    have "length random_chars = 36" by (simp add: random_chars_def)
    then have "random_chars ! (unat (g p) mod length random_chars) \<in> set random_chars" by (intro nth_mem) simp
    then show ?case using Suc by simp
  qed simp
  moreover have "58 \<notin> set random_chars" by (simp add: random_chars_def)
  ultimately show ?thesis unfolding ice_new_def by (auto dest: chars [THEN subsetD])
qed

end
