(* ===== verification/Sdp.thy ===== *)
theory Sdp
  imports Prelude "HOL-Library.Sublist"
begin

text \<open>
  \<open>sdp/SdpParser.h\<close> and \<open>sdp/SdpParser.cpp\<close>: parsing a browser's offer and generating the
  answer. Strings are character lists; \<open>std::istringstream\<close> with \<open>>>\<close> and \<open>getline\<close> is
  the consumption of a character list. An exception of \<open>std::stoi\<close> is the left side of a
  sum. The four static members are the record \<open>sdp_globals\<close>.
\<close>

section \<open>Streams and numbers\<close>

definition is_space :: "char \<Rightarrow> bool" where
  "is_space c \<longleftrightarrow> c \<in> {CHR '' '', CHR 0x09, CHR 0x0A, CHR 0x0B, CHR 0x0C, CHR 0x0D}"

text \<open>The calls of \<open>getline\<close> until the stream ends.\<close>

function getlines :: "string \<Rightarrow> string list" where
  "getlines s =
     (if s = [] then []
      else takeWhile (\<lambda>c. c \<noteq> CHR 0x0A) s # getlines (tl (dropWhile (\<lambda>c. c \<noteq> CHR 0x0A) s)))"
  by pat_completeness auto
termination
proof (relation "measure length")
  fix s :: string
  assume "s \<noteq> []"
  moreover have "length (dropWhile (\<lambda>c. c \<noteq> CHR 0x0A) s) \<le> length s" by (rule length_dropWhile_le)
  moreover have "0 < length s" using \<open>s \<noteq> []\<close> by simp
  ultimately have "length (dropWhile (\<lambda>c. c \<noteq> CHR 0x0A) s) - 1 < length s" by linarith
  then show "(tl (dropWhile (\<lambda>c. c \<noteq> CHR 0x0A) s), s) \<in> measure length" by simp
qed simp

declare getlines.simps [simp del]

lemma getlines_line: "CHR 0x0A \<notin> set l \<Longrightarrow> getlines (l @ CHR 0x0A # rest) = l # getlines rest"
proof -
  assume l: "CHR 0x0A \<notin> set l"
  then have "takeWhile (\<lambda>c. c \<noteq> CHR 0x0A) (l @ CHR 0x0A # rest) = l"
    "dropWhile (\<lambda>c. c \<noteq> CHR 0x0A) (l @ CHR 0x0A # rest) = CHR 0x0A # rest"
    by (subst takeWhile_append2 dropWhile_append2; auto)+
  then show ?thesis by (subst getlines.simps) simp
qed

text \<open>\<open>stream >> word\<close>: the word and what is left.\<close>

definition read_word :: "string \<Rightarrow> string \<times> string" where
  "read_word s = (let t = dropWhile is_space s
     in (takeWhile (\<lambda>c. \<not> is_space c) t, dropWhile (\<lambda>c. \<not> is_space c) t))"

definition is_digit :: "char \<Rightarrow> bool" where
  "is_digit c \<longleftrightarrow> c \<in> set ''0123456789''"

definition digit_value :: "char \<Rightarrow> nat" where
  "digit_value c = (of_char c :: nat) - 48"

definition digits_value :: "string \<Rightarrow> nat" where
  "digits_value ds = foldl (\<lambda>n c. 10 * n + digit_value c) 0 ds"

text \<open>White space, an optional sign and digits; no digits is the first error.\<close>

datatype int_error = Invalid_argument | Out_of_range

definition scan_int :: "string \<Rightarrow> (int_error + int) \<times> string" where
  "scan_int s =
     (let t = dropWhile is_space s;
          neg = (t \<noteq> [] \<and> hd t = CHR ''-'');
          u = (if t \<noteq> [] \<and> (hd t = CHR ''-'' \<or> hd t = CHR ''+'') then tl t else t);
          ds = takeWhile is_digit u;
          rest = dropWhile is_digit u;
          v = (if neg then - int (digits_value ds) else int (digits_value ds))
      in (if ds = [] then Inl Invalid_argument
          else if v < - (2 ^ 31) \<or> 2 ^ 31 \<le> v then Inl Out_of_range else Inr v, rest))"

definition stoi :: "string \<Rightarrow> int_error + int" where
  "stoi s = fst (scan_int s)"

text \<open>\<open>while (stream >> n)\<close>.\<close>

lemma scan_int_shorter: "scan_int s = (Inr v, r) \<Longrightarrow> length r < length s"
proof -
  assume a: "scan_int s = (Inr v, r)"
  define u where "u = (let t = dropWhile is_space s
    in if t \<noteq> [] \<and> (hd t = CHR ''-'' \<or> hd t = CHR ''+'') then tl t else t)"
  have u: "length u \<le> length s"
    using length_dropWhile_le [of is_space s] by (auto simp: u_def Let_def)
  have d: "takeWhile is_digit u \<noteq> []" and r: "r = dropWhile is_digit u"
    using a by (auto simp: scan_int_def u_def Let_def split: if_splits)
  have "length (takeWhile is_digit u) + length (dropWhile is_digit u) = length u"
    by (metis length_append takeWhile_dropWhile_id)
  with u d r show "length r < length s"
    by (cases "takeWhile is_digit u") auto
qed

function read_ints :: "string \<Rightarrow> int list" where
  "read_ints s = (case scan_int s of (Inl e, r) \<Rightarrow> [] | (Inr v, r) \<Rightarrow> v # read_ints r)"
  by pat_completeness auto
termination
  by (relation "measure length") (auto dest: scan_int_shorter [OF sym])

declare read_ints.simps [simp del]

text \<open>Decimal output of \<open>operator<<\<close>.\<close>

fun show_nat :: "nat \<Rightarrow> string" where
  "show_nat n = (if n < 10 then [char_of (48 + n)] else show_nat (n div 10) @ [char_of (48 + n mod 10)])"

declare show_nat.simps [simp del]

section \<open>Parser state\<close>

record media_section =
  sec_type :: string
  sec_mid :: string
  sec_direction :: string
  sec_ptList :: string
  sec_codecLines :: "string list"

record sdp_globals =
  g_videoPT :: u8
  g_audioPT :: u8
  g_videoPTs :: "u8 set"
  g_audioPTs :: "u8 set"

definition globals_init :: sdp_globals where
  "globals_init = \<lparr>g_videoPT = 96, g_audioPT = 111, g_videoPTs = {}, g_audioPTs = {}\<rparr>"

record sdp_parser =
  sections :: "media_section list"
  sdp_iceUfrag :: string
  sdp_icePwd :: string
  sdp_fingerprint :: string
  serverIp :: string
  serverPort :: int
  serverUfrag :: string
  serverPwd :: string
  serverFingerprint :: string
  midSsrc :: "string \<rightharpoonup> u32"

definition parser_new :: sdp_parser where
  "parser_new = \<lparr>sections = [], sdp_iceUfrag = '''', sdp_icePwd = '''', sdp_fingerprint = '''',
     serverIp = '''', serverPort = 10000, serverUfrag = '''', serverPwd = '''',
     serverFingerprint = '''', midSsrc = Map.empty\<rparr>"

definition setServerInfo ::
  "string \<Rightarrow> int \<Rightarrow> string \<Rightarrow> string \<Rightarrow> string \<Rightarrow> sdp_parser \<Rightarrow> sdp_parser" where
  "setServerInfo ip port ufrag pwd fp p =
     p\<lparr>serverIp := ip, serverPort := port, serverUfrag := ufrag, serverPwd := pwd, serverFingerprint := fp\<rparr>"

definition setMidSsrcMap :: "(string \<rightharpoonup> u32) \<Rightarrow> sdp_parser \<Rightarrow> sdp_parser" where
  "setMidSsrcMap m p = p\<lparr>midSsrc := m\<rparr>"

section \<open>Parsing an offer\<close>

definition extractAttr :: "string \<Rightarrow> string \<Rightarrow> string" where
  "extractAttr line key = (let p = ''a='' @ key @ '':'' in if prefix p line then drop (length p) line else '''')"

text \<open>\<open>find(' ')\<close>: what precedes and what follows the first blank; \<^const>\<open>None\<close> is \<open>npos\<close>.\<close>

definition split_blank :: "string \<Rightarrow> (string \<times> string) option" where
  "split_blank s = (if CHR '' '' \<in> set s
     then Some (takeWhile (\<lambda>c. c \<noteq> CHR '' '') s, tl (dropWhile (\<lambda>c. c \<noteq> CHR '' '') s)) else None)"

definition contains :: "string \<Rightarrow> string \<Rightarrow> bool" where
  "contains s p \<longleftrightarrow> list_ex (prefix p) (suffixes s)"

text \<open>The trailing CR and the leading blanks; \<^const>\<open>None\<close> is a line of blanks only.\<close>

definition clean_line :: "string \<Rightarrow> string option" where
  "clean_line line =
     (let l = (if line \<noteq> [] \<and> last line = CHR 0x0D then butlast line else line);
          t = dropWhile (\<lambda>c. c = CHR '' '' \<or> c = CHR 0x09) l
      in if t = [] then None else Some t)"

definition media_line :: "string \<Rightarrow> media_section" where
  "media_line line =
     (let (type, r1) = read_word (drop 2 line);
          (port, r2) = read_word r1;
          (proto, r3) = read_word r2;
          rest = (if r3 \<noteq> [] \<and> hd r3 = CHR '' '' then tl r3 else r3)
      in \<lparr>sec_type = type, sec_mid = '''', sec_direction = '''', sec_ptList = rest, sec_codecLines = []\<rparr>)"

definition collect_pts :: "media_section \<Rightarrow> sdp_globals \<Rightarrow> sdp_globals" where
  "collect_pts sec g =
     (let pts = set (map of_int (read_ints (sec_ptList sec)))
      in if sec_type sec = ''video'' then g\<lparr>g_videoPTs := g_videoPTs g \<union> pts\<rparr>
         else if sec_type sec = ''audio'' then g\<lparr>g_audioPTs := g_audioPTs g \<union> pts\<rparr> else g)"

text \<open>Writing through \<open>current\<close>, which points to the last section.\<close>

definition update_last :: "(media_section \<Rightarrow> media_section) \<Rightarrow> sdp_parser \<Rightarrow> sdp_parser" where
  "update_last f p = p\<lparr>sections := butlast (sections p) @ [f (last (sections p))]\<rparr>"

definition add_codec :: "string \<Rightarrow> sdp_parser \<Rightarrow> sdp_parser" where
  "add_codec line = update_last (\<lambda>sec. sec\<lparr>sec_codecLines := sec_codecLines sec @ [line]\<rparr>)"

definition rtpmap_line :: "string \<Rightarrow> sdp_parser \<Rightarrow> sdp_globals \<Rightarrow> int_error + sdp_globals" where
  "rtpmap_line line p g =
     (let rv = drop 9 line;
          (pt, codec) = (case split_blank rv of None \<Rightarrow> (rv, '''') | Some x \<Rightarrow> x);
          type = sec_type (last (sections p))
      in if type = ''video'' \<and> (contains codec ''VP8'' \<or> contains codec ''vp8'') then
           (case stoi pt of Inl e \<Rightarrow> Inl e | Inr v \<Rightarrow> Inr (g\<lparr>g_videoPT := of_int v\<rparr>))
         else if type = ''audio'' \<and> (contains codec ''opus'' \<or> contains codec ''Opus'') then
           (case stoi pt of Inl e \<Rightarrow> Inl e | Inr v \<Rightarrow> Inr (g\<lparr>g_audioPT := of_int v\<rparr>))
         else Inr g)"

text \<open>The attributes of the current section.\<close>

definition section_line ::
  "string \<Rightarrow> sdp_parser \<Rightarrow> sdp_globals \<Rightarrow> (int_error + sdp_parser) \<times> sdp_globals" where
  "section_line line p g =
     (if extractAttr line ''mid'' \<noteq> '''' then
        (Inr (update_last (\<lambda>sec. sec\<lparr>sec_mid := extractAttr line ''mid''\<rparr>) p), g)
      else if line \<in> {''a=sendrecv'', ''a=sendonly'', ''a=recvonly'', ''a=inactive''} then
        (Inr (update_last (\<lambda>sec. sec\<lparr>sec_direction := drop 2 line\<rparr>) p), g)
      else if prefix ''a=rtpmap:'' line then
        (case rtpmap_line line p g of Inl e \<Rightarrow> (Inl e, g) | Inr g' \<Rightarrow> (Inr (add_codec line p), g'))
      else if prefix ''a=rtcp-fb:'' line then (Inr (add_codec line p), g)
      else if prefix ''a=fmtp:'' line then (Inr (add_codec line p), g)
      else (Inr p, g))"

text \<open>One iteration of the loop, for a line that is not blank.\<close>

definition offer_line ::
  "string \<Rightarrow> sdp_parser \<Rightarrow> sdp_globals \<Rightarrow> (int_error + sdp_parser) \<times> sdp_globals" where
  "offer_line line p g =
     (if prefix ''m='' line then
        (let sec = media_line line in (Inr (p\<lparr>sections := sections p @ [sec]\<rparr>), collect_pts sec g))
      else if extractAttr line ''ice-ufrag'' \<noteq> '''' then
        (Inr (if sdp_iceUfrag p = '''' then p\<lparr>sdp_iceUfrag := extractAttr line ''ice-ufrag''\<rparr> else p), g)
      else if extractAttr line ''ice-pwd'' \<noteq> '''' then
        (Inr (if sdp_icePwd p = '''' then p\<lparr>sdp_icePwd := extractAttr line ''ice-pwd''\<rparr> else p), g)
      else if extractAttr line ''fingerprint'' \<noteq> '''' then
        (let val = extractAttr line ''fingerprint''
         in (Inr (if sdp_fingerprint p = ''''
                  then p\<lparr>sdp_fingerprint := (case split_blank val of None \<Rightarrow> val | Some (_, r) \<Rightarrow> r)\<rparr>
                  else p), g))
      else if sections p = [] then (Inr p, g)
      else section_line line p g)"

fun offer_loop ::
  "string list \<Rightarrow> sdp_parser \<Rightarrow> sdp_globals \<Rightarrow> (int_error + sdp_parser) \<times> sdp_globals" where
  "offer_loop [] p g = (Inr p, g)"
| "offer_loop (raw # lines) p g =
     (case clean_line raw of None \<Rightarrow> offer_loop lines p g
      | Some line \<Rightarrow>
          (case offer_line line p g of
             (Inl e, g') \<Rightarrow> (Inl e, g')
           | (Inr p', g') \<Rightarrow> offer_loop lines p' g'))"

definition parseOffer ::
  "string \<Rightarrow> sdp_parser \<Rightarrow> sdp_globals \<Rightarrow> (int_error + bool \<times> sdp_parser) \<times> sdp_globals" where
  "parseOffer sdp p g =
     (case offer_loop (getlines sdp) (p\<lparr>sections := []\<rparr>) g of
        (Inl e, g') \<Rightarrow> (Inl e, g')
      | (Inr p', g') \<Rightarrow>
          (Inr (sdp_iceUfrag p' \<noteq> '''' \<and> sdp_fingerprint p' \<noteq> '''' \<and> sections p' \<noteq> [], p'), g'))"

section \<open>Generating the answer\<close>

definition crlf :: string where
  "crlf = [CHR 0x0D, CHR 0x0A]"

definition or_default :: "string \<Rightarrow> string \<Rightarrow> string" where
  "or_default s d = (if s = '''' then d else s)"

definition offer_direction :: "media_section \<Rightarrow> string" where
  "offer_direction sec = or_default (sec_direction sec) ''sendrecv''"

definition answer_direction :: "string \<Rightarrow> string" where
  "answer_direction d =
     (if d = ''sendrecv'' then ''sendrecv''
      else if d = ''sendonly'' then ''recvonly''
      else if d = ''recvonly'' then ''sendonly''
      else ''inactive'')"

definition show_port :: "int \<Rightarrow> string" where
  "show_port n = (if n < 0 then ''-'' @ show_nat (nat (- n)) else show_nat (nat n))"

definition answer_port :: "sdp_parser \<Rightarrow> int" where
  "answer_port p = (if 0 < serverPort p then serverPort p else 10000)"

definition ssrc_lines :: "u32 \<Rightarrow> string list" where
  "ssrc_lines ssrc = (let n = show_nat (unat ssrc) in
     [''a=ssrc:'' @ n @ '' cname:namecon'',
      ''a=ssrc:'' @ n @ '' msid:namecon namecon'' @ n,
      ''a=ssrc:'' @ n @ '' mslabel:namecon'',
      ''a=ssrc:'' @ n @ '' label:namecon'' @ n])"

definition answer_header :: "sdp_parser \<Rightarrow> string list" where
  "answer_header p =
     [''v=0'', ''o=- 0 0 IN IP4 '' @ or_default (serverIp p) ''127.0.0.1'', ''s=NameCon'', ''t=0 0'',
      ''a=group:BUNDLE'' @ concat (map (\<lambda>sec. '' '' @ sec_mid sec) (sections p)),
      ''a=msid-semantic: WMS'', ''a=ice-lite'']"

definition section_head :: "sdp_parser \<Rightarrow> media_section \<Rightarrow> string list" where
  "section_head p sec =
     [''m='' @ sec_type sec @ '' 9 UDP/TLS/RTP/SAVPF '' @ sec_ptList sec,
      ''c=IN IP4 0.0.0.0'',
      ''a=ice-ufrag:'' @ or_default (serverUfrag p) ''sfu_default'',
      ''a=ice-pwd:'' @ or_default (serverPwd p) ''default_pwd'',
      ''a=candidate:1 1 UDP 2130706433 '' @ or_default (serverIp p) ''127.0.0.1'' @ '' ''
        @ show_port (answer_port p) @ '' typ host'',
      ''a=rtcp:9 IN IP4 0.0.0.0'',
      ''a=fingerprint:sha-256 '' @ or_default (serverFingerprint p) ''00:00:00:00:00'',
      ''a=setup:passive'', ''a=rtcp-mux'', ''a=mid:'' @ sec_mid sec,
      ''a='' @ answer_direction (offer_direction sec)]"

definition section_ssrc :: "sdp_parser \<Rightarrow> media_section \<Rightarrow> string list" where
  "section_ssrc p sec =
     (if offer_direction sec = ''recvonly''
      then (case midSsrc p (sec_mid sec) of None \<Rightarrow> [] | Some ssrc \<Rightarrow> ssrc_lines ssrc) else [])"

definition answer_section :: "sdp_parser \<Rightarrow> media_section \<Rightarrow> string list" where
  "answer_section p sec = section_head p sec @ sec_codecLines sec @ section_ssrc p sec"

definition answer_lines :: "sdp_parser \<Rightarrow> string list" where
  "answer_lines p = answer_header p @ concat (map (answer_section p) (sections p))"

definition generateAnswer ::
  "string \<Rightarrow> sdp_parser \<Rightarrow> sdp_globals \<Rightarrow> (int_error + string \<times> sdp_parser) \<times> sdp_globals" where
  "generateAnswer offerSdp p g =
     (case parseOffer offerSdp p g of
        (Inl e, g') \<Rightarrow> (Inl e, g')
      | (Inr (ok, p'), g') \<Rightarrow>
          (Inr (if ok then concat (map (\<lambda>l. l @ crlf) (answer_lines p')) else '''', p'), g'))"

end
