(* ===== verification/Server.thy ===== *)
theory Server
  imports Router Ice Sdp "HOL-Library.AList"
begin

text \<open>
  The server around the router. \<open>transport/PacketRouter.h\<close> and \<open>.cpp\<close>: which datagram goes
  to ICE, DTLS or SRTP, and how an endpoint gets its peer; \<open>transport/UdpServer.h\<close> and \<open>.cpp\<close>:
  the receive loop. The record \<open>server\<close> extends the router's heaps by the members of
  \<open>PacketRouter\<close>, \<open>UdpServer\<close> and \<open>MediaServiceImpl\<close> and by the static members of
  \<open>SdpParser\<close>. A \<open>std::unordered_map\<close> is an association list; where the code takes
  \<open>begin()\<close>, whose element the standard leaves open, the choice is a parameter.
\<close>

record ('s, 'd) server = "('s, 'd) sfu" +
  peerMap :: "(endpoint \<times> nat) list"
  pendingPeers :: "(string \<times> nat) list"
  pr_ice :: "ice_server option"
  pr_router :: bool
  receiving :: bool
  svcPeers :: "(string \<times> nat) list"
  svc_ice :: "ice_server option"
  svc_router :: bool
  svc_pktRouter :: bool
  statics :: sdp_globals

text \<open>What the server is linked with and configured by.\<close>

record ('s, 'd) env =
  srtpL :: "'s srtp_lib"
  dtlsL :: "'d dtls_lib"
  stunL :: stun_lib
  beginOf :: "(string \<times> nat) list \<Rightarrow> nat"
  certFingerprint :: string
  envPublicIp :: "string option"
  cfgPublicIp :: string

section \<open>Who owns a peer\<close>

text \<open>
  The three maps hold \<open>shared_ptr\<close>s. A peer that no map holds any more is destroyed with
  the producers and consumers it owns; raw pointers to it remain where they are.
\<close>

definition owned :: "nat \<Rightarrow> ('s, 'd) server \<Rightarrow> bool" where
  "owned a s \<longleftrightarrow> a \<in> snd ` set (peerMap s) \<or> a \<in> snd ` set (pendingPeers s) \<or> a \<in> snd ` set (svcPeers s)"

definition destroy_peer :: "nat \<Rightarrow> ('s, 'd) server \<Rightarrow> ('s, 'd) server" where
  "destroy_peer a s =
     (case peers s a of None \<Rightarrow> s
      | Some p \<Rightarrow> s\<lparr>peers := (peers s)(a := None), prods := free (producers p) (prods s),
                    conss := free (consumers p) (conss s)\<rparr>)"

text \<open>A \<open>shared_ptr\<close> to \<open>a\<close> is gone; \<^const>\<open>None\<close> is an empty one.\<close>

definition release :: "nat option \<Rightarrow> ('s, 'd) server \<Rightarrow> ('s, 'd) server" where
  "release q s = (case q of None \<Rightarrow> s | Some a \<Rightarrow> if owned a s then s else destroy_peer a s)"

section \<open>Peers and endpoints\<close>

definition setIceServer :: "ice_server option \<Rightarrow> ('s, 'd) server \<Rightarrow> ('s, 'd) server" where
  "setIceServer i s = s\<lparr>pr_ice := i\<rparr>"

definition setRouter :: "bool \<Rightarrow> ('s, 'd) server \<Rightarrow> ('s, 'd) server" where
  "setRouter b s = s\<lparr>pr_router := b\<rparr>"

text \<open>\<open>PacketRouter::registerPeer\<close>, for the peer at \<open>a\<close>.\<close>

definition pkt_registerPeer :: "nat \<Rightarrow> ('s, 'd) server \<Rightarrow> ('s, 'd) server option" where
  "pkt_registerPeer a s = do {
     p \<leftarrow> peers s a;
     let old = map_of (pendingPeers s) (peerId p);
     Some (release old (s\<lparr>pendingPeers := AList.update (peerId p) a (pendingPeers s)\<rparr>))
   }"

text \<open>The element \<open>begin()\<close> of a container that is not empty and the container without it.\<close>

definition take_begin :: "('a list \<Rightarrow> nat) \<Rightarrow> 'a list \<Rightarrow> 'a \<times> 'a list" where
  "take_begin pick xs = (let i = pick xs mod length xs in (xs ! i, take i xs @ drop (Suc i) xs))"

definition getOrCreatePeer ::
  "('s, 'd) env \<Rightarrow> endpoint \<Rightarrow> ('s, 'd) server \<Rightarrow> (nat \<times> ('s, 'd) server) option" where
  "getOrCreatePeer e ep s =
     (case map_of (peerMap s) ep of Some a \<Rightarrow> Some (a, s)
      | None \<Rightarrow> do {
          let (a, s1) =
            (if pendingPeers s \<noteq> [] then
               (let (kv, rest) = take_begin (beginOf e) (pendingPeers s)
                in (snd kv, s\<lparr>pendingPeers := rest\<rparr>))
             else (nextAddr s, alloc_peer new_peer s));
          p \<leftarrow> peers s1 a;
          Some (a, s1\<lparr>peers := (peers s1)(a \<mapsto> p\<lparr>remoteEp := ep\<rparr>),
                      peerMap := AList.update ep a (peerMap s1)\<rparr>)
        })"

section \<open>The handlers\<close>

definition handleStun ::
  "('s, 'd) env \<Rightarrow> u8 list \<Rightarrow> endpoint \<Rightarrow> ('s, 'd) server \<Rightarrow> ('s, 'd) server" where
  "handleStun e data ep s =
     (case pr_ice s of None \<Rightarrow> s
      | Some ice \<Rightarrow> s\<lparr>sent := sent s @ onStunPacket (stunL e) ice data ep\<rparr>)"

text \<open>One turn of the loop of \<open>sendPLItoAllPeers\<close>, for the producer at \<open>r\<close>.\<close>

definition pli_to_publisher ::
  "'s srtp_lib \<Rightarrow> nat \<Rightarrow> nat \<Rightarrow> ('s, 'd) server \<Rightarrow> ('s, 'd) server option" where
  "pli_to_publisher lib newPeer r s = do {
     prod \<leftarrow> prods s r;
     if p_publisher prod = newPeer then Some s
     else do {
       pub \<leftarrow> peers s (p_publisher prod);
       if srtp pub = None then Some s
       else if p_originalSsrc prod = 0 then Some s
       else do {
         (b, s') \<leftarrow> sendProtectedRtcp lib 64 (pli_bytes 0 (p_originalSsrc prod)) (p_publisher prod) s;
         Some s'
       }
     }
   }"

definition sendPLItoAllPeers ::
  "'s srtp_lib \<Rightarrow> nat \<Rightarrow> ('s, 'd) server \<Rightarrow> ('s, 'd) server option" where
  "sendPLItoAllPeers lib newPeer s =
     (if \<not> pr_router s then Some s
      else do {
        producers \<leftarrow> getAllVideoProducers s;
        foldM (pli_to_publisher lib newPeer) producers s
      })"

text \<open>The context a packet of the handshake is handled with.\<close>

definition session_of :: "'d dtls_lib \<Rightarrow> endpoint \<Rightarrow> ('s, 'd) peer \<Rightarrow> 'd dtls_ctx" where
  "session_of lib ep p =
     (case dtls p of None \<Rightarrow> dtls_setSendCallback ep (dtls_new lib) | Some ctx \<Rightarrow> ctx)"

definition handleDtls ::
  "('s, 'd) env \<Rightarrow> u8 list \<Rightarrow> endpoint \<Rightarrow> ('s, 'd) server \<Rightarrow> ('s, 'd) server option" where
  "handleDtls e data ep s = do {
     (a, s1) \<leftarrow> getOrCreatePeer e ep s;
     p \<leftarrow> peers s1 a;
     let ctx = session_of (dtlsL e) ep p;
     let (ctx', out, r) = handlePacket (dtlsL e) data ctx;
     let s2 = s1\<lparr>peers := (peers s1)(a \<mapsto> p\<lparr>dtls := Some ctx'\<rparr>), sent := sent s1 @ out\<rparr>;
     if \<not> handshakeDone ctx \<and> handshakeDone ctx' then
       (let keys = exportSrtpKeys (dtlsL e) ctx';
            (ok, srtp') = srtp_init (srtpL e) keys srtp_new
        in if keys \<noteq> [] \<and> ok
           then sendPLItoAllPeers (srtpL e) a
                  (s2\<lparr>peers := modify a (\<lambda>x. x\<lparr>srtp := Some srtp'\<rparr>) (peers s2)\<rparr>)
           else Some s2)
     else Some s2
   }"

text \<open>
  The packet is decrypted in a copy of 65536 bytes: as RTP, and if that fails as RTCP. The
  peer has the context \<open>ctx\<close>.
\<close>

datatype plain = Plain_rtp "u8 list" | Plain_rtcp "u8 list" | Rejected

definition decrypt ::
  "'s srtp_lib \<Rightarrow> u8 list \<Rightarrow> nat \<Rightarrow> 's srtp_ctx \<Rightarrow> ('s, 'd) server \<Rightarrow> (plain \<times> ('s, 'd) server) option" where
  "decrypt lib data a ctx s =
     (if 65536 < length data then None
      else do {
        (ctx1, rtp) \<leftarrow> unprotect lib 65536 data ctx;
        let s1 = s\<lparr>peers := modify a (\<lambda>x. x\<lparr>srtp := Some ctx1\<rparr>) (peers s)\<rparr>;
        case rtp of Some pkt \<Rightarrow> Some (Plain_rtp pkt, s1)
        | None \<Rightarrow> do {
            (ctx2, rtcp) \<leftarrow> unprotectRtcp lib 65536 data ctx1;
            let s2 = s1\<lparr>peers := modify a (\<lambda>x. x\<lparr>srtp := Some ctx2\<rparr>) (peers s1)\<rparr>;
            Some (case rtcp of None \<Rightarrow> Rejected | Some pkt \<Rightarrow> Plain_rtcp pkt, s2)
          }
      })"

definition dispatch ::
  "'s srtp_lib \<Rightarrow> plain \<Rightarrow> nat \<Rightarrow> ('s, 'd) server \<Rightarrow> ('s, 'd) server option" where
  "dispatch lib pl a s =
     (if \<not> pr_router s then Some s
      else case pl of
        Plain_rtp pkt \<Rightarrow> onRtpPacket lib (g_videoPTs (statics s)) pkt a s
      | Plain_rtcp pkt \<Rightarrow> onRtcpPacket lib pkt a s
      | Rejected \<Rightarrow> Some s)"

definition handleSrtp ::
  "('s, 'd) env \<Rightarrow> u8 list \<Rightarrow> endpoint \<Rightarrow> ('s, 'd) server \<Rightarrow> ('s, 'd) server option" where
  "handleSrtp e data ep s = do {
     (a, s1) \<leftarrow> getOrCreatePeer e ep s;
     p \<leftarrow> peers s1 a;
     case srtp p of None \<Rightarrow> Some s1
     | Some ctx \<Rightarrow> do {
         (pl, s2) \<leftarrow> decrypt (srtpL e) data a ctx s1;
         dispatch (srtpL e) pl a s2
       }
   }"

section \<open>Demultiplexing\<close>

datatype protocol = Stun | Dtls | Srtp | Unknown

text \<open>The tests of \<open>onPacket\<close>, for a datagram that is not empty.\<close>

definition classify :: "u8 list \<Rightarrow> protocol" where
  "classify data =
     (if 20 \<le> length data \<and> data ! 0 = 0 \<and> data ! 1 \<le> 3 \<and> at32 data 4 = 0x2112A442 then Stun
      else if 20 \<le> data ! 0 \<and> data ! 0 \<le> 64 then Dtls
      else if 128 \<le> data ! 0 then Srtp
      else Unknown)"

definition onPacket ::
  "('s, 'd) env \<Rightarrow> u8 list \<Rightarrow> endpoint \<Rightarrow> ('s, 'd) server \<Rightarrow> ('s, 'd) server option" where
  "onPacket e data ep s =
     (if length data < 1 then Some s
      else case classify data of
        Stun \<Rightarrow> Some (handleStun e data ep s)
      | Dtls \<Rightarrow> handleDtls e data ep s
      | Srtp \<Rightarrow> handleSrtp e data ep s
      | Unknown \<Rightarrow> Some s)"

section \<open>The receive loop\<close>

text \<open>
  \<open>receiving\<close>: an asynchronous receive is pending. Its completion is either an error code
  or a datagram, of which \<open>_recvBuffer\<close> holds the first 65536 bytes.
\<close>

definition startReceive :: "('s, 'd) server \<Rightarrow> ('s, 'd) server" where
  "startReceive s = s\<lparr>receiving := True\<rparr>"

definition onReceive ::
  "('s, 'd) env \<Rightarrow> bool \<Rightarrow> u8 list \<Rightarrow> endpoint \<Rightarrow> ('s, 'd) server \<Rightarrow> ('s, 'd) server option" where
  "onReceive e ec datagram ep s =
     (if ec then Some (s\<lparr>receiving := False\<rparr>)
      else do {
        s' \<leftarrow> onPacket e (take 65536 datagram) ep (s\<lparr>receiving := False\<rparr>);
        Some (startReceive s')
      })"

end
