(* ===== verification/Service.thy ===== *)
theory Service
  imports Server
begin

text \<open>
  \<open>grpc/MediaServiceImpl.h\<close> and \<open>.cpp\<close>: the calls the signalling service makes, and
  \<open>MediaServer::setupComponents\<close> of \<open>core/MediaServer.cpp\<close>, which puts the parts together.
  A call takes the fields of its request and returns the fields of its response or a
  gRPC status that is not OK. An exception of \<open>std::stoi\<close> leaves \<open>SendOffer\<close>.
\<close>

section \<open>Helpers\<close>

text \<open>\<open>getPublicIp\<close>: the environment variable, the configuration, the default.\<close>

definition getPublicIp :: "('s, 'd) env \<Rightarrow> string" where
  "getPublicIp e =
     (let cfg = (if cfgPublicIp e \<noteq> '''' then cfgPublicIp e else ''127.0.0.1'')
      in case envPublicIp e of None \<Rightarrow> cfg | Some ip \<Rightarrow> if ip \<noteq> '''' then ip else cfg)"

definition text_of :: "u8 list \<Rightarrow> string" where
  "text_of bs = map (\<lambda>b. char_of (unat b)) bs"

definition findPeer :: "string \<Rightarrow> ('s, 'd) server \<Rightarrow> nat option" where
  "findPeer k s = map_of (svcPeers s) k"

definition setServiceRouter :: "bool \<Rightarrow> ('s, 'd) server \<Rightarrow> ('s, 'd) server" where
  "setServiceRouter b s = s\<lparr>svc_router := b\<rparr>"

definition setServiceIce :: "ice_server option \<Rightarrow> ('s, 'd) server \<Rightarrow> ('s, 'd) server" where
  "setServiceIce i s = s\<lparr>svc_ice := i\<rparr>"

definition setPacketRouter :: "bool \<Rightarrow> ('s, 'd) server \<Rightarrow> ('s, 'd) server" where
  "setPacketRouter b s = s\<lparr>svc_pktRouter := b\<rparr>"

section \<open>Calls\<close>

datatype grpc_status = NOT_FOUND | UNIMPLEMENTED

text \<open>The generator yields \<open>g\<close>.\<close>

definition CreateRoom :: "u32 \<Rightarrow> string \<times> string" where
  "CreateRoom g = (let roomId = show_nat (unat (uniform_u32 100000 999999 g))
     in (roomId, ''token_'' @ roomId))"

record add_peer_resp =
  sfu_ip :: string
  sfu_port :: int
  ice_ufrag :: string
  ice_pwd :: string
  dtls_fingerprint :: string

definition AddPeer ::
  "('s, 'd) env \<Rightarrow> string \<Rightarrow> ('s, 'd) server \<Rightarrow> (add_peer_resp \<times> ('s, 'd) server) option" where
  "AddPeer e k s = do {
     let a = nextAddr s;
     let s1 = alloc_peer (new_peer\<lparr>peerId := k\<rparr>) s;
     let old = map_of (svcPeers s1) k;
     let s2 = release old (s1\<lparr>svcPeers := AList.update k a (svcPeers s1)\<rparr>);
     s3 \<leftarrow> (if svc_pktRouter s2 then pkt_registerPeer a s2 else Some s2);
     Some (\<lparr>sfu_ip = getPublicIp e, sfu_port = 10000,
            ice_ufrag = (case svc_ice s3 of None \<Rightarrow> '''' | Some i \<Rightarrow> text_of (iceUfrag i)),
            ice_pwd = (case svc_ice s3 of None \<Rightarrow> '''' | Some i \<Rightarrow> text_of (icePwd i)),
            dtls_fingerprint = certFingerprint e\<rparr>, s3)
   }"

text \<open>A media line the browser wants to receive on: publisher, kind, mid.\<close>

record recv_mid =
  rm_publisher :: string
  rm_isVideo :: bool
  rm_mid :: string

definition bind_recv_mid ::
  "nat \<Rightarrow> recv_mid \<Rightarrow> (string \<rightharpoonup> u32) \<times> ('s, 'd) server
   \<Rightarrow> ((string \<rightharpoonup> u32) \<times> ('s, 'd) server) option" where
  "bind_recv_mid sub rm x = do {
     (ssrc, s') \<leftarrow> bindConsumerByMid sub (rm_publisher rm) (rm_isVideo rm) (rm_mid rm) (snd x);
     Some (if ssrc \<noteq> 0 then (fst x)(rm_mid rm \<mapsto> ssrc) else fst x, s')
   }"

text \<open>The map of mids to SSRCs that the answer is generated with.\<close>

definition offer_bindings ::
  "string \<Rightarrow> recv_mid list \<Rightarrow> ('s, 'd) server \<Rightarrow> ((string \<rightharpoonup> u32) \<times> ('s, 'd) server) option" where
  "offer_bindings k rms s =
     (case findPeer k s of None \<Rightarrow> Some (Map.empty, s)
      | Some sub \<Rightarrow>
          if \<not> svc_router s then Some (Map.empty, s)
          else do {
            (m, s1) \<leftarrow> foldM (bind_recv_mid sub) rms (Map.empty, s);
            bound \<leftarrow> getAllBoundSsrcs sub s1;
            Some (m ++ bound, s1)
          })"

definition offer_parser :: "('s, 'd) env \<Rightarrow> ('s, 'd) server \<Rightarrow> sdp_parser" where
  "offer_parser e s =
     (case svc_ice s of None \<Rightarrow> parser_new
      | Some i \<Rightarrow> setServerInfo (getPublicIp e) 10000 (text_of (iceUfrag i)) (text_of (icePwd i))
                   (certFingerprint e) parser_new)"

definition SendOffer ::
  "('s, 'd) env \<Rightarrow> string \<Rightarrow> string \<Rightarrow> recv_mid list \<Rightarrow> ('s, 'd) server
   \<Rightarrow> ((int_error + string) \<times> ('s, 'd) server) option" where
  "SendOffer e k sdp rms s = do {
     let parser = offer_parser e s;
     (m, s1) \<leftarrow> offer_bindings k rms s;
     let (r, g) = generateAnswer sdp (setMidSsrcMap m parser) (statics s1);
     Some (map_sum id fst r, s1\<lparr>statics := g\<rparr>)
   }"

definition AddConsumer ::
  "string \<Rightarrow> string \<Rightarrow> bool \<Rightarrow> ('s, 'd) server \<Rightarrow> ((grpc_status + u32) \<times> ('s, 'd) server) option" where
  "AddConsumer sub pub isVideo s =
     (case (findPeer sub s, findPeer pub s) of
        (Some a, Some b) \<Rightarrow>
          if svc_router s
          then do { (ssrc, s') \<leftarrow> addConsumer a b isVideo s; Some (Inr ssrc, s') }
          else Some (Inr 0, s)
      | _ \<Rightarrow> Some (Inl NOT_FOUND, s))"

definition RemoveConsumer :: "('s, 'd) server \<Rightarrow> bool \<times> ('s, 'd) server" where
  "RemoveConsumer s = (True, s)"

text \<open>The local \<open>shared_ptr\<close> keeps the peer alive until the end of the call.\<close>

definition RemovePeer :: "string \<Rightarrow> ('s, 'd) server \<Rightarrow> (bool \<times> ('s, 'd) server) option" where
  "RemovePeer k s =
     (case findPeer k s of None \<Rightarrow> Some (True, s)
      | Some a \<Rightarrow> do {
          let s1 = s\<lparr>svcPeers := AList.delete k (svcPeers s)\<rparr>;
          s2 \<leftarrow> (if svc_router s1 then removePeer a s1 else Some s1);
          Some (True, release (Some a) s2)
        })"

text \<open>The calls that are not implemented, and the one that has nothing to do.\<close>

definition DestroyRoom :: "grpc_status + unit" where
  "DestroyRoom = Inl UNIMPLEMENTED"

definition SendIceCandidate :: "grpc_status + unit" where
  "SendIceCandidate = Inr ()"

definition MuteTrack :: "grpc_status + unit" where
  "MuteTrack = Inl UNIMPLEMENTED"

definition GetRoomStats :: "grpc_status + unit" where
  "GetRoomStats = Inl UNIMPLEMENTED"

section \<open>Assembly\<close>

text \<open>The constructors: nothing is connected yet.\<close>

definition server_new :: "(nat \<Rightarrow> u32) \<Rightarrow> ('s, 'd) server" where
  "server_new gen = sfu.extend (sfu_init gen)
     \<lparr>peerMap = [], pendingPeers = [], pr_ice = None, pr_router = False, receiving = False,
      svcPeers = [], svc_ice = None, svc_router = False, svc_pktRouter = False,
      statics = globals_init\<rparr>"

text \<open>\<open>setupComponents\<close>, with the generators of the ICE credentials and of the SSRCs.\<close>

definition setupComponents :: "(nat \<Rightarrow> u32) \<Rightarrow> nat \<Rightarrow> (nat \<Rightarrow> u32) \<Rightarrow> ('s, 'd) server" where
  "setupComponents iceGen pos gen =
     (let ice = ice_setSendCallback (ice_new iceGen pos);
          s1 = setRouter True (setIceServer (Some ice) (server_new gen));
          s2 = startReceive s1
      in setPacketRouter True (setServiceIce (Some ice) (setServiceRouter True s2)))"

end
