(* ===== verification/RouterFrame.thy ===== *)
theory RouterFrame
  imports Router
begin

text \<open>
  What no operation of the router touches: the identity, endpoint and DTLS session of a
  peer and whether it has SRTP keys, the set of peers, the datagrams already sent and whatever the state is extended
  by. An operation for a packet of the peers in \<open>A\<close> gives producers to no other peer.
\<close>

definition peer_frame :: "bool \<Rightarrow> ('s, 'd) peer \<Rightarrow> ('s, 'd) peer \<Rightarrow> bool" where
  "peer_frame w p q \<longleftrightarrow> peerId q = peerId p \<and> remoteEp q = remoteEp p \<and> dtls q = dtls p \<and>
     (producers p = [] \<longrightarrow> w \<or> producers q = []) \<and> (srtp p = None \<longleftrightarrow> srtp q = None)"

definition frame :: "nat set \<Rightarrow> ('s, 'd, 'z) sfu_scheme \<Rightarrow> ('s, 'd, 'z) sfu_scheme \<Rightarrow> bool" where
  "frame A s t \<longleftrightarrow> sfu.more t = sfu.more s \<and> (\<exists>out. sent t = sent s @ out) \<and>
     (\<forall>b. rel_option (peer_frame (b \<in> A)) (peers s b) (peers t b))"

lemma peer_frame_refl [simp]: "peer_frame w p p"
  by (simp add: peer_frame_def)

lemma frame_refl [simp]: "frame A s s"
  by (simp add: frame_def option.rel_refl)

lemma frame_trans: "frame A s t \<Longrightarrow> frame A t u \<Longrightarrow> frame A s u"
proof -
  assume st: "frame A s t" and tu: "frame A t u"
  have "rel_option (peer_frame (b \<in> A)) (peers s b) (peers u b)" for b
  proof -
    have "rel_option (peer_frame (b \<in> A)) (peers s b) (peers t b)"
      "rel_option (peer_frame (b \<in> A)) (peers t b) (peers u b)"
      using st tu by (simp_all add: frame_def)
    then show ?thesis
      by (cases "peers s b"; cases "peers t b"; cases "peers u b") (auto simp: peer_frame_def)
  qed
  moreover have "\<exists>out. sent u = sent s @ out" using st tu by (auto simp: frame_def)
  ultimately show ?thesis using st tu by (simp add: frame_def)
qed

lemma frame_mono: "frame A s t \<Longrightarrow> A \<subseteq> B \<Longrightarrow> frame B s t"
proof -
  assume f: "frame A s t" and sub: "A \<subseteq> B"
  have "rel_option (peer_frame (b \<in> B)) (peers s b) (peers t b)" for b
  proof -
    have "rel_option (peer_frame (b \<in> A)) (peers s b) (peers t b)" using f by (simp add: frame_def)
    then show ?thesis
      by (rule option.rel_mono_strong) (use sub in \<open>auto simp: peer_frame_def\<close>)
  qed
  with f show ?thesis by (simp add: frame_def)
qed

text \<open>A step that writes through one peer pointer.\<close>

lemma frame_modify:
  assumes "sfu.more t = sfu.more s" "\<exists>out. sent t = sent s @ out" "peers t = modify a f (peers s)"
    and "\<And>p. peers s a = Some p \<Longrightarrow> peer_frame (a \<in> A) p (f p)"
  shows "frame A s t"
proof -
  have "rel_option (peer_frame (b \<in> A)) (peers s b) (peers t b)" for b
    using assms(3,4) by (cases "peers s b") (auto simp: option.rel_refl)
  with assms(1,2) show ?thesis by (simp add: frame_def)
qed

lemma frame_same:
  assumes "sfu.more t = sfu.more s" "\<exists>out. sent t = sent s @ out" "peers t = peers s"
  shows "frame A s t"
  using assms by (simp add: frame_def option.rel_refl)

lemma foldM_frame:
  assumes "\<And>x s s'. f x s = Some s' \<Longrightarrow> frame A s s'" "foldM f xs s = Some s'"
  shows "frame A s s'"
  using assms(2)
proof (induction xs arbitrary: s)
  case (Cons x xs)
  then obtain s1 where "f x s = Some s1" "foldM f xs s1 = Some s'"
    by (auto simp: Option.bind_eq_Some_conv)
  with Cons.IH assms(1) show ?case by (blast intro: frame_trans)
qed simp

text \<open>What a frame preserves.\<close>

lemma frame_peer:
  assumes "frame A s t" "peers s b = Some p"
  shows "\<exists>q. peers t b = Some q \<and> peer_frame (b \<in> A) p q"
proof -
  have "rel_option (peer_frame (b \<in> A)) (peers s b) (peers t b)" using assms(1) by (simp add: frame_def)
  then show ?thesis using assms(2) by (cases "peers t b") auto
qed

lemma frame_peer_back:
  assumes "frame A s t" "peers t b = Some q"
  shows "\<exists>p. peers s b = Some p \<and> peer_frame (b \<in> A) p q"
proof -
  have "rel_option (peer_frame (b \<in> A)) (peers s b) (peers t b)" using assms(1) by (simp add: frame_def)
  then show ?thesis using assms(2) by (cases "peers s b") auto
qed

lemma frame_dom: "frame A s t \<Longrightarrow> dom (peers t) = dom (peers s)"
  using frame_peer frame_peer_back by (fastforce simp: dom_def)

lemma frame_peerId: "frame A s t \<Longrightarrow> map_option peerId (peers t b) = map_option peerId (peers s b)"
  using frame_peer [of A s t b] frame_peer_back [of A s t b]
  by (cases "peers s b"; cases "peers t b") (auto simp: peer_frame_def)

section \<open>The operations\<close>

lemma sendProtectedRtcp_frame:
  assumes "sendProtectedRtcp lib cap pkt p s = Some (b, s')"
  shows "frame A s s'"
proof -
  obtain pe where pe: "peers s p = Some pe" using assms by (auto simp: sendProtectedRtcp_def Option.bind_eq_Some_conv)
  show ?thesis
  proof (cases "srtp pe")
    case None
    then show ?thesis using assms pe by (simp add: sendProtectedRtcp_def)
  next
    case (Some ctx)
    then obtain ctx' r where "protectRtcp lib cap pkt ctx = Some (ctx', r)"
      using assms pe by (auto simp: sendProtectedRtcp_def Option.bind_eq_Some_conv)
    then show ?thesis
      using assms pe Some
      by (intro frame_modify [where a = p and f = "\<lambda>x. x\<lparr>srtp := Some ctx'\<rparr>"])
        (auto simp: sendProtectedRtcp_def Let_def peer_frame_def split: option.splits)
  qed
qed

lemma link_if_waiting_frame: "link_if_waiting from v ssrc r c s = Some s' \<Longrightarrow> frame A s s'"
  by (rule frame_same)
    (auto simp: link_if_waiting_def link_consumer_def Option.bind_eq_Some_conv split: if_splits)

lemma link_waiting_frame: "link_waiting from v ssrc r s = Some s' \<Longrightarrow> frame A s s'"
  unfolding link_waiting_def
  by (erule foldM_frame [rotated])
    (auto simp: Option.bind_eq_Some_conv intro: foldM_frame link_if_waiting_frame)

lemma findOrCreateProducer_frame:
  assumes "findOrCreateProducer lib a ssrc v s = Some (r, s')"
  shows "frame {a} s s'"
proof -
  obtain f where f: "findProducer a ssrc s = Some f"
    using assms by (auto simp: findOrCreateProducer_def Option.bind_eq_Some_conv)
  show ?thesis
  proof (cases f)
    case (Some x)
    then show ?thesis using assms f by (simp add: findOrCreateProducer_def)
  next
    case None
    define s1 where "s1 = s\<lparr>nextAddr := Suc (nextAddr s),
      prods := (prods s)(nextAddr s \<mapsto> new_producer a ssrc v),
      peers := modify a (\<lambda>p. p\<lparr>producers := producers p @ [nextAddr s]\<rparr>) (peers s),
      routes := route_bind ssrc a (routes s)\<rparr>"
    have "frame {a} s s1"
      by (rule frame_modify [where a = a and f = "\<lambda>p. p\<lparr>producers := producers p @ [nextAddr s]\<rparr>"])
        (simp_all add: s1_def peer_frame_def)
    moreover have "findOrCreateProducer lib a ssrc v s
      = (if v then do { (b, s') \<leftarrow> sendProtectedRtcp lib 64 (pli_bytes 0 ssrc) a s1; Some s' }
         else Some s1) \<bind> (\<lambda>s2. link_waiting a v ssrc (nextAddr s) s2 \<bind> (\<lambda>s3. Some (nextAddr s, s3)))"
      by (simp add: findOrCreateProducer_def f None Let_def s1_def)
    from assms [unfolded this] obtain s2 where "frame {a} s1 s2" "link_waiting a v ssrc (nextAddr s) s2 = Some s'"
      using sendProtectedRtcp_frame [of lib 64 "pli_bytes 0 ssrc" a s1 _ _ "{a}"]
      by (auto simp: Option.bind_eq_Some_conv split: if_splits) (metis frame_refl)
    ultimately show ?thesis using link_waiting_frame frame_trans by metis
  qed
qed

lemma rtp_targets_frame:
  assumes "rtp_targets lib vpts pkt a s = Some (ts, s')"
  shows "frame {a} s s'"
proof (cases "rtp_parse pkt")
  case None
  then show ?thesis using assms by (simp add: rtp_targets_def)
next
  case (Some hdr)
  obtain f where f: "findProducer a (h_ssrc hdr) s = Some f"
    using assms Some by (auto simp: rtp_targets_def Let_def Option.bind_eq_Some_conv)
  show ?thesis
  proof (cases f)
    case None
    then show ?thesis
      using assms Some f findOrCreateProducer_frame
      by (fastforce simp: rtp_targets_def Let_def Option.bind_eq_Some_conv)
  next
    case (Some r)
    then show ?thesis
      using assms \<open>rtp_parse pkt = Some hdr\<close> f
      by (auto simp: rtp_targets_def Let_def Option.bind_eq_Some_conv)
  qed
qed

lemma rtp_forward_one_frame:
  assumes "rtp_forward_one lib pkt c s = Some s'"
  shows "frame A s s'"
proof -
  obtain cc where cc: "conss s c = Some cc"
    using assms by (auto simp: rtp_forward_one_def Option.bind_eq_Some_conv)
  show ?thesis
  proof (cases "s' = s")
    case False
    then obtain sub where sub: "c_active cc" "c_subscriber cc = Some sub"
      using assms cc by (auto simp: rtp_forward_one_def split: if_splits option.splits)
    with assms cc obtain pe where pe: "peers s sub = Some pe"
      by (auto simp: rtp_forward_one_def Option.bind_eq_Some_conv)
    with assms cc sub False obtain ctx where ctx: "srtp pe = Some ctx" "c_recvMid cc \<noteq> ''''" "\<not> 65536 < length pkt"
      by (auto simp: rtp_forward_one_def split: if_splits option.splits)
    from assms obtain out cc' ctx' r where rw: "rewriteRtpHeader pkt cc = Some (out, cc')"
      "protect lib 65536 out ctx = Some (ctx', r)"
      by (auto simp: rtp_forward_one_def cc sub pe ctx Option.bind_eq_Some_conv)
    show ?thesis
      by (rule frame_modify [where a = sub and f = "\<lambda>x. x\<lparr>srtp := Some ctx'\<rparr>"])
        (use assms in \<open>auto simp: rtp_forward_one_def cc sub pe ctx rw Let_def peer_frame_def split: option.splits\<close>)
  qed simp
qed

lemma onRtpPacket_frame: "onRtpPacket lib vpts pkt a s = Some s' \<Longrightarrow> frame {a} s s'"
  unfolding onRtpPacket_def rtp_forward_def
  by (auto simp: Option.bind_eq_Some_conv
      intro: frame_trans [OF rtp_targets_frame foldM_frame [OF rtp_forward_one_frame]])

lemma feedback_frame:
  assumes "handlePLI lib d p n sub s = Some s' \<or> handleNACK lib d p n sub s = Some s' \<or> handleRR lib d p n sub s = Some s'"
  shows "frame A s s'"
proof -
  have "s' = s \<or> (\<exists>cap pkt q b. sendProtectedRtcp lib cap pkt q s = Some (b, s'))"
    using assms
    by (auto simp: handlePLI_def handleNACK_def handleRR_def Let_def Option.bind_eq_Some_conv
        split: option.splits if_splits)
  then show ?thesis using sendProtectedRtcp_frame by fastforce
qed

lemma router_rtcp_case_frame: "router_rtcp_case lib a d p n s = Some s' \<Longrightarrow> frame A s s'"
  unfolding router_rtcp_case_def Let_def
  by (auto intro: feedback_frame split: if_splits)

lemma router_rtcp_loop_frame: "router_rtcp_loop lib a d off s = Some s' \<Longrightarrow> frame A s s'"
proof (induction lib a d off s rule: router_rtcp_loop.induct)
  case (1 lib a d off s)
  show ?case
  proof (cases "off + 4 \<le> length d \<and> \<not> (rtcp_packetLen d off = 0 \<or> length d < off + rtcp_packetLen d off)")
    case True
    then obtain s1 where s1: "router_rtcp_case lib a d off (rtcp_packetLen d off) s = Some s1"
      "router_rtcp_loop lib a d (off + rtcp_packetLen d off) s1 = Some s'"
      using "1.prems" by (subst (asm) router_rtcp_loop.simps) (auto simp: Option.bind_eq_Some_conv)
    with 1 True show ?thesis by (metis frame_trans router_rtcp_case_frame)
  next
    case False
    then show ?thesis
      using "1.prems" by (subst (asm) router_rtcp_loop.simps) (auto split: if_splits)
  qed
qed

lemma onRtcpPacket_frame: "onRtcpPacket lib d a s = Some s' \<Longrightarrow> frame A s s'"
  unfolding onRtcpPacket_def by (rule router_rtcp_loop_frame)

lemma insert_consumer_frame:
  assumes "insert_consumer a b v s = Some (c, s')"
  shows "frame A s s'"
proof -
  obtain x pos where alloc: "allocateSsrc (ssrcGen s) (ssrcPos s) = Some (x, pos)"
    using assms by (auto simp: insert_consumer_def Option.bind_eq_Some_conv)
  define s1 where "s1 = s\<lparr>ssrcPos := pos, nextAddr := Suc (nextAddr s),
    conss := (conss s)(nextAddr s \<mapsto> new_consumer a b v x)\<rparr>"
  define s2 where "s2 = registerPeer b (registerPeer a s1)"
  define s3 where "s3 = s2\<lparr>outSsrcToConsumer := (outSsrcToConsumer s2)(x \<mapsto> nextAddr s)\<rparr>"
  have s3: "peers s3 = peers s \<and> sent s3 = sent s \<and> sfu.more s3 = sfu.more s"
    by (simp add: s1_def s2_def s3_def registerPeer_def)
  note body = assms [unfolded insert_consumer_def alloc Option.bind.simps prod.case Let_def,
    folded s1_def, folded s2_def, folded s3_def]
  obtain s4 where s': "s' = s4\<lparr>peers := modify a (\<lambda>p. p\<lparr>consumers := consumers p @ [nextAddr s]\<rparr>) (peers s4)\<rparr>"
    and "s4 = s3 \<or> (\<exists>r k. s4 = link_consumer r k (nextAddr s) s3)"
    using body by (auto simp: Option.bind_eq_Some_conv split: option.splits) blast
  then have s4: "peers s4 = peers s \<and> sent s4 = sent s \<and> sfu.more s4 = sfu.more s"
    using s3 by (auto simp: link_consumer_def)
  show ?thesis
    by (rule frame_modify [where a = a and f = "\<lambda>p. p\<lparr>consumers := consumers p @ [nextAddr s]\<rparr>"])
      (simp_all add: s' s4 peer_frame_def)
qed

lemma addConsumer_frame: "addConsumer a b v s = Some (ssrc, s') \<Longrightarrow> frame A s s'"
  by (auto simp: addConsumer_def Option.bind_eq_Some_conv intro: insert_consumer_frame)

lemma detach_subscription_frame: "detach_subscription c s = Some s' \<Longrightarrow> frame A s s'"
  by (rule frame_same) (auto simp: detach_subscription_def Option.bind_eq_Some_conv)

lemma detach_producer_frame: "detach_producer r s = Some s' \<Longrightarrow> frame A s s'"
  unfolding detach_producer_def
  by (auto simp: Option.bind_eq_Some_conv intro: foldM_frame [OF detach_subscription_frame])

lemma detach_consumer_frame: "detach_consumer c s = Some s' \<Longrightarrow> frame A s s'"
  by (rule frame_same)
    (auto simp: detach_consumer_def Option.bind_eq_Some_conv split: option.splits)

lemma removePeer_frame:
  assumes "removePeer a s = Some s'"
  shows "frame A s s'"
proof -
  obtain p s1 where p: "peers s a = Some p" and s1: "foldM detach_producer (producers p) s = Some s1"
    using assms by (auto simp: removePeer_def Option.bind_eq_Some_conv)
  define s2 where "s2 = s1\<lparr>prods := free (producers p) (prods s1),
    peers := modify a (\<lambda>p. p\<lparr>producers := []\<rparr>) (peers s1)\<rparr>"
  obtain s3 where s3: "foldM detach_consumer (consumers p) s2 = Some s3"
    and s': "s' = s3\<lparr>conss := free (consumers p) (conss s3),
      peers := modify a (\<lambda>p. p\<lparr>consumers := []\<rparr>) (peers s3),
      allPeers := removeAll a (allPeers s3), routes := route_unbindPeer a (routes s3)\<rparr>"
    using assms p s1 by (auto simp: removePeer_def Let_def Option.bind_eq_Some_conv s2_def)
  have "frame A s s1" by (rule foldM_frame [OF detach_producer_frame s1])
  moreover have "frame A s1 s2"
    by (rule frame_modify [where a = a and f = "\<lambda>p. p\<lparr>producers := []\<rparr>"]) (simp_all add: s2_def peer_frame_def)
  moreover have "frame A s2 s3" by (rule foldM_frame [OF detach_consumer_frame s3])
  moreover have "frame A s3 s'"
    by (rule frame_modify [where a = a and f = "\<lambda>p. p\<lparr>consumers := []\<rparr>"]) (simp_all add: s' peer_frame_def)
  ultimately show ?thesis by (blast intro: frame_trans)
qed

lemma bindConsumerByMid_frame: "bindConsumerByMid a k v m s = Some (ssrc, s') \<Longrightarrow> frame A s s'"
  by (rule frame_same)
    (auto simp: bindConsumerByMid_def Option.bind_eq_Some_conv split: option.splits)

end
