(* ===== verification/RouterInv.thy ===== *)
theory RouterInv
  imports Router
begin

text \<open>
  The invariant of the router's object graph and its preservation. An operation that
  \<open>runs\<close> from a state with the invariant follows only pointers to live objects and
  stays inside its buffers, and it ends in a state with the invariant.
\<close>

section \<open>The invariant\<close>

text \<open>Each peer owns its producers and consumers, and each of these knows its owner.\<close>

definition inv_peers :: "('s, 'd, 'z) sfu_scheme \<Rightarrow> bool" where
  "inv_peers s \<longleftrightarrow> (\<forall>a p. peers s a = Some p \<longrightarrow>
     distinct (producers p) \<and> distinct (consumers p) \<and>
     (\<forall>r \<in> set (producers p). \<exists>pr. prods s r = Some pr \<and> p_publisher pr = a) \<and>
     (\<forall>c \<in> set (consumers p). \<exists>cc. conss s c = Some cc \<and> c_subscriber cc = Some a))"

text \<open>
  A producer belongs to a live peer, has a non-zero SSRC that no other producer of that
  peer has, and its consumers are live, subscribe to that peer and carry its SSRC and kind.
\<close>

definition inv_prods :: "('s, 'd, 'z) sfu_scheme \<Rightarrow> bool" where
  "inv_prods s \<longleftrightarrow> (\<forall>r pr. prods s r = Some pr \<longrightarrow>
     p_originalSsrc pr \<noteq> 0 \<and> distinct (p_consumers pr) \<and>
     (\<exists>p. peers s (p_publisher pr) = Some p \<and> r \<in> set (producers p)) \<and>
     (\<forall>c \<in> set (p_consumers pr). \<exists>cc. conss s c = Some cc \<and>
        c_publisher cc = Some (p_publisher pr) \<and> c_publisherSsrc cc = p_originalSsrc pr \<and>
        c_isVideo cc = p_isVideo pr))"

definition inv_ssrcs :: "('s, 'd, 'z) sfu_scheme \<Rightarrow> bool" where
  "inv_ssrcs s \<longleftrightarrow> (\<forall>r pr r' pr'. prods s r = Some pr \<longrightarrow> prods s r' = Some pr' \<longrightarrow>
     p_publisher pr = p_publisher pr' \<longrightarrow> p_originalSsrc pr = p_originalSsrc pr' \<longrightarrow> r = r')"

text \<open>A consumer belongs to a live peer and its publisher, if it has one, is live.\<close>

definition inv_conss :: "('s, 'd, 'z) sfu_scheme \<Rightarrow> bool" where
  "inv_conss s \<longleftrightarrow> (\<forall>c cc. conss s c = Some cc \<longrightarrow>
     (\<exists>a p. c_subscriber cc = Some a \<and> peers s a = Some p \<and> c \<in> set (consumers p)) \<and>
     (\<forall>q. c_publisher cc = Some q \<longrightarrow> peers s q \<noteq> None))"

text \<open>
  A consumer with a publisher is either attached to the producer whose SSRC it carries,
  or it waits (SSRC 0) and its publisher has no producer of its kind yet.
\<close>

definition waits_or_linked :: "(nat \<rightharpoonup> producer) \<Rightarrow> nat \<Rightarrow> consumer \<Rightarrow> nat \<Rightarrow> bool" where
  "waits_or_linked ps c cc q \<longleftrightarrow>
     (if c_publisherSsrc cc = 0
      then \<forall>r pr. ps r = Some pr \<longrightarrow> p_publisher pr = q \<longrightarrow> p_isVideo pr \<noteq> c_isVideo cc
      else \<exists>r pr. ps r = Some pr \<and> p_publisher pr = q \<and> p_originalSsrc pr = c_publisherSsrc cc \<and>
             c \<in> set (p_consumers pr))"

definition inv_linked :: "('s, 'd, 'z) sfu_scheme \<Rightarrow> bool" where
  "inv_linked s \<longleftrightarrow> (\<forall>c cc q. conss s c = Some cc \<longrightarrow> c_publisher cc = Some q \<longrightarrow>
     waits_or_linked (prods s) c cc q)"

lemma waits_or_linked_cong:
  "c_isVideo x = c_isVideo y \<Longrightarrow> c_publisherSsrc x = c_publisherSsrc y \<Longrightarrow>
     waits_or_linked ps c x q = waits_or_linked ps c y q"
  by (simp add: waits_or_linked_def)

lemma waits_or_linked_transfer:
  assumes w: "waits_or_linked ps c cc q"
    and down: "\<And>r pr. c_publisherSsrc cc = 0 \<Longrightarrow> ps' r = Some pr \<Longrightarrow> p_publisher pr = q \<Longrightarrow>
      p_isVideo pr = c_isVideo cc \<Longrightarrow> \<exists>r0 pr0. ps r0 = Some pr0 \<and> p_publisher pr0 = q \<and> p_isVideo pr0 = c_isVideo cc"
    and up: "\<And>r pr. ps r = Some pr \<Longrightarrow> p_publisher pr = q \<Longrightarrow> c \<in> set (p_consumers pr) \<Longrightarrow>
      \<exists>pr'. ps' r = Some pr' \<and> p_publisher pr' = q \<and> p_originalSsrc pr' = p_originalSsrc pr \<and>
        c \<in> set (p_consumers pr')"
  shows "waits_or_linked ps' c cc q"
proof (cases "c_publisherSsrc cc = 0")
  case True
  then show ?thesis using w down by (fastforce simp: waits_or_linked_def)
next
  case False
  then obtain r pr where "ps r = Some pr" "p_publisher pr = q"
    "p_originalSsrc pr = c_publisherSsrc cc" "c \<in> set (p_consumers pr)"
    using w by (auto simp: waits_or_linked_def)
  then show ?thesis using up [of r pr] False by (auto simp: waits_or_linked_def)
qed

text \<open>The reverse index finds live consumers by their own outgoing SSRC.\<close>

definition inv_out :: "('s, 'd, 'z) sfu_scheme \<Rightarrow> bool" where
  "inv_out s \<longleftrightarrow> (\<forall>k c. outSsrcToConsumer s k = Some c \<longrightarrow>
     (\<exists>cc. conss s c = Some cc \<and> c_rewrittenSsrc cc = k))"

definition inv_all :: "('s, 'd, 'z) sfu_scheme \<Rightarrow> bool" where
  "inv_all s \<longleftrightarrow> distinct (allPeers s) \<and> (\<forall>a \<in> set (allPeers s). peers s a \<noteq> None) \<and>
     (\<forall>a p. peers s a = Some p \<longrightarrow> consumers p \<noteq> [] \<longrightarrow> a \<in> set (allPeers s))"

definition inv_fresh :: "('s, 'd, 'z) sfu_scheme \<Rightarrow> bool" where
  "inv_fresh s \<longleftrightarrow> (\<forall>a \<ge> nextAddr s. peers s a = None \<and> prods s a = None \<and> conss s a = None)"

text \<open>The two offsets of a consumer are 0.\<close>

definition inv_delta :: "('s, 'd, 'z) sfu_scheme \<Rightarrow> bool" where
  "inv_delta s \<longleftrightarrow> (\<forall>c cc. conss s c = Some cc \<longrightarrow> c_seqDelta cc = 0 \<and> c_tsDelta cc = 0)"

text \<open>The route table leads from an SSRC to a peer that publishes it.\<close>

definition publishes :: "(nat \<rightharpoonup> producer) \<Rightarrow> nat \<Rightarrow> u32 \<Rightarrow> bool" where
  "publishes ps a k \<longleftrightarrow> (\<exists>r pr. ps r = Some pr \<and> p_publisher pr = a \<and> p_originalSsrc pr = k)"

definition inv_routes :: "('s, 'd, 'z) sfu_scheme \<Rightarrow> bool" where
  "inv_routes s \<longleftrightarrow> route_invar (routes s) \<and>
     (\<forall>k a. route_lookup k (routes s) = Some a \<longrightarrow> publishes (prods s) a k)"

lemma publishes_mono:
  assumes "publishes ps a k"
    and "\<And>r pr. ps r = Some pr \<Longrightarrow> p_publisher pr = a \<Longrightarrow>
      \<exists>pr'. ps' r = Some pr' \<and> p_publisher pr' = p_publisher pr \<and> p_originalSsrc pr' = p_originalSsrc pr"
  shows "publishes ps' a k"
  using assms unfolding publishes_def by metis

lemma inv_routes_mono:
  assumes "inv_routes s" "routes t = routes s"
    and "\<And>r pr. prods s r = Some pr \<Longrightarrow>
      \<exists>pr'. prods t r = Some pr' \<and> p_publisher pr' = p_publisher pr \<and> p_originalSsrc pr' = p_originalSsrc pr"
  shows "inv_routes t"
  using assms by (auto simp: inv_routes_def intro: publishes_mono [where ps = "prods s"])

definition router_inv :: "('s, 'd, 'z) sfu_scheme \<Rightarrow> bool" where
  "router_inv s \<longleftrightarrow> inv_peers s \<and> inv_prods s \<and> inv_ssrcs s \<and> inv_conss s \<and> inv_linked s \<and>
     inv_out s \<and> inv_all s \<and> inv_fresh s \<and> inv_delta s \<and> inv_routes s"

lemmas inv_defs = inv_peers_def inv_prods_def inv_ssrcs_def inv_conss_def inv_linked_def
  inv_out_def inv_all_def inv_fresh_def inv_delta_def inv_routes_def

lemma router_inv_init: "router_inv (sfu_init gen)"
  by (simp add: router_inv_def inv_defs sfu_init_def route_invar_def route_lookup_def)

lemma inv_peersD:
  assumes "router_inv s" "peers s a = Some p"
  shows "distinct (producers p)" "distinct (consumers p)"
    and "r \<in> set (producers p) \<Longrightarrow> \<exists>pr. prods s r = Some pr \<and> p_publisher pr = a"
    and "c \<in> set (consumers p) \<Longrightarrow> \<exists>cc. conss s c = Some cc \<and> c_subscriber cc = Some a"
  using assms by (auto simp: router_inv_def inv_peers_def)

lemma inv_prodsD:
  assumes "router_inv s" "prods s r = Some pr"
  shows "p_originalSsrc pr \<noteq> 0" "distinct (p_consumers pr)"
    and "\<exists>p. peers s (p_publisher pr) = Some p \<and> r \<in> set (producers p)"
    and "c \<in> set (p_consumers pr) \<Longrightarrow> \<exists>cc. conss s c = Some cc \<and>
        c_publisher cc = Some (p_publisher pr) \<and> c_publisherSsrc cc = p_originalSsrc pr \<and>
        c_isVideo cc = p_isVideo pr"
  using assms by (auto simp: router_inv_def inv_prods_def)

lemma inv_ssrcsD:
  "router_inv s \<Longrightarrow> prods s r = Some pr \<Longrightarrow> prods s r' = Some pr' \<Longrightarrow>
     p_publisher pr = p_publisher pr' \<Longrightarrow> p_originalSsrc pr = p_originalSsrc pr' \<Longrightarrow> r = r'"
  by (auto simp: router_inv_def inv_ssrcs_def)

lemma inv_conssD:
  assumes "router_inv s" "conss s c = Some cc"
  shows "\<exists>a p. c_subscriber cc = Some a \<and> peers s a = Some p \<and> c \<in> set (consumers p)"
    and "c_publisher cc = Some q \<Longrightarrow> \<exists>p. peers s q = Some p"
    and "c_publisher cc = Some q \<Longrightarrow> waits_or_linked (prods s) c cc q"
    and "c_seqDelta cc = 0" "c_tsDelta cc = 0"
  using assms by (auto simp: router_inv_def inv_conss_def inv_linked_def inv_delta_def)

lemma inv_outD:
  "router_inv s \<Longrightarrow> outSsrcToConsumer s k = Some c \<Longrightarrow>
     \<exists>cc. conss s c = Some cc \<and> c_rewrittenSsrc cc = k"
  by (auto simp: router_inv_def inv_out_def)

lemma inv_allD:
  assumes "router_inv s"
  shows "distinct (allPeers s)" "a \<in> set (allPeers s) \<Longrightarrow> \<exists>p. peers s a = Some p"
    and "peers s a = Some p \<Longrightarrow> consumers p \<noteq> [] \<Longrightarrow> a \<in> set (allPeers s)"
  using assms by (auto simp: router_inv_def inv_all_def)

lemma inv_freshD:
  assumes "router_inv s" "nextAddr s \<le> a"
  shows "peers s a = None" "prods s a = None" "conss s a = None"
  using assms by (auto simp: router_inv_def inv_fresh_def)

lemma inv_routesD:
  assumes "router_inv s"
  shows "route_invar (routes s)" "findPeerBySsrc k s = Some a \<Longrightarrow> publishes (prods s) a k"
  using assms by (auto simp: router_inv_def inv_routes_def findPeerBySsrc_def)

section \<open>Changes that leave the object graph alone\<close>

text \<open>
  The fields of a peer and of a consumer that the invariant talks about. A step that
  changes nothing else keeps the invariant.
\<close>

definition peer_shape :: "('s, 'd) peer \<Rightarrow> nat list \<times> nat list" where
  "peer_shape p = (producers p, consumers p)"

definition cons_shape :: "consumer \<Rightarrow> nat option \<times> nat option \<times> bool \<times> u32 \<times> u32 \<times> bool" where
  "cons_shape c = (c_subscriber c, c_publisher c, c_isVideo c, c_rewrittenSsrc c, c_publisherSsrc c,
     c_seqDelta c = 0 \<and> c_tsDelta c = 0)"

lemma cons_shapeD:
  assumes "cons_shape x = cons_shape y"
  shows "c_subscriber x = c_subscriber y" "c_publisher x = c_publisher y"
    and "c_isVideo x = c_isVideo y" "c_rewrittenSsrc x = c_rewrittenSsrc y"
    and "c_publisherSsrc x = c_publisherSsrc y"
    and "c_seqDelta x = 0 \<and> c_tsDelta x = 0 \<longleftrightarrow> c_seqDelta y = 0 \<and> c_tsDelta y = 0"
  using assms by (simp_all add: cons_shape_def)

definition same_graph :: "('s, 'd, 'z) sfu_scheme \<Rightarrow> ('s, 'd, 'z) sfu_scheme \<Rightarrow> bool" where
  "same_graph s t \<longleftrightarrow>
     (\<forall>a. map_option peer_shape (peers t a) = map_option peer_shape (peers s a)) \<and>
     (\<forall>c. map_option cons_shape (conss t c) = map_option cons_shape (conss s c)) \<and>
     prods t = prods s \<and> nextAddr t = nextAddr s \<and> allPeers t = allPeers s \<and>
     outSsrcToConsumer t = outSsrcToConsumer s \<and> routes t = routes s"

lemma same_graph_refl [simp]: "same_graph s s"
  by (simp add: same_graph_def)

lemma same_graph_trans: "same_graph s t \<Longrightarrow> same_graph t u \<Longrightarrow> same_graph s u"
  by (simp add: same_graph_def)

lemma same_graph_sym: "same_graph s t \<Longrightarrow> same_graph t s"
  by (simp add: same_graph_def)

lemma same_graph_peer:
  assumes "same_graph s t" "peers t a = Some p"
  shows "\<exists>p'. peers s a = Some p' \<and> producers p' = producers p \<and> consumers p' = consumers p"
proof -
  have "map_option peer_shape (peers t a) = map_option peer_shape (peers s a)"
    using assms(1) by (simp add: same_graph_def)
  then show ?thesis using assms(2) by (cases "peers s a") (auto simp: peer_shape_def)
qed

lemma same_graph_cons:
  assumes "same_graph s t" "conss t c = Some cc"
  shows "\<exists>cc'. conss s c = Some cc' \<and> cons_shape cc' = cons_shape cc"
proof -
  have "map_option cons_shape (conss t c) = map_option cons_shape (conss s c)"
    using assms(1) by (simp add: same_graph_def)
  then show ?thesis using assms(2) by (cases "conss s c") auto
qed

lemma same_graph_None:
  assumes "same_graph s t"
  shows "peers s a = None \<longleftrightarrow> peers t a = None" "conss s c = None \<longleftrightarrow> conss t c = None"
  using assms by (metis (no_types) map_option_is_None same_graph_def)+

lemma same_graph_inv:
  assumes sg: "same_graph s t" and inv: "router_inv s"
  shows "router_inv t"
proof -
  note gt = same_graph_peer [OF sg] same_graph_cons [OF sg]
  note gs = same_graph_peer [OF same_graph_sym [OF sg]] same_graph_cons [OF same_graph_sym [OF sg]]
  have eq: "prods t = prods s" "nextAddr t = nextAddr s" "allPeers t = allPeers s"
    "outSsrcToConsumer t = outSsrcToConsumer s"
    using sg by (simp_all add: same_graph_def)
  have cs: "\<exists>cc'. conss t c = Some cc' \<and> cons_shape cc' = cons_shape cc" if "conss s c = Some cc" for c cc
    using gs(2) [OF that] .
  have "inv_peers t"
    unfolding inv_peers_def eq
  proof (intro allI impI)
    fix a p assume "peers t a = Some p"
    then obtain p' where p': "peers s a = Some p'" "producers p' = producers p"
      "consumers p' = consumers p"
      using gt(1) by blast
    have "\<exists>cc. conss t c = Some cc \<and> c_subscriber cc = Some a" if "c \<in> set (consumers p)" for c
      using inv_peersD(4) [OF inv p'(1), of c] that p'(3) cs by (fastforce simp: cons_shape_def)
    then show "distinct (producers p) \<and> distinct (consumers p) \<and>
      (\<forall>r \<in> set (producers p). \<exists>pr. prods s r = Some pr \<and> p_publisher pr = a) \<and>
      (\<forall>c \<in> set (consumers p). \<exists>cc. conss t c = Some cc \<and> c_subscriber cc = Some a)"
      using inv_peersD(1-3) [OF inv p'(1)] p'(2,3) by simp
  qed
  moreover have "inv_prods t"
    unfolding inv_prods_def eq
  proof (intro allI impI)
    fix r pr assume r: "prods s r = Some pr"
    have "\<exists>cc. conss t c = Some cc \<and> c_publisher cc = Some (p_publisher pr) \<and>
        c_publisherSsrc cc = p_originalSsrc pr \<and> c_isVideo cc = p_isVideo pr"
      if "c \<in> set (p_consumers pr)" for c
      using inv_prodsD(4) [OF inv r that] cs by (fastforce simp: cons_shape_def)
    moreover have "\<exists>p. peers t (p_publisher pr) = Some p \<and> r \<in> set (producers p)"
      using inv_prodsD(3) [OF inv r] gs(1) by fastforce
    ultimately show "p_originalSsrc pr \<noteq> 0 \<and> distinct (p_consumers pr) \<and>
      (\<exists>p. peers t (p_publisher pr) = Some p \<and> r \<in> set (producers p)) \<and>
      (\<forall>c \<in> set (p_consumers pr). \<exists>cc. conss t c = Some cc \<and>
        c_publisher cc = Some (p_publisher pr) \<and> c_publisherSsrc cc = p_originalSsrc pr \<and>
        c_isVideo cc = p_isVideo pr)"
      using inv_prodsD(1,2) [OF inv r] by simp
  qed
  moreover have "inv_ssrcs t"
    unfolding inv_ssrcs_def eq using inv_ssrcsD [OF inv] by blast
  moreover have "inv_conss t"
    unfolding inv_conss_def
  proof (intro allI impI conjI)
    fix c cc assume "conss t c = Some cc"
    then obtain cc' where cc': "conss s c = Some cc'" "cons_shape cc' = cons_shape cc"
      using gt(2) by blast
    obtain a p where "c_subscriber cc' = Some a" "peers s a = Some p" "c \<in> set (consumers p)"
      using inv_conssD(1) [OF inv cc'(1)] by blast
    moreover from this(2) obtain p' where "peers t a = Some p'" "consumers p' = consumers p"
      using gs(1) by blast
    ultimately show "\<exists>a p. c_subscriber cc = Some a \<and> peers t a = Some p \<and> c \<in> set (consumers p)"
      using cons_shapeD(1) [OF cc'(2)] by metis
    fix q assume "c_publisher cc = Some q"
    then show "peers t q \<noteq> None"
      using inv_conssD(2) [OF inv cc'(1), of q] cc'(2) same_graph_None(1) [OF sg, of q]
      by (auto simp: cons_shape_def)
  qed
  moreover have "inv_linked t"
    unfolding inv_linked_def eq
  proof (intro allI impI)
    fix c cc q assume "conss t c = Some cc" "c_publisher cc = Some q"
    moreover from this(1) obtain cc' where "conss s c = Some cc'" "cons_shape cc' = cons_shape cc"
      using gt(2) by blast
    ultimately show "waits_or_linked (prods s) c cc q"
      using inv_conssD(3) [OF inv, of c cc' q] cons_shapeD(2,3,5) [of cc' cc]
        waits_or_linked_cong [of cc' cc] by simp
  qed
  moreover have "inv_out t"
    unfolding inv_out_def eq using inv_outD [OF inv] cs by (fastforce simp: cons_shape_def)
  moreover have "inv_all t"
    unfolding inv_all_def eq
    using inv_allD [OF inv] gt(1) same_graph_None(1) [OF sg] by (metis not_None_eq)
  moreover have "inv_fresh t"
    unfolding inv_fresh_def eq using inv_freshD [OF inv] same_graph_None [OF sg] by metis
  moreover have "inv_delta t"
    unfolding inv_delta_def
  proof (intro allI impI)
    fix c cc assume "conss t c = Some cc"
    then obtain cc' where "conss s c = Some cc'" "cons_shape cc' = cons_shape cc"
      using gt(2) by blast
    then show "c_seqDelta cc = 0 \<and> c_tsDelta cc = 0"
      using inv_conssD(4,5) [OF inv] cons_shapeD(6) [of cc' cc] by blast
  qed
  moreover have "inv_routes t"
    using sg inv by (auto simp: same_graph_def router_inv_def inv_routes_def)
  ultimately show ?thesis by (simp add: router_inv_def)
qed

text \<open>The single-object updates that leave the graph alone.\<close>

lemma same_graph_peer_upd:
  assumes "\<And>p. peer_shape (f p) = peer_shape p"
  shows "same_graph s (s\<lparr>peers := modify a f (peers s)\<rparr>)"
  using assms by (auto simp: same_graph_def option.map_comp comp_def intro: option.map_cong)

lemma same_graph_cons_upd:
  assumes "\<And>x. cons_shape (f x) = cons_shape x"
  shows "same_graph s (s\<lparr>conss := modify c f (conss s)\<rparr>)"
  using assms by (auto simp: same_graph_def option.map_comp comp_def intro: option.map_cong)

lemma same_graph_sent: "same_graph s (s\<lparr>sent := out\<rparr>)"
  by (simp add: same_graph_def)

section \<open>New peers\<close>

lemma alloc_peer_inv:
  assumes inv: "router_inv s" and p: "producers p = []" "consumers p = []"
  shows "router_inv (alloc_peer p s)"
proof -
  let ?t = "alloc_peer p s"
  have new: "peers s (nextAddr s) = None" using inv_freshD [OF inv, of "nextAddr s"] by simp
  have P: "peers ?t a = (if a = nextAddr s then Some p else peers s a)" for a
    by (simp add: alloc_peer_def)
  have old: "peers s a = Some q \<Longrightarrow> peers ?t a = Some q" for a q using new by (auto simp: P)
  have eq: "prods ?t = prods s" "conss ?t = conss s" "allPeers ?t = allPeers s"
    "outSsrcToConsumer ?t = outSsrcToConsumer s" "nextAddr ?t = Suc (nextAddr s)"
    by (simp_all add: alloc_peer_def)
  have "inv_peers ?t"
    unfolding inv_peers_def eq P using inv_peersD [OF inv] p by simp
  moreover have "inv_prods ?t"
    unfolding inv_prods_def eq using inv_prodsD [OF inv] old by meson
  moreover have "inv_conss ?t"
    unfolding inv_conss_def eq using inv_conssD(1,2) [OF inv] old by (metis option.distinct(1))
  moreover have "inv_all ?t"
    unfolding inv_all_def eq P using inv_allD [OF inv] p by auto
  moreover have "inv_fresh ?t"
    unfolding inv_fresh_def eq P using inv_freshD [OF inv] by auto
  moreover have "inv_routes ?t" using inv by (simp add: router_inv_def inv_routes_def alloc_peer_def)
  ultimately show ?thesis
    using inv by (simp add: router_inv_def inv_ssrcs_def inv_linked_def inv_out_def inv_delta_def eq)
qed

section \<open>Who is reached\<close>

text \<open>Who may receive packets through which consumer, and where peers are reached.\<close>

definition recipient :: "('s, 'd, 'z) sfu_scheme \<Rightarrow> nat \<Rightarrow> endpoint option" where
  "recipient s c = do {
     cc \<leftarrow> conss s c;
     if c_active cc \<and> c_recvMid cc \<noteq> '''' then do {
       sub \<leftarrow> c_subscriber cc;
       p \<leftarrow> peers s sub;
       Some (remoteEp p)
     } else None
   }"

definition cons_reach :: "consumer \<Rightarrow> bool \<times> string \<times> nat option" where
  "cons_reach c = (c_active c, c_recvMid c, c_subscriber c)"

definition same_reach :: "('s, 'd, 'z) sfu_scheme \<Rightarrow> ('s, 'd, 'z) sfu_scheme \<Rightarrow> bool" where
  "same_reach s t \<longleftrightarrow>
     (\<forall>c. map_option cons_reach (conss t c) = map_option cons_reach (conss s c)) \<and>
     (\<forall>a. map_option remoteEp (peers t a) = map_option remoteEp (peers s a))"

lemma same_reach_refl [simp]: "same_reach s s"
  by (simp add: same_reach_def)

lemma same_reach_trans: "same_reach s t \<Longrightarrow> same_reach t u \<Longrightarrow> same_reach s u"
  by (simp add: same_reach_def)

lemma recipient_same_reach:
  assumes "same_reach s t"
  shows "recipient t c = recipient s c"
proof -
  have ep: "map_option remoteEp (peers t a) = map_option remoteEp (peers s a)" for a
    using assms by (simp add: same_reach_def)
  have r: "recipient u c = map_option cons_reach (conss u c) \<bind> (\<lambda>(act, mid, sub).
      if act \<and> mid \<noteq> '''' then sub \<bind> (\<lambda>a. map_option remoteEp (peers u a)) else None)"
    for u :: "('s, 'd, 'z) sfu_scheme"
    by (cases "conss u c")
      (auto simp: recipient_def cons_reach_def map_conv_bind_option comp_def)
  have "map_option cons_reach (conss t c) = map_option cons_reach (conss s c)"
    using assms by (simp add: same_reach_def)
  then show ?thesis using ep by (simp only: r)
qed

text \<open>At most one datagram goes out, to \<open>ep\<close>.\<close>

definition sent_to :: "endpoint \<Rightarrow> ('s, 'd, 'z) sfu_scheme \<Rightarrow> ('s, 'd, 'z) sfu_scheme \<Rightarrow> bool" where
  "sent_to ep s t \<longleftrightarrow>
     (\<exists>out. sent t = sent s @ out \<and> length out \<le> 1 \<and> (\<forall>d \<in> set out. fst d = ep))"

lemma sent_to_same: "sent t = sent s \<Longrightarrow> sent_to ep s t"
  by (simp add: sent_to_def)

section \<open>Sending RTCP\<close>

lemma sendProtectedRtcp_runs:
  assumes "libsrtp_sizes lib" "length pkt + 14 \<le> cap" "peers s p = Some pe"
  shows "runs (sendProtectedRtcp lib cap pkt p s) (\<lambda>(b, s'). same_graph s s' \<and> same_reach s s' \<and>
    routes s' = routes s \<and> conss s' = conss s \<and> sent_to (remoteEp pe) s s')"
proof (cases "srtp pe")
  case None
  then show ?thesis by (simp add: sendProtectedRtcp_def assms(3) sent_to_same)
next
  case (Some ctx)
  obtain ctx' r where pr: "protectRtcp lib cap pkt ctx = Some (ctx', r)"
    using protectRtcp_fits [OF assms(1,2), of ctx] by (auto simp: runs_def)
  define s1 where "s1 = s\<lparr>peers := modify p (\<lambda>x. x\<lparr>srtp := Some ctx'\<rparr>) (peers s)\<rparr>"
  have "sendProtectedRtcp lib cap pkt p s = Some (case r of None \<Rightarrow> (False, s1)
      | Some out \<Rightarrow> (True, s1\<lparr>sent := sent s1 @ [(remoteEp pe, out)]\<rparr>))"
    using pr by (simp add: sendProtectedRtcp_def assms(3) Some s1_def Let_def split: option.split)
  moreover have "same_graph s s1" "same_reach s s1"
    using assms(3) by (auto simp: same_graph_def same_reach_def peer_shape_def s1_def)
  moreover from this have "same_graph s (s1\<lparr>sent := out\<rparr>)" "same_reach s (s1\<lparr>sent := out\<rparr>)" for out
    by (simp_all add: same_graph_def same_reach_def)
  ultimately show ?thesis by (cases r) (simp_all add: s1_def sent_to_def)
qed

section \<open>Allocating an outgoing SSRC\<close>

lemma uniform_ssrc_range:
  "0x40000000 \<le> uniform_u32 0x40000000 0x7FFFFFFF g \<and> uniform_u32 0x40000000 0x7FFFFFFF g \<le> 0x7FFFFFFF"
proof -
  have m: "unat (g mod 0x40000000) < 0x40000000"
    by (simp add: unat_mod)
  then have "unat (0x40000000 + g mod 0x40000000 :: u32) = 0x40000000 + unat (g mod 0x40000000)"
    by (subst unat_add_lem [THEN iffD1]) simp_all
  with m show ?thesis
    by (simp add: uniform_u32_def word_le_nat_alt)
qed

lemma uniform_ssrc_onto:
  assumes "0x40000000 \<le> v" "v \<le> 0x7FFFFFFF"
  shows "uniform_u32 0x40000000 0x7FFFFFFF (v - 0x40000000) = v"
proof -
  have "unat (v - 0x40000000) = unat v - 0x40000000"
    using assms(1) by (simp add: unat_sub)
  then have "unat (v - 0x40000000) < 0x40000000"
    using assms by (simp add: word_le_nat_alt)
  then have "(v - 0x40000000) mod 0x40000000 = v - 0x40000000"
    by (simp add: mod_word_less word_less_nat_alt)
  then show ?thesis by (simp add: uniform_u32_def)
qed

text \<open>The loop ends with the first value drawn.\<close>

lemma allocateSsrc_eq:
  "allocateSsrc gen pos = Some (uniform_u32 0x40000000 0x7FFFFFFF (gen pos), Suc pos)"
proof -
  have "uniform_u32 0x40000000 0x7FFFFFFF (gen pos) \<noteq> 0"
    using uniform_ssrc_range [of "gen pos"] by auto
  then show ?thesis by (subst allocateSsrc.simps) (simp add: Let_def)
qed

section \<open>addConsumer\<close>

text \<open>
  What \<open>addConsumer\<close> does, in one update: the new consumer \<open>c\<close> at the end of the
  subscriber's list, attached to the producer \<open>target\<close> if there is one.
\<close>

definition install_consumer ::
  "nat \<Rightarrow> nat \<Rightarrow> bool \<Rightarrow> u32 \<Rightarrow> nat option \<Rightarrow> u32 \<Rightarrow> ('s, 'd, 'z) sfu_scheme \<Rightarrow> ('s, 'd, 'z) sfu_scheme"
where
  "install_consumer sub pub v out target src s =
     (let c = nextAddr s in
      s\<lparr>ssrcPos := Suc (ssrcPos s), nextAddr := Suc c,
        conss := (conss s)(c \<mapsto> (new_consumer sub pub v out)\<lparr>c_publisherSsrc := src\<rparr>),
        allPeers := allPeers (registerPeer pub (registerPeer sub s)),
        outSsrcToConsumer := (outSsrcToConsumer s)(out \<mapsto> c),
        prods := (case target of None \<Rightarrow> prods s
                  | Some r \<Rightarrow> modify r (\<lambda>p. p\<lparr>p_consumers := p_consumers p @ [c]\<rparr>) (prods s)),
        peers := modify sub (\<lambda>p. p\<lparr>consumers := consumers p @ [c]\<rparr>) (peers s)\<rparr>)"

text \<open>The producer a new consumer of \<open>pub\<close> and kind \<open>v\<close> is attached to.\<close>

definition matching_producer :: "('s, 'd, 'z) sfu_scheme \<Rightarrow> nat \<Rightarrow> bool \<Rightarrow> nat option" where
  "matching_producer s pub v =
     List.find (\<lambda>r. case prods s r of None \<Rightarrow> False
                    | Some p \<Rightarrow> p_isVideo p = v \<and> p_originalSsrc p \<noteq> 0)
       (producers (the (peers s pub)))"

definition source_ssrc :: "('s, 'd, 'z) sfu_scheme \<Rightarrow> nat option \<Rightarrow> u32" where
  "source_ssrc s target = (case target of None \<Rightarrow> 0 | Some r \<Rightarrow> p_originalSsrc (the (prods s r)))"

lemma registerPeer_simps [simp]:
  "peers (registerPeer p s) = peers s" "prods (registerPeer p s) = prods s"
  "conss (registerPeer p s) = conss s" "nextAddr (registerPeer p s) = nextAddr s"
  "outSsrcToConsumer (registerPeer p s) = outSsrcToConsumer s" "routes (registerPeer p s) = routes s"
  "ssrcGen (registerPeer p s) = ssrcGen s" "ssrcPos (registerPeer p s) = ssrcPos s"
  "sent (registerPeer p s) = sent s"
  by (simp_all add: registerPeer_def)

lemma allPeers_registerPeer: "set (allPeers (registerPeer p s)) = insert p (set (allPeers s))"
  by (auto simp: registerPeer_def)

lemma distinct_registerPeer: "distinct (allPeers s) \<Longrightarrow> distinct (allPeers (registerPeer p s))"
  by (simp add: registerPeer_def)

lemma insert_consumer_eq:
  fixes s :: "('s, 'd, 'z) sfu_scheme" and v :: bool
  assumes inv: "router_inv s" and sub: "peers s sub = Some p_sub" and pub: "peers s pub = Some p_pub"
  defines "out \<equiv> uniform_u32 0x40000000 0x7FFFFFFF (ssrcGen s (ssrcPos s))"
  defines "target \<equiv> matching_producer s pub v"
  shows "insert_consumer sub pub v s
    = Some (nextAddr s, install_consumer sub pub v out target (source_ssrc s target) s)"
proof -
  let ?q = "\<lambda>r. case prods s r of None \<Rightarrow> False | Some p \<Rightarrow> p_isVideo p = v \<and> p_originalSsrc p \<noteq> 0"
  have "findM (\<lambda>r. prods s r \<bind> (\<lambda>p. Some (p_isVideo p = v \<and> p_originalSsrc p \<noteq> 0))) (producers p_pub)
      = Some (List.find ?q (producers p_pub))"
    using inv_peersD(3) [OF inv pub] by (intro findM_defined) fastforce
  then have fm: "findM (\<lambda>r. prods s r \<bind> (\<lambda>p. Some (p_isVideo p = v \<and> p_originalSsrc p \<noteq> 0)))
      (producers p_pub) = Some target"
    by (simp add: target_def matching_producer_def pub)
  show ?thesis
  proof (cases target)
    case None
    then show ?thesis
      using fm sub pub
      by (simp add: insert_consumer_def allocateSsrc_eq registerPeer_def install_consumer_def Let_def
          source_ssrc_def out_def modify_def new_consumer_def)
  next
    case (Some r)
    then have "r \<in> set (producers p_pub)"
      by (auto simp: target_def matching_producer_def pub dest: find_Some_in)
    then obtain pr where pr: "prods s r = Some pr" using inv_peersD(3) [OF inv pub] by blast
    then show ?thesis
      using fm sub pub Some
      by (simp add: insert_consumer_def allocateSsrc_eq registerPeer_def install_consumer_def Let_def
          source_ssrc_def out_def modify_def link_consumer_def new_consumer_def)
  qed
qed

lemma addConsumer_eq:
  fixes s :: "('s, 'd, 'z) sfu_scheme" and v :: bool
  assumes inv: "router_inv s" and sub: "peers s sub = Some p_sub" and pub: "peers s pub = Some p_pub"
  defines "out \<equiv> uniform_u32 0x40000000 0x7FFFFFFF (ssrcGen s (ssrcPos s))"
  defines "target \<equiv> matching_producer s pub v"
  shows "addConsumer sub pub v s
    = Some (out, install_consumer sub pub v out target (source_ssrc s target) s)"
  by (simp add: addConsumer_def insert_consumer_eq [OF assms(1-3)] out_def target_def)
    (simp add: install_consumer_def Let_def new_consumer_def)

lemma matching_producer_Some:
  assumes "router_inv s" "peers s pub = Some p_pub" "matching_producer s pub v = Some r"
  shows "\<exists>pr. prods s r = Some pr \<and> p_publisher pr = pub \<and> p_isVideo pr = v \<and> p_originalSsrc pr \<noteq> 0"
  using assms inv_peersD(3) [OF assms(1,2)]
  by (fastforce simp: matching_producer_def dest!: find_Some_in split: option.splits)

lemma matching_producer_None:
  assumes inv: "router_inv s" and pub: "peers s pub = Some p_pub"
    and none: "matching_producer s pub v = None" and r: "prods s r = Some pr" "p_publisher pr = pub"
  shows "p_isVideo pr \<noteq> v"
proof -
  have "r \<in> set (producers p_pub)" using inv_prodsD(3) [OF inv r(1)] r(2) pub by auto
  then show ?thesis
    using none r inv_prodsD(1) [OF inv r(1)]
    by (auto simp: matching_producer_def pub dest: find_None_all)
qed

lemma install_consumer_inv:
  assumes inv: "router_inv s" and sub: "peers s sub = Some p_sub" and pub: "peers s pub = Some p_pub"
    and target: "target = matching_producer s pub v"
  shows "router_inv (install_consumer sub pub v out target (source_ssrc s target) s)"
proof -
  define src where "src = source_ssrc s target"
  define t where "t = install_consumer sub pub v out target src s"
  let ?c = "nextAddr s"
  let ?cc = "(new_consumer sub pub v out)\<lparr>c_publisherSsrc := src\<rparr>"
  have new: "peers s ?c = None" "prods s ?c = None" "conss s ?c = None"
    using inv_freshD [OF inv, of ?c] by simp_all
  have new_c: "?c \<notin> set (consumers p)" if "peers s a = Some p" for a p
    using inv_peersD(4) [OF inv that, of ?c] new by auto
  have new_pc: "?c \<notin> set (p_consumers pr)" if "prods s r = Some pr" for r pr
    using inv_prodsD(4) [OF inv that, of ?c] new by auto
  have P: "peers t a = (if a = sub then Some (p_sub\<lparr>consumers := consumers p_sub @ [?c]\<rparr>) else peers s a)" for a
    by (simp add: t_def install_consumer_def Let_def sub)
  have C: "conss t c = (if c = ?c then Some ?cc else conss s c)" for c
    by (simp add: t_def install_consumer_def Let_def)
  have R: "prods t r = (if target = Some r
      then map_option (\<lambda>p. p\<lparr>p_consumers := p_consumers p @ [?c]\<rparr>) (prods s r) else prods s r)" for r
    by (simp add: t_def install_consumer_def Let_def split: option.split)
  have Rsome: "\<exists>pr0. prods s r = Some pr0 \<and> p_publisher pr = p_publisher pr0 \<and>
      p_originalSsrc pr = p_originalSsrc pr0 \<and> p_isVideo pr = p_isVideo pr0 \<and>
      p_consumers pr = (if target = Some r then p_consumers pr0 @ [?c] else p_consumers pr0)"
    if "prods t r = Some pr" for r pr
    using that by (auto simp: R split: if_splits)
  have Rback: "\<exists>pr'. prods t r = Some pr' \<and> p_publisher pr' = p_publisher pr \<and>
      p_originalSsrc pr' = p_originalSsrc pr \<and> p_isVideo pr' = p_isVideo pr \<and>
      set (p_consumers pr) \<subseteq> set (p_consumers pr')" if "prods s r = Some pr" for r pr
    using that by (auto simp: R)
  have tgt: "\<exists>pr. prods s r = Some pr \<and> p_publisher pr = pub \<and> p_isVideo pr = v \<and>
      p_originalSsrc pr = src \<and> src \<noteq> 0" if "target = Some r" for r
    using matching_producer_Some [OF inv pub, of v r] that target by (auto simp: src_def source_ssrc_def)
  have "inv_peers t"
    unfolding inv_peers_def
  proof (intro allI impI)
    fix a p assume a: "peers t a = Some p"
    then obtain p0 where p0: "peers s a = Some p0" "producers p = producers p0"
      "consumers p = (if a = sub then consumers p0 @ [?c] else consumers p0)"
      using sub by (auto simp: P split: if_splits)
    show "distinct (producers p) \<and> distinct (consumers p) \<and>
      (\<forall>r \<in> set (producers p). \<exists>pr. prods t r = Some pr \<and> p_publisher pr = a) \<and>
      (\<forall>c \<in> set (consumers p). \<exists>cc. conss t c = Some cc \<and> c_subscriber cc = Some a)"
    proof (intro conjI ballI)
      show "distinct (producers p)" "distinct (consumers p)"
        using inv_peersD(1,2) [OF inv p0(1)] p0(2,3) new_c [OF p0(1)] by simp_all
      show "\<exists>pr. prods t r = Some pr \<and> p_publisher pr = a" if "r \<in> set (producers p)" for r
        using inv_peersD(3) [OF inv p0(1), of r] that p0(2) Rback by fastforce
      show "\<exists>cc. conss t c = Some cc \<and> c_subscriber cc = Some a" if "c \<in> set (consumers p)" for c
        using inv_peersD(4) [OF inv p0(1), of c] that p0(3)
        using new(3) by (auto simp: C new_consumer_def split: if_splits)
    qed
  qed
  moreover have "inv_prods t"
    unfolding inv_prods_def
  proof (intro allI impI)
    fix r pr assume "prods t r = Some pr"
    then obtain pr0 where pr0: "prods s r = Some pr0" "p_publisher pr = p_publisher pr0"
      "p_originalSsrc pr = p_originalSsrc pr0" "p_isVideo pr = p_isVideo pr0"
      "p_consumers pr = (if target = Some r then p_consumers pr0 @ [?c] else p_consumers pr0)"
      using Rsome by blast
    have "\<exists>p. peers t (p_publisher pr0) = Some p \<and> r \<in> set (producers p)"
      using inv_prodsD(3) [OF inv pr0(1)] sub by (auto simp: P)
    moreover have "\<exists>cc. conss t c = Some cc \<and> c_publisher cc = Some (p_publisher pr0) \<and>
        c_publisherSsrc cc = p_originalSsrc pr0 \<and> c_isVideo cc = p_isVideo pr0"
      if "c \<in> set (p_consumers pr)" for c
    proof (cases "c = ?c")
      case True
      then have "target = Some r" using that pr0(5) new_pc [OF pr0(1)] by (auto split: if_splits)
      then have "p_publisher pr0 = pub" "p_isVideo pr0 = v" "p_originalSsrc pr0 = src"
        using tgt pr0(1) by fastforce+
      moreover have "conss t c = Some ?cc" using True C by simp
      ultimately show ?thesis by (simp add: new_consumer_def)
    next
      case False
      with that pr0(5) have "c \<in> set (p_consumers pr0)" by (auto split: if_splits)
      with False show ?thesis using inv_prodsD(4) [OF inv pr0(1)] by (simp add: C)
    qed
    ultimately show "p_originalSsrc pr \<noteq> 0 \<and> distinct (p_consumers pr) \<and>
      (\<exists>p. peers t (p_publisher pr) = Some p \<and> r \<in> set (producers p)) \<and>
      (\<forall>c \<in> set (p_consumers pr). \<exists>cc. conss t c = Some cc \<and>
        c_publisher cc = Some (p_publisher pr) \<and> c_publisherSsrc cc = p_originalSsrc pr \<and>
        c_isVideo cc = p_isVideo pr)"
      using inv_prodsD(1,2) [OF inv pr0(1)] pr0 new_pc [OF pr0(1)] by simp
  qed
  moreover have "inv_ssrcs t"
    unfolding inv_ssrcs_def using inv_ssrcsD [OF inv] Rsome by metis
  moreover have "inv_conss t"
    unfolding inv_conss_def
  proof (intro allI impI)
    fix c cc assume c: "conss t c = Some cc"
    show "(\<exists>a p. c_subscriber cc = Some a \<and> peers t a = Some p \<and> c \<in> set (consumers p)) \<and>
      (\<forall>q. c_publisher cc = Some q \<longrightarrow> peers t q \<noteq> None)"
    proof (cases "c = ?c")
      case True
      with c pub show ?thesis by (auto simp: C P new_consumer_def)
    next
      case False
      with c have cc: "conss s c = Some cc" by (simp add: C)
      then obtain a p where "c_subscriber cc = Some a" "peers s a = Some p" "c \<in> set (consumers p)"
        using inv_conssD(1) [OF inv] by blast
      then show ?thesis using inv_conssD(2) [OF inv cc] sub by (fastforce simp: P)
    qed
  qed
  moreover have "inv_linked t"
    unfolding inv_linked_def
  proof (intro allI impI)
    fix c cc q assume c: "conss t c = Some cc" "c_publisher cc = Some q"
    show "waits_or_linked (prods t) c cc q"
    proof (cases "c = ?c")
      case True
      with c have cc: "cc = ?cc" "q = pub" by (auto simp: C new_consumer_def)
      show ?thesis
      proof (cases target)
        case None
        then have "p_isVideo pr \<noteq> v" if "prods t r = Some pr" "p_publisher pr = pub" for r pr
          using matching_producer_None [OF inv pub, of v r pr] target that R [of r] by simp
        with None show ?thesis
          by (simp add: cc waits_or_linked_def src_def source_ssrc_def new_consumer_def)
      next
        case (Some r)
        then show ?thesis
          using tgt [OF Some] True R [of r]
          by (auto simp: cc waits_or_linked_def new_consumer_def intro!: exI [of _ r])
      qed
    next
      case False
      with c have "waits_or_linked (prods s) c cc q" using inv_conssD(3) [OF inv] by (simp add: C)
      then show ?thesis
      proof (rule waits_or_linked_transfer)
        show "\<exists>r0 pr0. prods s r0 = Some pr0 \<and> p_publisher pr0 = q \<and> p_isVideo pr0 = c_isVideo cc"
          if "prods t r = Some pr" "p_publisher pr = q" "p_isVideo pr = c_isVideo cc" for r pr
          using Rsome [OF that(1)] that(2,3) by metis
        show "\<exists>pr'. prods t r = Some pr' \<and> p_publisher pr' = q \<and>
            p_originalSsrc pr' = p_originalSsrc pr \<and> c \<in> set (p_consumers pr')"
          if "prods s r = Some pr" "p_publisher pr = q" "c \<in> set (p_consumers pr)" for r pr
          using Rback [OF that(1)] that(2,3) by blast
      qed
    qed
  qed
  moreover have "inv_out t"
    unfolding inv_out_def
  proof (intro allI impI)
    fix k c assume "outSsrcToConsumer t k = Some c"
    then have "k = out \<and> c = ?c \<or> k \<noteq> out \<and> outSsrcToConsumer s k = Some c"
      by (auto simp: t_def install_consumer_def Let_def split: if_splits)
    then show "\<exists>cc. conss t c = Some cc \<and> c_rewrittenSsrc cc = k"
      using inv_outD [OF inv, of k c] new(3) by (auto simp: C new_consumer_def)
  qed
  moreover have "inv_all t"
  proof -
    have "set (allPeers t) = insert pub (insert sub (set (allPeers s)))"
      by (simp add: t_def install_consumer_def Let_def allPeers_registerPeer)
    moreover have "distinct (allPeers t)"
      using inv_allD(1) [OF inv] by (simp add: t_def install_consumer_def Let_def distinct_registerPeer)
    ultimately show ?thesis
      unfolding inv_all_def using inv_allD [OF inv] sub pub by (auto simp: P)
  qed
  moreover have "inv_fresh t"
    unfolding inv_fresh_def
  proof (intro allI impI)
    fix a assume "nextAddr t \<le> a"
    then have "Suc ?c \<le> a" by (simp add: t_def install_consumer_def Let_def)
    then show "peers t a = None \<and> prods t a = None \<and> conss t a = None"
      using inv_freshD [OF inv, of a] sub by (auto simp: P R C)
  qed
  moreover have "inv_delta t"
    unfolding inv_delta_def using inv_conssD(4,5) [OF inv] by (auto simp: C new_consumer_def)
  moreover have "inv_routes t"
  proof (rule inv_routes_mono)
    show "inv_routes s" using inv by (simp add: router_inv_def)
    show "routes t = routes s" by (simp add: t_def install_consumer_def Let_def)
  qed (use Rback in blast)
  ultimately show ?thesis by (simp add: router_inv_def t_def src_def)
qed

lemma addConsumer_runs:
  assumes "router_inv s" "peers s sub \<noteq> None" "peers s pub \<noteq> None"
  shows "runs (addConsumer sub pub v s) (\<lambda>(ssrc, s'). router_inv s')"
  using assms by (auto simp: addConsumer_eq install_consumer_inv)

section \<open>findOrCreateProducer\<close>

definition waiting :: "('s, 'd, 'z) sfu_scheme \<Rightarrow> nat \<Rightarrow> bool \<Rightarrow> nat \<Rightarrow> bool" where
  "waiting s from v c \<longleftrightarrow> (case conss s c of None \<Rightarrow> False
     | Some cc \<Rightarrow> c_publisher cc = Some from \<and> c_isVideo cc = v \<and> c_publisherSsrc cc = 0)"

text \<open>The state after the linking loop has seen the consumers in \<open>L\<close>.\<close>

definition link_list ::
  "nat \<Rightarrow> bool \<Rightarrow> u32 \<Rightarrow> nat \<Rightarrow> nat list \<Rightarrow> ('s, 'd, 'z) sfu_scheme \<Rightarrow> ('s, 'd, 'z) sfu_scheme" where
  "link_list from v ssrc r L s =
     s\<lparr>conss := (\<lambda>c. if c \<in> set L \<and> waiting s from v c
                     then map_option (\<lambda>x. x\<lparr>c_publisherSsrc := ssrc\<rparr>) (conss s c) else conss s c),
       prods := modify r (\<lambda>p. p\<lparr>p_consumers := p_consumers p @ filter (waiting s from v) L\<rparr>) (prods s)\<rparr>"

lemma link_list_Nil [simp]: "link_list from v ssrc r [] s = s"
proof -
  have "map_option (\<lambda>p. p) x = x" for x :: "producer option"
    by (cases x) simp_all
  then have "modify r (\<lambda>p. p) (prods s) = prods s" by (auto simp: modify_def)
  then show ?thesis by (simp add: link_list_def)
qed

lemma link_list_peers [simp]:
  "peers (link_list from v ssrc r L s) = peers s"
  "allPeers (link_list from v ssrc r L s) = allPeers s"
  by (simp_all add: link_list_def)

lemma same_reach_link_list: "same_reach s (link_list from v ssrc r L s)"
proof -
  have "map_option cons_reach (if P then map_option (\<lambda>x. x\<lparr>c_publisherSsrc := ssrc\<rparr>) y else y)
      = map_option cons_reach y" for P y
    by (cases y) (simp_all add: cons_reach_def)
  then show ?thesis by (simp add: same_reach_def link_list_def)
qed

lemma link_list_step:
  assumes "c \<notin> set L" "conss s c = Some cc" "prods s r = Some pr"
  shows "link_if_waiting from v ssrc r c (link_list from v ssrc r L s)
    = Some (link_list from v ssrc r (L @ [c]) s)"
proof (cases "waiting s from v c")
  case True
  then show ?thesis
    using assms
    by (auto simp: link_if_waiting_def link_list_def waiting_def link_consumer_def fun_eq_iff modify_def)
next
  case False
  then have "(x \<in> set (L @ [c]) \<and> waiting s from v x) = (x \<in> set L \<and> waiting s from v x)" for x
    by auto
  with False show ?thesis
    using assms by (auto simp: link_if_waiting_def link_list_def waiting_def)
qed

text \<open>The consumers of all registered peers, in the order of the two nested loops.\<close>

definition all_consumers :: "('s, 'd, 'z) sfu_scheme \<Rightarrow> nat list" where
  "all_consumers s = concat (map (\<lambda>a. consumers (the (peers s a))) (allPeers s))"

lemma link_waiting_eq:
  assumes dist: "distinct (all_consumers s)" and r: "prods s r = Some pr"
    and live: "\<And>a. a \<in> set (allPeers s) \<Longrightarrow> peers s a \<noteq> None"
    and cons: "\<And>c. c \<in> set (all_consumers s) \<Longrightarrow> conss s c \<noteq> None"
  shows "link_waiting from v ssrc r s = Some (link_list from v ssrc r (all_consumers s) s)"
proof -
  let ?cs = "\<lambda>a. consumers (the (peers s a))"
  let ?body = "\<lambda>sub s. peers s sub \<bind> (\<lambda>p. foldM (link_if_waiting from v ssrc r) (consumers p) s)"
  have "runs (foldM ?body (allPeers s) s) (\<lambda>s'. s' = link_list from v ssrc r (concat (map ?cs (allPeers s))) s)"
  proof (rule runs_foldM_prefix)
    fix ys x zs t
    assume xs: "allPeers s = ys @ x # zs" and t: "t = link_list from v ssrc r (concat (map ?cs ys)) s"
    obtain p where p: "peers s x = Some p" using live xs by fastforce
    let ?pre = "concat (map ?cs ys)"
    have d: "distinct (?pre @ consumers p)"
      using dist p by (simp add: all_consumers_def xs) blast
    have sub: "set (consumers p) \<subseteq> set (all_consumers s)"
      using p by (simp add: all_consumers_def xs) blast
    have "runs (foldM (link_if_waiting from v ssrc r) (consumers p) t)
        (\<lambda>s'. s' = link_list from v ssrc r (?pre @ consumers p) s)"
    proof (rule runs_foldM_prefix)
      show "t = link_list from v ssrc r (?pre @ []) s" using t by simp
    next
      fix cs c ds u
      assume cs: "consumers p = cs @ c # ds" and u: "u = link_list from v ssrc r (?pre @ cs) s"
      have "c \<notin> set (?pre @ cs)" using d cs by auto
      moreover obtain cc where "conss s c = Some cc" using cons sub cs by fastforce
      ultimately show "runs (link_if_waiting from v ssrc r c u)
          (\<lambda>s'. s' = link_list from v ssrc r (?pre @ cs @ [c]) s)"
        using link_list_step [OF _ _ r, of c "?pre @ cs"] u by simp
    qed
    then show "runs (?body x t) (\<lambda>s'. s' = link_list from v ssrc r (concat (map ?cs (ys @ [x]))) s)"
      by (simp add: p t)
  qed simp
  then show ?thesis by (simp add: link_waiting_def all_consumers_def runs_def)
qed

lemma distinct_all_consumers:
  assumes inv: "router_inv s"
  shows "distinct (all_consumers s)"
proof -
  have sub: "a = b" if "peers s a = Some p" "peers s b = Some q" "c \<in> set (consumers p)"
    "c \<in> set (consumers q)" for a b c p q
    using inv_peersD(4) [OF inv that(1,3)] inv_peersD(4) [OF inv that(2,4)] by auto
  have "distinct (concat (map (\<lambda>a. consumers (the (peers s a))) xs))"
    if "set xs \<subseteq> set (allPeers s)" "distinct xs" for xs
    using that
  proof (induction xs)
    case (Cons x xs)
    obtain p where p: "peers s x = Some p" using inv_allD(2) [OF inv, of x] Cons.prems by auto
    have "c \<notin> set (consumers p)" if y: "y \<in> set xs" and cy: "c \<in> set (consumers (the (peers s y)))" for y c
    proof
      assume c: "c \<in> set (consumers p)"
      obtain q where q: "peers s y = Some q"
        using inv_allD(2) [OF inv, of y] y Cons.prems(1) by auto
      then have "x = y" using sub [OF p q c] cy by simp
      then show False using y Cons.prems(2) by simp
    qed
    then show ?case using Cons inv_peersD(2) [OF inv p] by (auto simp: p)
  qed simp
  then show ?thesis using inv_allD(1) [OF inv] by (simp add: all_consumers_def)
qed

lemma all_consumers_live:
  assumes inv: "router_inv s" and c: "c \<in> set (all_consumers s)"
  shows "conss s c \<noteq> None"
proof -
  from c obtain a where a: "a \<in> set (allPeers s)" "c \<in> set (consumers (the (peers s a)))"
    by (auto simp: all_consumers_def)
  then obtain p where "peers s a = Some p" using inv_allD(2) [OF inv] by blast
  then show ?thesis using inv_peersD(4) [OF inv, of a p c] a(2) by auto
qed

lemma live_in_all_consumers:
  assumes inv: "router_inv s" and c: "conss s c = Some cc"
  shows "c \<in> set (all_consumers s)"
proof -
  obtain a p where a: "peers s a = Some p" "c \<in> set (consumers p)"
    using inv_conssD(1) [OF inv c] by blast
  then have "a \<in> set (allPeers s)" using inv_allD(3) [OF inv a(1)] by fastforce
  with a show ?thesis by (force simp: all_consumers_def)
qed

text \<open>Before the linking loop: the new, unattached producer \<open>r = nextAddr s\<close>.\<close>

definition create_producer ::
  "nat \<Rightarrow> u32 \<Rightarrow> bool \<Rightarrow> ('s, 'd, 'z) sfu_scheme \<Rightarrow> ('s, 'd, 'z) sfu_scheme" where
  "create_producer from ssrc v s =
     s\<lparr>nextAddr := Suc (nextAddr s), prods := (prods s)(nextAddr s \<mapsto> new_producer from ssrc v),
       peers := modify from (\<lambda>p. p\<lparr>producers := producers p @ [nextAddr s]\<rparr>) (peers s),
       routes := route_bind ssrc from (routes s)\<rparr>"

lemma create_producer_simps [simp]:
  "conss (create_producer from ssrc v s) = conss s"
  "allPeers (create_producer from ssrc v s) = allPeers s"
  "outSsrcToConsumer (create_producer from ssrc v s) = outSsrcToConsumer s"
  "waiting (create_producer from ssrc v s) = waiting s"
  "nextAddr (create_producer from ssrc v s) = Suc (nextAddr s)"
  "prods (create_producer from ssrc v s) = (prods s)(nextAddr s \<mapsto> new_producer from ssrc v)"
  by (simp_all add: create_producer_def waiting_def fun_eq_iff)

lemma all_consumers_create [simp]:
  "all_consumers (create_producer from ssrc v s) = all_consumers s"
proof -
  have "consumers (the (modify from (\<lambda>p. p\<lparr>producers := producers p @ [r]\<rparr>) (peers s) a))
      = consumers (the (peers s a))" if "peers s a \<noteq> None \<or> a \<noteq> from" for a r
    using that by (cases "peers s a") auto
  moreover have "modify from f (peers s) a = peers s a" if "peers s a = None" for a f
    using that by auto
  ultimately have "consumers (the (modify from (\<lambda>p. p\<lparr>producers := producers p @ [r]\<rparr>) (peers s) a))
      = consumers (the (peers s a))" for a r
    by (cases "peers s a = None") simp_all
  then show ?thesis by (simp add: all_consumers_def create_producer_def del: modify_apply)
qed

lemma create_and_link_inv:
  assumes inv: "router_inv s" and "from": "peers s from = Some pf" and nz: "ssrc \<noteq> 0"
    and new: "\<And>r pr. prods s r = Some pr \<Longrightarrow> p_publisher pr = from \<Longrightarrow> p_originalSsrc pr \<noteq> ssrc"
  shows "router_inv (link_list from v ssrc (nextAddr s) (all_consumers s) (create_producer from ssrc v s))"
proof -
  let ?r = "nextAddr s" and ?W = "filter (waiting s from v) (all_consumers s)"
  let ?nr = "(new_producer from ssrc v)\<lparr>p_consumers := ?W\<rparr>"
  define t where "t = link_list from v ssrc ?r (all_consumers s) (create_producer from ssrc v s)"
  have free: "peers s ?r = None" "prods s ?r = None" "conss s ?r = None"
    using inv_freshD [OF inv, of ?r] by simp_all
  have P: "peers t a = (if a = from then Some (pf\<lparr>producers := producers pf @ [?r]\<rparr>) else peers s a)" for a
    by (simp add: t_def create_producer_def "from")
  have R: "prods t r = (if r = ?r then Some ?nr else prods s r)" for r
    by (simp add: t_def link_list_def new_producer_def)
  have wait_all: "waiting s from v c \<Longrightarrow> c \<in> set (all_consumers s)" for c
    using live_in_all_consumers [OF inv] by (auto simp: waiting_def split: option.splits)
  have C: "conss t c = (if waiting s from v c then map_option (\<lambda>x. x\<lparr>c_publisherSsrc := ssrc\<rparr>) (conss s c)
      else conss s c)" for c
    using wait_all by (auto simp: t_def link_list_def)
  have Cdown: "\<exists>cc0. conss s c = Some cc0 \<and> c_subscriber cc = c_subscriber cc0 \<and>
      c_publisher cc = c_publisher cc0 \<and> c_isVideo cc = c_isVideo cc0 \<and>
      c_rewrittenSsrc cc = c_rewrittenSsrc cc0 \<and> c_seqDelta cc = c_seqDelta cc0 \<and>
      c_tsDelta cc = c_tsDelta cc0 \<and>
      c_publisherSsrc cc = (if waiting s from v c then ssrc else c_publisherSsrc cc0)"
    if "conss t c = Some cc" for c cc
    using that by (auto simp: C split: if_splits)
  have Cup: "\<exists>cc. conss t c = Some cc \<and> c_subscriber cc = c_subscriber cc0 \<and>
      c_publisher cc = c_publisher cc0 \<and> c_isVideo cc = c_isVideo cc0 \<and>
      c_rewrittenSsrc cc = c_rewrittenSsrc cc0 \<and>
      c_publisherSsrc cc = (if waiting s from v c then ssrc else c_publisherSsrc cc0)"
    if "conss s c = Some cc0" for c cc0
    using that by (auto simp: C)
  have "inv_peers t"
    unfolding inv_peers_def
  proof (intro allI impI conjI ballI)
    fix a p assume "peers t a = Some p"
    then obtain p0 where p0: "peers s a = Some p0" "consumers p = consumers p0"
      "producers p = (if a = from then producers p0 @ [?r] else producers p0)"
      using "from" by (auto simp: P split: if_splits)
    have "?r \<notin> set (producers p0)" using inv_peersD(3) [OF inv p0(1), of ?r] free by auto
    then show "distinct (producers p)" using inv_peersD(1) [OF inv p0(1)] p0(3) by simp
    show "distinct (consumers p)" using inv_peersD(2) [OF inv p0(1)] p0(2) by simp
    show "\<exists>pr. prods t r = Some pr \<and> p_publisher pr = a" if "r \<in> set (producers p)" for r
      using that inv_peersD(3) [OF inv p0(1), of r] p0(3) free
      by (auto simp: R new_producer_def split: if_splits)
    show "\<exists>cc. conss t c = Some cc \<and> c_subscriber cc = Some a" if "c \<in> set (consumers p)" for c
      using that inv_peersD(4) [OF inv p0(1), of c] p0(2) Cup [of c] by fastforce
  qed
  moreover have "inv_prods t"
    unfolding inv_prods_def
  proof (intro allI impI)
    fix r pr assume r: "prods t r = Some pr"
    show "p_originalSsrc pr \<noteq> 0 \<and> distinct (p_consumers pr) \<and>
      (\<exists>p. peers t (p_publisher pr) = Some p \<and> r \<in> set (producers p)) \<and>
      (\<forall>c \<in> set (p_consumers pr). \<exists>cc. conss t c = Some cc \<and>
        c_publisher cc = Some (p_publisher pr) \<and> c_publisherSsrc cc = p_originalSsrc pr \<and>
        c_isVideo cc = p_isVideo pr)"
    proof (cases "r = ?r")
      case True
      with r have "pr = ?nr" by (simp add: R)
      then show ?thesis
        using nz distinct_all_consumers [OF inv] True
        by (auto simp: new_producer_def P C waiting_def split: option.splits)
    next
      case False
      with r have r0: "prods s r = Some pr" by (simp add: R)
      have "\<exists>cc. conss t c = Some cc \<and> c_publisher cc = Some (p_publisher pr) \<and>
          c_publisherSsrc cc = p_originalSsrc pr \<and> c_isVideo cc = p_isVideo pr"
        if c: "c \<in> set (p_consumers pr)" for c
      proof -
        obtain cc0 where cc0: "conss s c = Some cc0" "c_publisher cc0 = Some (p_publisher pr)"
          "c_publisherSsrc cc0 = p_originalSsrc pr" "c_isVideo cc0 = p_isVideo pr"
          using inv_prodsD(4) [OF inv r0 c] by blast
        moreover have "\<not> waiting s from v c"
          using cc0 inv_prodsD(1) [OF inv r0] by (simp add: waiting_def)
        ultimately show ?thesis using Cup [OF cc0(1)] by auto
      qed
      moreover have "\<exists>p. peers t (p_publisher pr) = Some p \<and> r \<in> set (producers p)"
        using inv_prodsD(3) [OF inv r0] "from" by (auto simp: P)
      ultimately show ?thesis using inv_prodsD(1,2) [OF inv r0] by simp
    qed
  qed
  moreover have "inv_ssrcs t"
    unfolding inv_ssrcs_def
  proof (intro allI impI)
    fix r pr r' pr'
    assume "prods t r = Some pr" "prods t r' = Some pr'" "p_publisher pr = p_publisher pr'"
      "p_originalSsrc pr = p_originalSsrc pr'"
    then show "r = r'"
      using inv_ssrcsD [OF inv, of r pr r' pr'] new [of r pr] new [of r' pr']
      by (auto simp: R new_producer_def split: if_splits)
  qed
  moreover have "inv_conss t"
    unfolding inv_conss_def
  proof (intro allI impI)
    fix c cc assume "conss t c = Some cc"
    then obtain cc0 where cc0: "conss s c = Some cc0" "c_subscriber cc = c_subscriber cc0"
      "c_publisher cc = c_publisher cc0" using Cdown by blast
    obtain a p where "c_subscriber cc0 = Some a" "peers s a = Some p" "c \<in> set (consumers p)"
      using inv_conssD(1) [OF inv cc0(1)] by blast
    then show "(\<exists>a p. c_subscriber cc = Some a \<and> peers t a = Some p \<and> c \<in> set (consumers p)) \<and>
      (\<forall>q. c_publisher cc = Some q \<longrightarrow> peers t q \<noteq> None)"
      using cc0 inv_conssD(2) [OF inv cc0(1)] "from" by (fastforce simp: P)
  qed
  moreover have "inv_linked t"
    unfolding inv_linked_def
  proof (intro allI impI)
    fix c cc q assume c: "conss t c = Some cc" "c_publisher cc = Some q"
    obtain cc0 where cc0: "conss s c = Some cc0" "c_publisher cc = c_publisher cc0"
      "c_isVideo cc = c_isVideo cc0"
      "c_publisherSsrc cc = (if waiting s from v c then ssrc else c_publisherSsrc cc0)"
      using Cdown [OF c(1)] by blast
    show "waits_or_linked (prods t) c cc q"
    proof (cases "waiting s from v c")
      case True
      then have "q = from" using cc0 c(2) by (simp add: waiting_def)
      then show ?thesis
        using True cc0(4) nz wait_all [OF True]
        by (auto simp: waits_or_linked_def R new_producer_def intro!: exI [of _ ?r])
    next
      case False
      have "waits_or_linked (prods s) c cc q"
        using inv_conssD(3) [OF inv cc0(1), of q] c(2) cc0 False waits_or_linked_cong [of cc cc0] by simp
      then show ?thesis
      proof (rule waits_or_linked_transfer)
        show "\<exists>r0 pr0. prods s r0 = Some pr0 \<and> p_publisher pr0 = q \<and> p_isVideo pr0 = c_isVideo cc"
          if "c_publisherSsrc cc = 0" "prods t r = Some pr" "p_publisher pr = q"
            "p_isVideo pr = c_isVideo cc" for r pr
          using that False cc0 c(2) by (auto simp: R new_producer_def waiting_def split: if_splits)
        show "\<exists>pr'. prods t r = Some pr' \<and> p_publisher pr' = q \<and>
            p_originalSsrc pr' = p_originalSsrc pr \<and> c \<in> set (p_consumers pr')"
          if "prods s r = Some pr" "p_publisher pr = q" "c \<in> set (p_consumers pr)" for r pr
          using that free(2) by (auto simp: R)
      qed
    qed
  qed
  moreover have "inv_out t"
    unfolding inv_out_def
  proof (intro allI impI)
    fix k c assume "outSsrcToConsumer t k = Some c"
    then have "outSsrcToConsumer s k = Some c" by (simp add: t_def link_list_def)
    then show "\<exists>cc. conss t c = Some cc \<and> c_rewrittenSsrc cc = k"
      using inv_outD [OF inv] Cup by fastforce
  qed
  moreover have "inv_all t"
  proof -
    have "allPeers t = allPeers s" by (simp add: t_def)
    then show ?thesis
      unfolding inv_all_def using inv_allD [OF inv] "from" by (auto simp: P)
  qed
  moreover have "inv_fresh t"
    unfolding inv_fresh_def
  proof (intro allI impI)
    fix a assume "nextAddr t \<le> a"
    then have "Suc ?r \<le> a" by (simp add: t_def link_list_def)
    then show "peers t a = None \<and> prods t a = None \<and> conss t a = None"
      using inv_freshD [OF inv, of a] "from" by (auto simp: P R C)
  qed
  moreover have "inv_delta t"
    unfolding inv_delta_def using inv_conssD(4,5) [OF inv] Cdown by metis
  moreover have "inv_routes t"
  proof -
    have ri: "route_invar (routes s)" by (rule inv_routesD(1) [OF inv])
    have "routes t = route_bind ssrc from (routes s)" by (simp add: t_def link_list_def create_producer_def)
    moreover have "publishes (prods t) from ssrc"
      unfolding publishes_def by (intro exI [of _ ?r] exI [of _ ?nr]) (simp add: R new_producer_def)
    moreover have "publishes (prods t) a k" if "publishes (prods s) a k" for a k
      using that by (rule publishes_mono) (use free in \<open>auto simp: R\<close>)
    moreover have "publishes (prods s) a k" if "route_lookup k (routes s) = Some a" for a k
      using inv that by (simp add: router_inv_def inv_routes_def)
    ultimately show ?thesis
      using rt.lookup_bind [OF ri] rt.invar_bind [OF ri] by (auto simp: inv_routes_def)
  qed
  ultimately show ?thesis by (simp add: router_inv_def t_def)
qed

lemma findProducer_runs:
  assumes inv: "router_inv s" and "from": "peers s from = Some pf"
  shows "runs (findProducer from ssrc s) (\<lambda>f. case f of
      Some r \<Rightarrow> \<exists>pr. prods s r = Some pr \<and> p_publisher pr = from \<and> p_originalSsrc pr = ssrc
    | None \<Rightarrow> \<forall>r pr. prods s r = Some pr \<longrightarrow> p_publisher pr = from \<longrightarrow> p_originalSsrc pr \<noteq> ssrc)"
proof -
  let ?q = "\<lambda>r. p_originalSsrc (the (prods s r)) = ssrc"
  have live: "\<exists>pr. prods s r = Some pr \<and> p_publisher pr = from" if "r \<in> set (producers pf)" for r
    using inv_peersD(3) [OF inv "from" that] .
  have eq: "findProducer from ssrc s = Some (List.find ?q (producers pf))"
  proof -
    have "prods s r \<bind> (\<lambda>pr. Some (p_originalSsrc pr = ssrc)) = Some (?q r)"
      if "r \<in> set (producers pf)" for r
      using live [OF that] by auto
    then show ?thesis by (simp add: findProducer_def "from" findM_defined)
  qed
  have own: "r \<in> set (producers pf)" if "prods s r = Some pr" "p_publisher pr = from" for r pr
    using inv_prodsD(3) [OF inv that(1)] that(2) "from" by auto
  show ?thesis
  proof (cases "List.find ?q (producers pf)")
    case None
    then show ?thesis using own by (fastforce simp: eq dest: find_None_all)
  next
    case (Some r)
    then have "r \<in> set (producers pf)" "?q r" by (auto dest!: find_Some_in)
    moreover from this(1) obtain pr where "prods s r = Some pr" "p_publisher pr = from"
      using live by blast
    ultimately show ?thesis by (simp add: eq Some)
  qed
qed

lemma same_graph_link_list:
  assumes "same_graph s t" "conss t = conss s"
  shows "same_graph (link_list from v ssrc r L s) (link_list from v ssrc r L t)"
proof -
  have "waiting t from v = waiting s from v" using assms(2) by (simp add: waiting_def fun_eq_iff)
  then show ?thesis using assms by (simp add: same_graph_def link_list_def)
qed

lemma same_graph_all_consumers:
  assumes "same_graph s t"
  shows "all_consumers t = all_consumers s"
proof -
  have "consumers (the (peers t a)) = consumers (the (peers s a))" for a
  proof (cases "peers t a")
    case None
    then show ?thesis using same_graph_None(1) [OF assms, of a] by simp
  next
    case (Some p)
    then show ?thesis using same_graph_peer [OF assms Some] by auto
  qed
  then show ?thesis using assms by (simp add: all_consumers_def same_graph_def)
qed

definition same_peers :: "('s, 'd, 'z) sfu_scheme \<Rightarrow> ('s, 'd, 'z) sfu_scheme \<Rightarrow> bool" where
  "same_peers s t \<longleftrightarrow> dom (peers t) = dom (peers s)"

lemma same_peers_refl [simp]: "same_peers s s"
  by (simp add: same_peers_def)

lemma same_peers_trans: "same_peers s t \<Longrightarrow> same_peers t u \<Longrightarrow> same_peers s u"
  by (simp add: same_peers_def)

lemma same_peersD: "same_peers s t \<Longrightarrow> peers t a \<noteq> None \<longleftrightarrow> peers s a \<noteq> None"
  by (auto simp: same_peers_def dom_def set_eq_iff)

lemma same_graph_same_peers: "same_graph s t \<Longrightarrow> same_peers s t"
  unfolding same_peers_def dom_def using same_graph_None(1) [of s t] by simp

text \<open>
  A producer that is created ends up with exactly the consumers that waited for it; \<open>s1\<close>
  is the state before the loop, in which only the send of the PLI differs from
  \<open>create_producer\<close>.
\<close>

lemma findOrCreateProducer_new:
  assumes inv: "router_inv s" and lib: "libsrtp_sizes lib" and "from": "peers s from = Some pf"
    and new: "\<And>r pr. prods s r = Some pr \<Longrightarrow> p_publisher pr = from \<Longrightarrow> p_originalSsrc pr \<noteq> ssrc"
  shows "runs (findOrCreateProducer lib from ssrc v s) (\<lambda>(r, s'). r = nextAddr s \<and>
     same_graph (link_list from v ssrc (nextAddr s) (all_consumers s) (create_producer from ssrc v s)) s' \<and>
     same_reach s s' \<and> routes s' = route_bind ssrc from (routes s) \<and> sent_to (remoteEp pf) s s')"
proof -
  let ?s1 = "create_producer from ssrc v s"
  obtain f where "findProducer from ssrc s = Some f" "f = None"
    using findProducer_runs [OF inv "from", of ssrc] new by (auto simp: runs_def split: option.splits)
  then have nf: "findProducer from ssrc s = Some None" by simp
  have live: "peers ?s1 from = Some (pf\<lparr>producers := producers pf @ [nextAddr s]\<rparr>)"
    by (simp add: create_producer_def "from")
  have "runs (if v then do { (b, s') \<leftarrow> sendProtectedRtcp lib 64 (pli_bytes 0 ssrc) from ?s1; Some s' }
         else Some ?s1) (\<lambda>s2. same_graph ?s1 s2 \<and> same_reach ?s1 s2 \<and> routes s2 = routes ?s1 \<and>
           conss s2 = conss ?s1 \<and> sent_to (remoteEp pf) ?s1 s2)"
    using sendProtectedRtcp_runs [OF lib, of "pli_bytes 0 ssrc" 64, OF _ live]
    by (auto simp: runs_def sent_to_same)
  then obtain s2 where s2: "(if v then do { (b, s') \<leftarrow> sendProtectedRtcp lib 64 (pli_bytes 0 ssrc) from ?s1;
      Some s' } else Some ?s1) = Some s2" and g: "same_graph ?s1 s2" and c: "conss s2 = conss ?s1"
    and reach2: "same_reach ?s1 s2" and rest2: "routes s2 = routes ?s1" "sent_to (remoteEp pf) ?s1 s2"
    by (auto elim!: runsE)
  have reach: "same_reach s s2"
    by (rule same_reach_trans [OF _ reach2]) (auto simp: same_reach_def create_producer_def "from")
  have ac: "all_consumers s2 = all_consumers s"
    using same_graph_all_consumers [OF g] by simp
  have lw: "link_waiting from v ssrc (nextAddr s) s2
      = Some (link_list from v ssrc (nextAddr s) (all_consumers s) s2)"
  proof (subst ac [symmetric], rule link_waiting_eq)
    show "distinct (all_consumers s2)" using distinct_all_consumers [OF inv] ac by simp
    show "prods s2 (nextAddr s) = Some (new_producer from ssrc v)"
      using g by (simp add: same_graph_def)
    show "peers s2 a \<noteq> None" if "a \<in> set (allPeers s2)" for a
    proof -
      have "a \<in> set (allPeers s)" using that g by (simp add: same_graph_def)
      then have "peers s a \<noteq> None" using inv_allD(2) [OF inv] by blast
      then have "peers ?s1 a \<noteq> None" by (auto simp: create_producer_def)
      then show ?thesis using same_peersD [OF same_graph_same_peers [OF g]] by simp
    qed
    show "conss s2 x \<noteq> None" if "x \<in> set (all_consumers s2)" for x
      using all_consumers_live [OF inv, of x] that ac c by simp
  qed
  have "findOrCreateProducer lib from ssrc v s
      = (if v then do { (b, s') \<leftarrow> sendProtectedRtcp lib 64 (pli_bytes 0 ssrc) from ?s1; Some s' }
         else Some ?s1) \<bind> (\<lambda>s2. link_waiting from v ssrc (nextAddr s) s2 \<bind> (\<lambda>s3. Some (nextAddr s, s3)))"
    by (simp add: findOrCreateProducer_def nf Let_def create_producer_def)
  then have "findOrCreateProducer lib from ssrc v s
      = Some (nextAddr s, link_list from v ssrc (nextAddr s) (all_consumers s) s2)"
    by (simp only: s2 lw Option.bind.simps)
  moreover have "same_reach s (link_list from v ssrc (nextAddr s) (all_consumers s) s2)"
    by (rule same_reach_trans [OF reach same_reach_link_list])
  ultimately show ?thesis
    using same_graph_link_list [OF g c] rest2
    by (simp add: link_list_def sent_to_def create_producer_def)
qed

end
