(* ===== verification/RouterRtp.thy ===== *)
theory RouterRtp
  imports RouterInv
begin

text \<open>
  RTP through the router: rewriting the header, creating producers on the first packet,
  and forwarding to the consumers. The lemmas show that each step keeps the invariant and
  is free of undefined behaviour, what is sent and to whom.
\<close>

section \<open>Rewriting the header\<close>

lemma int32_sub_self [simp]: "int32_sub a a = Some 0"
  by (simp add: int32_sub_def)

text \<open>
  The sequence number and the timestamp that go out are the ones that came in, and both
  offsets are always 0.
\<close>

definition rewritten_consumer :: "rtp_header \<Rightarrow> consumer \<Rightarrow> consumer" where
  "rewritten_consumer hdr c =
     c\<lparr>c_lastSentSeq := h_sequenceNumber hdr, c_lastSentTimestamp := h_timestamp hdr,
       c_seqDelta := 0, c_tsDelta := 0, c_seqInitialized := True\<rparr>"

lemma rewriteRtpHeader_eq:
  assumes "rtp_parse buf = Some hdr"
  shows "rewriteRtpHeader buf c =
    Some (writeFixedHeader buf (hdr\<lparr>h_ssrc := c_rewrittenSsrc c\<rparr>), rewritten_consumer hdr c)"
  using assms by (simp add: rewriteRtpHeader_def rewritten_consumer_def Let_def)

lemma rewriteRtpHeader_short: "rtp_parse buf = None \<Longrightarrow> rewriteRtpHeader buf c = Some (buf, c)"
  by (simp add: rewriteRtpHeader_def)

section \<open>Frames\<close>

lemma same_peers_create:
  "same_peers s (create_producer from ssrc v s)"
  by (simp add: same_peers_def create_producer_def)

lemma same_peers_link_list: "same_peers s (link_list from v ssrc r L s)"
  by (simp add: same_peers_def)

text \<open>
  What forwarding to the consumers \<open>cs\<close> may do: the graph stays, and at most one datagram
  per consumer goes out, to the consumer's subscriber.
\<close>

definition forwarded :: "nat list \<Rightarrow> ('s, 'd, 'z) sfu_scheme \<Rightarrow> ('s, 'd, 'z) sfu_scheme \<Rightarrow> bool" where
  "forwarded cs s t \<longleftrightarrow> same_graph s t \<and> same_reach s t \<and> routes t = routes s \<and>
     (\<exists>new. sent t = sent s @ new \<and> length new \<le> length cs \<and>
        (\<forall>d \<in> set new. \<exists>c \<in> set cs. recipient s c = Some (fst d)))"

lemma forwarded_Nil: "forwarded [] s s"
  by (simp add: forwarded_def)

lemma forwarded_append:
  assumes "forwarded xs s t" "forwarded ys t u"
  shows "forwarded (xs @ ys) s u"
proof -
  obtain n m where n: "sent t = sent s @ n" "length n \<le> length xs"
      "\<forall>d \<in> set n. \<exists>c \<in> set xs. recipient s c = Some (fst d)"
    and m: "sent u = sent t @ m" "length m \<le> length ys"
      "\<forall>d \<in> set m. \<exists>c \<in> set ys. recipient t c = Some (fst d)"
    using assms by (auto simp: forwarded_def)
  have "recipient t c = recipient s c" for c
    using assms(1) by (intro recipient_same_reach) (simp add: forwarded_def)
  with n m have "sent u = sent s @ (n @ m) \<and> length (n @ m) \<le> length (xs @ ys) \<and>
      (\<forall>d \<in> set (n @ m). \<exists>c \<in> set (xs @ ys). recipient s c = Some (fst d))"
    by fastforce
  moreover have "same_graph s u" "same_reach s u" "routes u = routes s"
    using assms same_graph_trans same_reach_trans by (auto simp: forwarded_def)
  ultimately show ?thesis unfolding forwarded_def by blast
qed

section \<open>Forwarding to one consumer\<close>

lemma rtp_forward_one_runs:
  assumes inv: "router_inv s" and lib: "libsrtp_sizes lib" and len: "length pkt + 10 \<le> 65536"
    and live: "conss s c \<noteq> None"
  shows "runs (rtp_forward_one lib pkt c s) (forwarded [c] s)"
proof -
  obtain cc where cc: "conss s c = Some cc" using live by blast
  obtain sub p where sub: "c_subscriber cc = Some sub" "peers s sub = Some p"
    using inv_conssD(1) [OF inv cc] by blast
  show ?thesis
  proof (cases "\<not> c_active cc \<or> srtp p = None \<or> c_recvMid cc = ''''")
    case True
    then show ?thesis by (cases "srtp p") (auto simp: rtp_forward_one_def cc sub forwarded_def)
  next
    case False
    then obtain ctx where go: "c_active cc" "srtp p = Some ctx" "c_recvMid cc \<noteq> ''''"
      by auto
    obtain out cc' where rw: "rewriteRtpHeader pkt cc = Some (out, cc')" "length out = length pkt"
      "cons_shape cc' = cons_shape cc" "cons_reach cc' = cons_reach cc"
    proof (cases "rtp_parse pkt")
      case None
      then show thesis using that rewriteRtpHeader_short by blast
    next
      case (Some hdr)
      then show thesis using that [OF rewriteRtpHeader_eq [OF Some]] inv_conssD(4,5) [OF inv cc]
        by (simp add: cons_shape_def cons_reach_def rewritten_consumer_def)
    qed
    have "runs (protect lib 65536 out ctx) (\<lambda>_. True)"
      using protect_fits [OF lib, of out 65536 ctx] len rw(2) by (auto elim: runs_mono)
    then obtain ctx' r where pr: "protect lib 65536 out ctx = Some (ctx', r)" by (auto elim!: runsE)
    define s1 where "s1 = s\<lparr>conss := (conss s)(c \<mapsto> cc'),
      peers := modify sub (\<lambda>x. x\<lparr>srtp := Some ctx'\<rparr>) (peers s)\<rparr>"
    define s2 where "s2 enc = s1\<lparr>sent := sent s1 @ [(remoteEp p, enc)],
      conss := modify c (\<lambda>x. x\<lparr>c_packetsSent := c_packetsSent x + 1,
        c_octetsSent := c_octetsSent x + of_nat (length pkt)\<rparr>) (conss s1)\<rparr>" for enc
    have g1: "same_graph s s1" "same_reach s s1"
      using rw(3,4) cc sub(2) by (auto simp: same_graph_def same_reach_def s1_def peer_shape_def)
    have g2: "same_graph s (s2 enc)" "same_reach s (s2 enc)" for enc
      using rw(3,4) cc sub(2)
      by (auto simp: same_graph_def same_reach_def s1_def s2_def peer_shape_def cons_shape_def cons_reach_def)
    have rec: "recipient s c = Some (remoteEp p)" using go sub cc by (simp add: recipient_def)
    have "rtp_forward_one lib pkt c s = Some (case r of None \<Rightarrow> s1 | Some enc \<Rightarrow> s2 enc)"
      using go len rw(1) pr
      by (simp add: rtp_forward_one_def cc sub s1_def s2_def Let_def split: option.split)
    moreover have "sent s1 = sent s" "routes s1 = routes s" "sent (s2 enc) = sent s @ [(remoteEp p, enc)]"
      "routes (s2 enc) = routes s" for enc
      by (simp_all add: s1_def s2_def)
    ultimately show ?thesis using g1 g2 rec by (cases r) (simp_all add: forwarded_def)
  qed
qed

section \<open>Forwarding to all targets\<close>

lemma rtp_forward_runs:
  assumes inv: "router_inv s" and lib: "libsrtp_sizes lib" and len: "length pkt + 10 \<le> 65536"
    and live: "\<And>c. c \<in> set targets \<Longrightarrow> conss s c \<noteq> None"
  shows "runs (rtp_forward lib pkt targets s) (forwarded targets s)"
  unfolding rtp_forward_def
proof (rule runs_foldM_prefix)
  fix ys x zs t
  assume split: "targets = ys @ x # zs" and t: "forwarded ys s t"
  then have g: "same_graph s t" by (simp add: forwarded_def)
  have "conss t x \<noteq> None" using live [of x] split same_graph_None(2) [OF g] by simp
  then have "runs (rtp_forward_one lib pkt x t) (forwarded [x] t)"
    by (rule rtp_forward_one_runs [OF same_graph_inv [OF g inv] lib len])
  then show "runs (rtp_forward_one lib pkt x t) (forwarded (ys @ [x]) s)"
    by (rule runs_mono) (rule forwarded_append [OF t])
qed (rule forwarded_Nil)

section \<open>Finding or creating the producer\<close>

lemma findProducer_eq:
  assumes "router_inv s" "peers s from \<noteq> None"
  shows "(\<exists>r pr. findProducer from ssrc s = Some (Some r) \<and> prods s r = Some pr \<and>
      p_publisher pr = from \<and> p_originalSsrc pr = ssrc) \<or>
    (findProducer from ssrc s = Some None \<and> (\<forall>r pr. prods s r = Some pr \<longrightarrow>
      p_publisher pr = from \<longrightarrow> p_originalSsrc pr \<noteq> ssrc))"
proof -
  obtain pf where pf: "peers s from = Some pf" using assms(2) by blast
  then obtain f where f: "findProducer from ssrc s = Some f"
    "case f of Some r \<Rightarrow> \<exists>pr. prods s r = Some pr \<and> p_publisher pr = from \<and> p_originalSsrc pr = ssrc
     | None \<Rightarrow> \<forall>r pr. prods s r = Some pr \<longrightarrow> p_publisher pr = from \<longrightarrow> p_originalSsrc pr \<noteq> ssrc"
    using findProducer_runs [OF assms(1) pf, of ssrc] unfolding runs_def by blast
  then show ?thesis by (cases f) simp_all
qed

text \<open>The state after the first packet of a new stream, up to the PLI.\<close>

definition with_producer ::
  "nat \<Rightarrow> u32 \<Rightarrow> bool \<Rightarrow> ('s, 'd, 'z) sfu_scheme \<Rightarrow> ('s, 'd, 'z) sfu_scheme" where
  "with_producer from ssrc v s =
     link_list from v ssrc (nextAddr s) (all_consumers s) (create_producer from ssrc v s)"

lemma with_producer_prods:
  "prods (with_producer from ssrc v s) r =
     (if r = nextAddr s then Some ((new_producer from ssrc v)\<lparr>p_consumers :=
        filter (waiting s from v) (all_consumers s)\<rparr>) else prods s r)"
  by (simp add: with_producer_def link_list_def new_producer_def)

lemma same_peers_with_producer: "same_peers s (with_producer from ssrc v s)"
  unfolding with_producer_def by (rule same_peers_trans [OF same_peers_create same_peers_link_list])

lemma with_producer_inv:
  assumes "router_inv s" "peers s from \<noteq> None" "ssrc \<noteq> 0"
    and "\<forall>r pr. prods s r = Some pr \<longrightarrow> p_publisher pr = from \<longrightarrow> p_originalSsrc pr \<noteq> ssrc"
  shows "router_inv (with_producer from ssrc v s)"
  unfolding with_producer_def using create_and_link_inv assms by blast

lemma rtp_targets_runs:
  assumes inv: "router_inv s" and lib: "libsrtp_sizes lib" and live: "peers s from \<noteq> None"
    and hdr: "rtp_parse pkt = Some hdr"
  shows "runs (rtp_targets lib vpts pkt from s) (\<lambda>(targets, s').
    (\<exists>r pr. s' = s \<and> prods s r = Some pr \<and> p_publisher pr = from \<and>
       p_originalSsrc pr = h_ssrc hdr \<and> targets = p_consumers pr) \<or>
    ((\<forall>r pr. prods s r = Some pr \<longrightarrow> p_publisher pr = from \<longrightarrow> p_originalSsrc pr \<noteq> h_ssrc hdr) \<and>
       same_graph (with_producer from (h_ssrc hdr) (h_payloadType hdr \<in> vpts) s) s' \<and>
       same_reach s s' \<and> sent_to (remoteEp (the (peers s from))) s s' \<and>
       routes s' = route_bind (h_ssrc hdr) from (routes s) \<and>
       targets = filter (waiting s from (h_payloadType hdr \<in> vpts)) (all_consumers s)))"
  using findProducer_eq [OF inv live, of "h_ssrc hdr"]
proof (elim disjE exE conjE)
  fix r pr assume "findProducer from (h_ssrc hdr) s = Some (Some r)" "prods s r = Some pr"
    "p_publisher pr = from" "p_originalSsrc pr = h_ssrc hdr"
  then show ?thesis by (auto simp: rtp_targets_def hdr)
next
  assume none: "findProducer from (h_ssrc hdr) s = Some None"
    and new: "\<forall>r pr. prods s r = Some pr \<longrightarrow> p_publisher pr = from \<longrightarrow> p_originalSsrc pr \<noteq> h_ssrc hdr"
  let ?v = "h_payloadType hdr \<in> vpts" and ?r = "nextAddr s"
  obtain pf where pf: "peers s from = Some pf" using live by blast
  have "runs (findOrCreateProducer lib from (h_ssrc hdr) ?v s) (\<lambda>(r, s'). r = ?r \<and>
      same_graph (with_producer from (h_ssrc hdr) ?v s) s' \<and> same_reach s s' \<and>
      routes s' = route_bind (h_ssrc hdr) from (routes s) \<and> sent_to (remoteEp pf) s s')"
    using findOrCreateProducer_new [OF inv lib pf, of "h_ssrc hdr" ?v] new
    unfolding with_producer_def by blast
  then obtain s' where s': "findOrCreateProducer lib from (h_ssrc hdr) ?v s = Some (?r, s')"
    "same_graph (with_producer from (h_ssrc hdr) ?v s) s'" "same_reach s s'"
    "routes s' = route_bind (h_ssrc hdr) from (routes s)" "sent_to (remoteEp pf) s s'"
    by (auto simp: runs_def)
  have "prods s' ?r = prods (with_producer from (h_ssrc hdr) ?v s) ?r"
    using s'(2) by (simp add: same_graph_def)
  with s' new none show ?thesis by (simp add: rtp_targets_def hdr with_producer_prods pf)
qed

section \<open>A whole packet\<close>

text \<open>The consumers to which a packet of \<open>from\<close> may go: those of which \<open>from\<close> is the publisher.\<close>

definition subscribed :: "('s, 'd, 'z) sfu_scheme \<Rightarrow> nat \<Rightarrow> nat set" where
  "subscribed s from = {c. \<exists>cc. conss s c = Some cc \<and> c_publisher cc = Some from}"

lemma same_reach_live: "same_reach s t \<Longrightarrow> conss t c = None \<longleftrightarrow> conss s c = None"
  by (metis map_option_is_None same_reach_def)

lemma rtp_targets_inv:
  assumes inv: "router_inv s" and lib: "libsrtp_sizes lib" and "from": "peers s from = Some pf"
    and hdr: "rtp_parse pkt = Some hdr" and nz: "h_ssrc hdr \<noteq> 0"
  shows "runs (rtp_targets lib vpts pkt from s) (\<lambda>(targets, s'). router_inv s' \<and> same_peers s s' \<and>
    set targets \<subseteq> subscribed s from \<and> (\<forall>c \<in> set targets. conss s' c \<noteq> None) \<and>
    same_reach s s' \<and> sent_to (remoteEp pf) s s')"
proof -
  have live: "peers s from \<noteq> None" using "from" by simp
  show ?thesis
    using rtp_targets_runs [OF inv lib live hdr, of vpts]
  proof (rule runs_mono, clarify, elim disjE exE conjE)
    fix targets s' r pr assume "s' = s" "prods s r = Some pr" "p_publisher pr = from" "targets = p_consumers pr"
    then show "router_inv s' \<and> same_peers s s' \<and> set targets \<subseteq> subscribed s from \<and>
        (\<forall>c \<in> set targets. conss s' c \<noteq> None) \<and> same_reach s s' \<and> sent_to (remoteEp pf) s s'"
      using inv inv_prodsD(4) [OF inv, of r pr] by (auto simp: subscribed_def sent_to_same)
  next
    fix targets s'
    let ?v = "h_payloadType hdr \<in> vpts"
    assume new: "\<forall>r pr. prods s r = Some pr \<longrightarrow> p_publisher pr = from \<longrightarrow> p_originalSsrc pr \<noteq> h_ssrc hdr"
      and g: "same_graph (with_producer from (h_ssrc hdr) ?v s) s'"
      and r: "same_reach s s'" "sent_to (remoteEp (the (peers s from))) s s'"
      and t: "targets = filter (waiting s from ?v) (all_consumers s)"
    have "router_inv s'" using same_graph_inv [OF g with_producer_inv [OF inv live nz new]] .
    moreover have "same_peers s s'"
      by (rule same_peers_trans [OF same_peers_with_producer same_graph_same_peers [OF g]])
    moreover have "set targets \<subseteq> subscribed s from"
      by (auto simp: t subscribed_def waiting_def split: option.splits)
    moreover from this have "conss s' c \<noteq> None" if "c \<in> set targets" for c
      using that same_reach_live [OF r(1), of c] by (auto simp: subscribed_def)
    ultimately show "router_inv s' \<and> same_peers s s' \<and> set targets \<subseteq> subscribed s from \<and>
        (\<forall>c \<in> set targets. conss s' c \<noteq> None) \<and> same_reach s s' \<and> sent_to (remoteEp pf) s s'"
      using r "from" by simp
  qed
qed

lemma onRtpPacket_short: "rtp_parse pkt = None \<Longrightarrow> onRtpPacket lib vpts pkt from s = Some s"
  by (simp add: onRtpPacket_def rtp_targets_def rtp_forward_def)

lemma onRtpPacket_runs:
  assumes inv: "router_inv s" and lib: "libsrtp_sizes lib" and "from": "peers s from = Some pf"
    and len: "length pkt + 10 \<le> 65536" and nz: "\<And>hdr. rtp_parse pkt = Some hdr \<Longrightarrow> h_ssrc hdr \<noteq> 0"
  shows "runs (onRtpPacket lib vpts pkt from s) (\<lambda>s'. router_inv s' \<and> same_peers s s' \<and>
    (\<exists>pli out. sent s' = sent s @ pli @ out \<and> length pli \<le> 1 \<and> (\<forall>d \<in> set pli. fst d = remoteEp pf) \<and>
      (\<forall>d \<in> set out. \<exists>c \<in> subscribed s from. recipient s c = Some (fst d))))"
proof (cases "rtp_parse pkt")
  case None
  then show ?thesis using inv by (auto simp: onRtpPacket_short intro!: exI [of _ "[]"])
next
  case (Some hdr)
  obtain targets s1 where s1: "rtp_targets lib vpts pkt from s = Some (targets, s1)" "router_inv s1"
    "same_peers s s1" "set targets \<subseteq> subscribed s from" "\<forall>c \<in> set targets. conss s1 c \<noteq> None"
    "same_reach s s1" "sent_to (remoteEp pf) s s1"
    using rtp_targets_inv [OF inv lib "from" Some nz [OF Some], of vpts] by (auto simp: runs_def)
  have "runs (rtp_forward lib pkt targets s1) (forwarded targets s1)"
    using rtp_forward_runs [OF s1(2) lib len] s1(5) by blast
  then obtain s' where s': "rtp_forward lib pkt targets s1 = Some s'" "forwarded targets s1 s'"
    by (auto simp: runs_def)
  then obtain new where new: "sent s' = sent s1 @ new"
    "\<forall>d \<in> set new. \<exists>c \<in> set targets. recipient s1 c = Some (fst d)"
    and g: "same_graph s1 s'" by (auto simp: forwarded_def)
  obtain pli where pli: "sent s1 = sent s @ pli" "length pli \<le> 1" "\<forall>d \<in> set pli. fst d = remoteEp pf"
    using s1(7) by (auto simp: sent_to_def)
  have "\<exists>c \<in> subscribed s from. recipient s c = Some (fst d)" if "d \<in> set new" for d
    using new(2) that s1(4) recipient_same_reach [OF s1(6)] by fastforce
  moreover have "router_inv s'" "same_peers s s'"
    using same_graph_inv [OF g s1(2)] same_peers_trans [OF s1(3) same_graph_same_peers [OF g]] .
  ultimately show ?thesis
    using pli new(1) by (simp add: onRtpPacket_def s1(1) s'(1)) blast
qed

end
