(* ===== verification/RouterRemove.thy ===== *)
theory RouterRemove
  imports RouterInv
begin

text \<open>
  \<open>Router::removePeer\<close>: the loops in closed form, the preservation of the invariant, and
  the effect on the peers that stay.
\<close>

section \<open>Step 1: the consumers of the peer's producers\<close>

definition out_ssrc :: "('s, 'd, 'z) sfu_scheme \<Rightarrow> nat \<Rightarrow> u32" where
  "out_ssrc s c = c_rewrittenSsrc (the (conss s c))"

definition detached :: "nat set \<Rightarrow> ('s, 'd, 'z) sfu_scheme \<Rightarrow> ('s, 'd, 'z) sfu_scheme" where
  "detached D s =
     s\<lparr>conss := (\<lambda>c. if c \<in> D then map_option (\<lambda>x. x\<lparr>c_publisher := None, c_active := False\<rparr>) (conss s c)
                     else conss s c),
       outSsrcToConsumer := (\<lambda>k. if k \<in> out_ssrc s ` D then None else outSsrcToConsumer s k)\<rparr>"

lemma detached_empty [simp]: "detached {} s = s"
  by (simp add: detached_def)

lemma detached_simps [simp]:
  "peers (detached D s) = peers s" "prods (detached D s) = prods s"
  "nextAddr (detached D s) = nextAddr s" "allPeers (detached D s) = allPeers s"
  "routes (detached D s) = routes s" "sent (detached D s) = sent s"
  by (simp_all add: detached_def)

lemma detach_subscription_step:
  assumes "conss s c \<noteq> None"
  shows "detach_subscription c (detached D s) = Some (detached (insert c D) s)"
proof -
  obtain cc where "conss s c = Some cc" using assms by blast
  then show ?thesis
    by (auto simp: detach_subscription_def detached_def out_ssrc_def fun_eq_iff modify_def)
qed

lemma detach_producer_step:
  assumes "prods s r = Some pr" "\<And>c. c \<in> set (p_consumers pr) \<Longrightarrow> conss s c \<noteq> None"
  shows "detach_producer r (detached D s) = Some (detached (D \<union> set (p_consumers pr)) s)"
proof -
  have "runs (foldM detach_subscription (p_consumers pr) (detached D s))
      (\<lambda>t. t = detached (D \<union> set (p_consumers pr)) s)"
  proof (rule runs_foldM_prefix)
    fix ys c zs t assume "p_consumers pr = ys @ c # zs" "t = detached (D \<union> set ys) s"
    then show "runs (detach_subscription c t) (\<lambda>t. t = detached (D \<union> set (ys @ [c])) s)"
      using detach_subscription_step [of s c "D \<union> set ys"] assms(2) by simp
  qed simp
  then show ?thesis by (simp add: detach_producer_def assms(1) runs_def)
qed

definition consumers_of :: "('s, 'd, 'z) sfu_scheme \<Rightarrow> nat list \<Rightarrow> nat set" where
  "consumers_of s rs = (\<Union>r \<in> set rs. set (p_consumers (the (prods s r))))"

lemma detach_producers:
  assumes "\<And>r. r \<in> set rs \<Longrightarrow> \<exists>pr. prods s r = Some pr \<and> (\<forall>c \<in> set (p_consumers pr). conss s c \<noteq> None)"
  shows "foldM detach_producer rs s = Some (detached (consumers_of s rs) s)"
proof -
  have "runs (foldM detach_producer rs s) (\<lambda>t. t = detached (consumers_of s rs) s)"
  proof (rule runs_foldM_prefix)
    fix ys r zs t assume rs: "rs = ys @ r # zs" and t: "t = detached (consumers_of s ys) s"
    obtain pr where pr: "prods s r = Some pr" "\<forall>c \<in> set (p_consumers pr). conss s c \<noteq> None"
      using assms [of r] rs by auto
    have "consumers_of s (ys @ [r]) = consumers_of s ys \<union> set (p_consumers pr)"
      by (simp add: consumers_of_def pr(1) Un_commute)
    then show "runs (detach_producer r t) (\<lambda>t. t = detached (consumers_of s (ys @ [r])) s)"
      using detach_producer_step [OF pr(1), of "consumers_of s ys"] pr(2) t by simp
  qed (simp add: consumers_of_def)
  then show ?thesis by (simp add: runs_def)
qed

section \<open>Step 2: the peer's own consumers\<close>

definition unlinked :: "nat set \<Rightarrow> ('s, 'd, 'z) sfu_scheme \<Rightarrow> ('s, 'd, 'z) sfu_scheme" where
  "unlinked L s =
     s\<lparr>prods := (\<lambda>r. map_option (\<lambda>p. p\<lparr>p_consumers := filter (\<lambda>c. c \<notin> L) (p_consumers p)\<rparr>) (prods s r)),
       outSsrcToConsumer := (\<lambda>k. if k \<in> out_ssrc s ` L then None else outSsrcToConsumer s k)\<rparr>"

lemma unlinked_empty [simp]: "unlinked {} s = s"
proof -
  have "map_option (\<lambda>p. p) x = x" for x :: "producer option" by (cases x) simp_all
  then show ?thesis by (simp add: unlinked_def)
qed

lemma unlinked_simps [simp]:
  "peers (unlinked L s) = peers s" "conss (unlinked L s) = conss s"
  "nextAddr (unlinked L s) = nextAddr s" "allPeers (unlinked L s) = allPeers s"
  "routes (unlinked L s) = routes s" "sent (unlinked L s) = sent s"
  by (simp_all add: unlinked_def)

text \<open>Every producer that has \<open>c\<close> in its list is the one that step 2 finds for \<open>c\<close>.\<close>

definition findable :: "('s, 'd, 'z) sfu_scheme \<Rightarrow> nat \<Rightarrow> consumer \<Rightarrow> bool" where
  "findable s c cc \<longleftrightarrow> (case c_publisher cc of
     None \<Rightarrow> \<forall>r pr. prods s r = Some pr \<longrightarrow> c \<notin> set (p_consumers pr)
   | Some q \<Rightarrow> \<exists>pq. peers s q = Some pq \<and> (\<forall>r \<in> set (producers pq). prods s r \<noteq> None) \<and>
       (\<forall>r pr. prods s r = Some pr \<longrightarrow> c \<in> set (p_consumers pr) \<longrightarrow> r \<in> set (producers pq) \<and>
          p_originalSsrc pr = c_publisherSsrc cc \<and> p_originalSsrc pr \<noteq> 0 \<and>
          (\<forall>r' pr'. prods s r' = Some pr' \<longrightarrow> r' \<in> set (producers pq) \<longrightarrow>
             p_originalSsrc pr' = c_publisherSsrc cc \<longrightarrow> r' = r)))"

lemma unlinked_insert:
  assumes "\<And>r' pr. prods s r' = Some pr \<Longrightarrow> c \<in> set (p_consumers pr) \<Longrightarrow> found = Some r'"
  shows "prods (unlinked (insert c L) s) = (case found of None \<Rightarrow> prods (unlinked L s)
    | Some r \<Rightarrow> modify r (\<lambda>p. p\<lparr>p_consumers := removeAll c (p_consumers p)\<rparr>) (prods (unlinked L s)))"
proof
  fix r'
  show "prods (unlinked (insert c L) s) r' = (case found of None \<Rightarrow> prods (unlinked L s)
    | Some r \<Rightarrow> modify r (\<lambda>p. p\<lparr>p_consumers := removeAll c (p_consumers p)\<rparr>) (prods (unlinked L s))) r'"
  proof (cases "prods s r'")
    case None
    then show ?thesis by (cases found) (auto simp: unlinked_def)
  next
    case (Some pr)
    have "filter (\<lambda>x. x \<noteq> c \<and> x \<notin> L) xs = removeAll c (filter (\<lambda>x. x \<notin> L) xs)" for xs
      by (induction xs) auto
    moreover have "filter (\<lambda>x. x \<noteq> c \<and> x \<notin> L) (p_consumers pr) = filter (\<lambda>x. x \<notin> L) (p_consumers pr)"
      if "found \<noteq> Some r'"
      using that assms [OF Some] by (intro filter_cong) auto
    ultimately show ?thesis using Some by (cases found) (auto simp: unlinked_def)
  qed
qed

lemma detach_consumer_step:
  assumes cc: "conss s c = Some cc" and f: "findable s c cc"
  shows "detach_consumer c (unlinked L s) = Some (unlinked (insert c L) s)"
proof -
  let ?t = "unlinked L s"
  have fin: "unlinked (insert c L) s = ?t\<lparr>prods := prods (unlinked (insert c L) s),
      outSsrcToConsumer := (outSsrcToConsumer ?t)(c_rewrittenSsrc cc := None)\<rparr>"
    by (simp add: unlinked_def out_ssrc_def cc fun_eq_iff)
  show ?thesis
  proof (cases "c_publisher cc")
    case None
    then have "prods (unlinked (insert c L) s) = prods ?t"
      using f unlinked_insert [of s c None L] by (simp add: findable_def)
    then show ?thesis
      by (subst fin) (simp add: detach_consumer_def cc None)
  next
    case (Some q)
    then obtain pq where q: "peers s q = Some pq" "\<And>r. r \<in> set (producers pq) \<Longrightarrow> prods s r \<noteq> None"
      and uniq: "\<And>r pr. prods s r = Some pr \<Longrightarrow> c \<in> set (p_consumers pr) \<Longrightarrow> r \<in> set (producers pq) \<and>
          p_originalSsrc pr = c_publisherSsrc cc \<and> p_originalSsrc pr \<noteq> 0 \<and>
          (\<forall>r' pr'. prods s r' = Some pr' \<longrightarrow> r' \<in> set (producers pq) \<longrightarrow>
             p_originalSsrc pr' = c_publisherSsrc cc \<longrightarrow> r' = r)"
      using f by (auto simp: findable_def)
    let ?p = "\<lambda>r. p_originalSsrc (the (prods s r)) = c_publisherSsrc cc \<and> p_originalSsrc (the (prods s r)) \<noteq> 0"
    define found where "found = List.find ?p (producers pq)"
    have fm: "findM (\<lambda>r. prods ?t r \<bind> (\<lambda>p. Some (p_originalSsrc p = c_publisherSsrc cc \<and> p_originalSsrc p \<noteq> 0)))
        (producers pq) = Some found"
      unfolding found_def
    proof (rule findM_defined)
      fix r assume "r \<in> set (producers pq)"
      then obtain pr where "prods s r = Some pr" using q(2) by blast
      then show "prods ?t r \<bind> (\<lambda>p. Some (p_originalSsrc p = c_publisherSsrc cc \<and> p_originalSsrc p \<noteq> 0))
          = Some (?p r)" by (simp add: unlinked_def)
    qed
    have "found = Some r" if r: "prods s r = Some pr" "c \<in> set (p_consumers pr)" for r pr
      unfolding found_def
    proof (rule find_unique)
      have u: "r \<in> set (producers pq)" "p_originalSsrc pr = c_publisherSsrc cc" "p_originalSsrc pr \<noteq> 0"
        "\<And>r' pr'. prods s r' = Some pr' \<Longrightarrow> r' \<in> set (producers pq) \<Longrightarrow>
           p_originalSsrc pr' = c_publisherSsrc cc \<Longrightarrow> r' = r"
        using uniq [OF r] by blast+
      show "r \<in> set (producers pq)" by (rule u)
      show "?p r" using u(2,3) r(1) by simp
      show "r' = r" if r': "r' \<in> set (producers pq)" "?p r'" for r'
      proof -
        obtain pr' where "prods s r' = Some pr'" using q(2) [OF r'(1)] by blast
        moreover from this have "p_originalSsrc pr' = c_publisherSsrc cc" using r'(2) by simp
        ultimately show ?thesis using u(4) r'(1) by blast
      qed
    qed
    then have "prods (unlinked (insert c L) s) = (case found of None \<Rightarrow> prods ?t
      | Some r \<Rightarrow> modify r (\<lambda>p. p\<lparr>p_consumers := removeAll c (p_consumers p)\<rparr>) (prods ?t))"
      by (rule unlinked_insert)
    then show ?thesis
      by (subst fin) (simp add: detach_consumer_def cc Some q(1) fm split: option.split)
  qed
qed

lemma detach_consumers:
  assumes "\<And>c. c \<in> set cs \<Longrightarrow> \<exists>cc. conss s c = Some cc \<and> findable s c cc"
  shows "foldM detach_consumer cs s = Some (unlinked (set cs) s)"
proof -
  have "runs (foldM detach_consumer cs s) (\<lambda>t. t = unlinked (set cs) s)"
  proof (rule runs_foldM_prefix)
    fix ys c zs t assume cs: "cs = ys @ c # zs" and t: "t = unlinked (set ys) s"
    obtain cc where "conss s c = Some cc" "findable s c cc" using assms [of c] cs by auto
    from detach_consumer_step [OF this, of "set ys"] t
    show "runs (detach_consumer c t) (\<lambda>t. t = unlinked (set (ys @ [c])) s)" by simp
  qed simp
  then show ?thesis by (simp add: runs_def)
qed

section \<open>The whole operation\<close>

definition removed :: "nat \<Rightarrow> ('s, 'd) peer \<Rightarrow> ('s, 'd, 'z) sfu_scheme \<Rightarrow> ('s, 'd, 'z) sfu_scheme" where
  "removed a p s =
     s\<lparr>peers := modify a (\<lambda>p. p\<lparr>producers := [], consumers := []\<rparr>) (peers s),
       prods := (\<lambda>r. if r \<in> set (producers p) then None else map_option
         (\<lambda>pr. pr\<lparr>p_consumers := filter (\<lambda>c. c \<notin> set (consumers p)) (p_consumers pr)\<rparr>) (prods s r)),
       conss := free (consumers p) (conss (detached (consumers_of s (producers p)) s)),
       outSsrcToConsumer := (\<lambda>k.
         if k \<in> out_ssrc s ` (consumers_of s (producers p) \<union> set (consumers p)) then None
         else outSsrcToConsumer s k),
       allPeers := removeAll a (allPeers s),
       routes := route_unbindPeer a (routes s)\<rparr>"

text \<open>The state between the two steps.\<close>

definition half_removed :: "nat \<Rightarrow> ('s, 'd) peer \<Rightarrow> ('s, 'd, 'z) sfu_scheme \<Rightarrow> ('s, 'd, 'z) sfu_scheme" where
  "half_removed a p s =
     (detached (consumers_of s (producers p)) s)\<lparr>prods := free (producers p) (prods s),
       peers := modify a (\<lambda>p. p\<lparr>producers := []\<rparr>) (peers s)\<rparr>"

lemma consumers_of_iff:
  assumes inv: "router_inv s" and p: "peers s a = Some p"
  shows "c \<in> consumers_of s (producers p) \<longleftrightarrow>
    (\<exists>r pr. prods s r = Some pr \<and> p_publisher pr = a \<and> c \<in> set (p_consumers pr))"
proof
  assume "c \<in> consumers_of s (producers p)"
  then obtain r where r: "r \<in> set (producers p)" "c \<in> set (p_consumers (the (prods s r)))"
    by (auto simp: consumers_of_def)
  obtain pr where "prods s r = Some pr" "p_publisher pr = a" using inv_peersD(3) [OF inv p r(1)] by blast
  with r(2) show "\<exists>r pr. prods s r = Some pr \<and> p_publisher pr = a \<and> c \<in> set (p_consumers pr)"
    by (intro exI [of _ r] exI [of _ pr]) simp
next
  assume "\<exists>r pr. prods s r = Some pr \<and> p_publisher pr = a \<and> c \<in> set (p_consumers pr)"
  then obtain r pr where r: "prods s r = Some pr" "p_publisher pr = a" "c \<in> set (p_consumers pr)" by blast
  then have "r \<in> set (producers p)" using inv_prodsD(3) [OF inv r(1)] p by auto
  with r(1,3) show "c \<in> consumers_of s (producers p)"
    unfolding consumers_of_def by (intro UN_I [of r]) simp_all
qed

text \<open>A consumer in a producer's list has that producer's publisher, so steps 1 and 2 do not meet.\<close>

lemma in_one_publisher:
  assumes inv: "router_inv s" and "prods s r = Some pr" "c \<in> set (p_consumers pr)"
    and "prods s r' = Some pr'" "c \<in> set (p_consumers pr')"
  shows "p_publisher pr = p_publisher pr'"
  using inv_prodsD(4) [OF inv assms(2,3)] inv_prodsD(4) [OF inv assms(4,5)] by auto

lemma owner_unique:
  assumes "router_inv s" "peers s a = Some p" "prods s r = Some pr"
  shows "r \<in> set (producers p) \<longleftrightarrow> p_publisher pr = a"
  using inv_peersD(3) [OF assms(1,2), of r] inv_prodsD(3) [OF assms(1,3)] assms(2,3) by auto

lemma half_removed_findable:
  assumes inv: "router_inv s" and p: "peers s a = Some p" and c: "c \<in> set (consumers p)"
  shows "\<exists>cc. conss (half_removed a p s) c = Some cc \<and> findable (half_removed a p s) c cc"
proof -
  let ?h = "half_removed a p s" and ?D = "consumers_of s (producers p)"
  obtain cc where cc: "conss s c = Some cc" using inv_peersD(4) [OF inv p c] by blast
  have R: "prods s r = Some pr \<and> p_publisher pr \<noteq> a" if "prods ?h r = Some pr" for r pr
    using that owner_unique [OF inv p] by (auto simp: half_removed_def split: if_splits)
  show ?thesis
  proof (cases "c \<in> ?D")
    case True
    then have "c \<notin> set (p_consumers pr)" if "prods ?h r = Some pr" for r pr
      using R [OF that] in_one_publisher [OF inv] consumers_of_iff [OF inv p] by metis
    then show ?thesis using True cc by (simp add: half_removed_def detached_def findable_def)
  next
    case False
    then have cc': "conss ?h c = Some cc" using cc by (simp add: half_removed_def detached_def)
    have pub: "c_publisher cc = Some (p_publisher pr)" "c_publisherSsrc cc = p_originalSsrc pr"
      "p_originalSsrc pr \<noteq> 0" if "prods ?h r = Some pr" "c \<in> set (p_consumers pr)" for r pr
      using R [OF that(1)] inv_prodsD(1,4) [OF inv] that(2) cc by fastforce+
    have "findable ?h c cc"
    proof (cases "c_publisher cc")
      case None
      then show ?thesis using pub(1) by (fastforce simp: findable_def)
    next
      case (Some q)
      obtain pq where pq: "peers s q = Some pq" using inv_conssD(2) [OF inv cc Some] by blast
      let ?pq = "if q = a then pq\<lparr>producers := []\<rparr> else pq"
      have "peers ?h q = Some ?pq" using pq by (auto simp: half_removed_def)
      moreover have "prods ?h r \<noteq> None" if r: "r \<in> set (producers ?pq)" for r
      proof -
        have "q \<noteq> a" "r \<in> set (producers pq)" using r by (auto split: if_splits)
        then obtain pr where "prods s r = Some pr" "p_publisher pr \<noteq> a"
          using inv_peersD(3) [OF inv pq] by blast
        then show ?thesis using owner_unique [OF inv p] by (simp add: half_removed_def)
      qed
      moreover have "r \<in> set (producers ?pq) \<and> p_originalSsrc pr = c_publisherSsrc cc \<and>
          p_originalSsrc pr \<noteq> 0 \<and> (\<forall>r' pr'. prods ?h r' = Some pr' \<longrightarrow> r' \<in> set (producers ?pq) \<longrightarrow>
            p_originalSsrc pr' = c_publisherSsrc cc \<longrightarrow> r' = r)"
        if r: "prods ?h r = Some pr" "c \<in> set (p_consumers pr)" for r pr
      proof -
        have q: "q = p_publisher pr" "q \<noteq> a" using pub(1) [OF r] Some R [OF r(1)] by auto
        moreover have "r' = r" if "prods ?h r' = Some pr'" "r' \<in> set (producers pq)"
            "p_originalSsrc pr' = c_publisherSsrc cc" for r' pr'
        proof (rule inv_ssrcsD [OF inv])
          show "prods s r' = Some pr'" "prods s r = Some pr" using R that(1) r(1) by blast+
          then show "p_publisher pr' = p_publisher pr" using owner_unique [OF inv pq] that(2) q(1) by simp
          show "p_originalSsrc pr' = p_originalSsrc pr" using that(3) pub(2) [OF r] by simp
        qed
        ultimately show ?thesis using pub [OF r] owner_unique [OF inv pq] R [OF r(1)] by auto
      qed
      ultimately show ?thesis
        unfolding findable_def Some option.case by (intro exI [of _ ?pq] conjI ballI allI impI) blast+
    qed
    with cc' show ?thesis by blast
  qed
qed

lemma out_ssrc_half_removed: "out_ssrc (half_removed a p s) c = out_ssrc s c"
  by (cases "conss s c") (simp_all add: out_ssrc_def half_removed_def detached_def)

lemma removePeer_eq:
  assumes inv: "router_inv s" and p: "peers s a = Some p"
  shows "removePeer a s = Some (removed a p s)"
proof -
  let ?D = "consumers_of s (producers p)" and ?h = "half_removed a p s"
  have step1: "foldM detach_producer (producers p) s = Some (detached ?D s)"
    using inv_peersD(3) [OF inv p] inv_prodsD(4) [OF inv] by (intro detach_producers) fastforce
  have step2: "foldM detach_consumer (consumers p) ?h = Some (unlinked (set (consumers p)) ?h)"
    using half_removed_findable [OF inv p] by (intro detach_consumers) blast
  have "removePeer a s = foldM detach_consumer (consumers p) ?h \<bind> (\<lambda>s3.
      Some (s3\<lparr>conss := free (consumers p) (conss s3),
               peers := modify a (\<lambda>p. p\<lparr>consumers := []\<rparr>) (peers s3),
               allPeers := removeAll a (allPeers s3), routes := route_unbindPeer a (routes s3)\<rparr>))"
    by (simp add: removePeer_def p step1 half_removed_def Let_def)
  also have "\<dots> = Some (removed a p s)"
  proof -
    have "modify a (consumers_update (\<lambda>_. [])) (modify a (producers_update (\<lambda>_. [])) (peers s))
        = modify a (\<lambda>p. p\<lparr>producers := [], consumers := []\<rparr>) (peers s)"
      by (auto simp: fun_eq_iff option.map_comp comp_def)
    moreover have "(k \<in> out_ssrc ?h ` L) = (k \<in> out_ssrc s ` L)" for k L
      by (simp add: image_iff out_ssrc_half_removed)
    ultimately show ?thesis
      unfolding step2
      by (auto intro!: sfu.equality simp: removed_def unlinked_def half_removed_def detached_def image_Un
          fun_eq_iff)
  qed
  finally show ?thesis .
qed

section \<open>The invariant\<close>

lemma removed_peers:
  "peers (removed a p s) b = (if b = a then map_option (\<lambda>p. p\<lparr>producers := [], consumers := []\<rparr>) (peers s a)
     else peers s b)"
  by (simp add: removed_def)

lemma removed_prods:
  assumes "router_inv s" "peers s a = Some p"
  shows "prods (removed a p s) r = Some pr \<longleftrightarrow> (\<exists>pr0. prods s r = Some pr0 \<and> p_publisher pr0 \<noteq> a \<and>
    pr = pr0\<lparr>p_consumers := filter (\<lambda>c. c \<notin> set (consumers p)) (p_consumers pr0)\<rparr>)"
  using owner_unique [OF assms] by (auto simp: removed_def)

lemma removed_conss:
  "conss (removed a p s) c = Some cc \<longleftrightarrow> c \<notin> set (consumers p) \<and> (\<exists>cc0. conss s c = Some cc0 \<and>
    cc = (if c \<in> consumers_of s (producers p) then cc0\<lparr>c_publisher := None, c_active := False\<rparr> else cc0))"
  by (auto simp: removed_def detached_def)

text \<open>A consumer that keeps its publisher is not changed, and the publisher is another peer's.\<close>

lemma removed_conss_kept:
  assumes inv: "router_inv s" and p: "peers s a = Some p"
    and c: "conss s c = Some cc" "c \<notin> set (consumers p)"
    and r: "prods s r = Some pr" "p_publisher pr \<noteq> a" "c \<in> set (p_consumers pr)"
  shows "conss (removed a p s) c = Some cc"
proof -
  have "c \<notin> consumers_of s (producers p)"
  proof
    assume "c \<in> consumers_of s (producers p)"
    then obtain r' pr' where r': "prods s r' = Some pr'" "c \<in> set (p_consumers pr')" "p_publisher pr' = a"
      using consumers_of_iff [OF inv p] by blast
    show False using in_one_publisher [OF inv r'(1,2) r(1,3)] r'(3) r(2) by simp
  qed
  with c show ?thesis by (simp add: removed_conss)
qed

lemma removed_conss_publisher:
  assumes "conss (removed a p s) c = Some cc" "c_publisher cc = Some q"
  shows "conss s c = Some cc \<and> c \<notin> set (consumers p) \<and> c \<notin> consumers_of s (producers p)"
proof -
  obtain cc0 where "conss s c = Some cc0" "c \<notin> set (consumers p)"
    "cc = (if c \<in> consumers_of s (producers p) then cc0\<lparr>c_publisher := None, c_active := False\<rparr> else cc0)"
    using assms(1) unfolding removed_conss by blast
  with assms(2) show ?thesis by (cases "c \<in> consumers_of s (producers p)") simp_all
qed

lemma removed_inv_peers:
  assumes inv: "router_inv s" and p: "peers s a = Some p"
  shows "inv_peers (removed a p s)"
  unfolding inv_peers_def
proof (intro allI impI)
  let ?t = "removed a p s"
  fix b q assume b: "peers ?t b = Some q"
  show "distinct (producers q) \<and> distinct (consumers q) \<and>
     (\<forall>r \<in> set (producers q). \<exists>pr. prods ?t r = Some pr \<and> p_publisher pr = b) \<and>
     (\<forall>c \<in> set (consumers q). \<exists>cc. conss ?t c = Some cc \<and> c_subscriber cc = Some b)"
  proof (cases "b = a")
    case True
    with b show ?thesis by (auto simp: removed_peers)
  next
    case False
    with b have q: "peers s b = Some q" by (simp add: removed_peers)
    have "\<exists>pr. prods ?t r = Some pr \<and> p_publisher pr = b" if "r \<in> set (producers q)" for r
      using inv_peersD(3) [OF inv q that] False by (fastforce simp: removed_prods [OF inv p])
    moreover have "\<exists>cc. conss ?t c = Some cc \<and> c_subscriber cc = Some b" if c: "c \<in> set (consumers q)" for c
    proof -
      obtain cc where cc: "conss s c = Some cc" "c_subscriber cc = Some b"
        using inv_peersD(4) [OF inv q c] by blast
      then have "c \<notin> set (consumers p)" using inv_peersD(4) [OF inv p, of c] False by auto
      with cc show ?thesis by (simp add: removed_conss)
    qed
    ultimately show ?thesis using inv_peersD(1,2) [OF inv q] by blast
  qed
qed

lemma removed_inv_prods:
  assumes inv: "router_inv s" and p: "peers s a = Some p"
  shows "inv_prods (removed a p s)"
  unfolding inv_prods_def
proof (intro allI impI)
  let ?t = "removed a p s"
  fix r pr assume "prods ?t r = Some pr"
  then obtain pr0 where pr0: "prods s r = Some pr0" "p_publisher pr0 \<noteq> a"
    and pr: "pr = pr0\<lparr>p_consumers := filter (\<lambda>c. c \<notin> set (consumers p)) (p_consumers pr0)\<rparr>"
    using removed_prods [OF inv p] by blast
  have "\<exists>cc. conss ?t c = Some cc \<and> c_publisher cc = Some (p_publisher pr0) \<and>
      c_publisherSsrc cc = p_originalSsrc pr0 \<and> c_isVideo cc = p_isVideo pr0"
    if "c \<in> set (p_consumers pr0)" "c \<notin> set (consumers p)" for c
    using inv_prodsD(4) [OF inv pr0(1) that(1)] removed_conss_kept [OF inv p _ that(2) pr0 that(1)] by blast
  moreover have "\<exists>q. peers ?t (p_publisher pr0) = Some q \<and> r \<in> set (producers q)"
    using inv_prodsD(3) [OF inv pr0(1)] pr0(2) by (simp add: removed_peers)
  ultimately show "p_originalSsrc pr \<noteq> 0 \<and> distinct (p_consumers pr) \<and>
     (\<exists>p. peers ?t (p_publisher pr) = Some p \<and> r \<in> set (producers p)) \<and>
     (\<forall>c \<in> set (p_consumers pr). \<exists>cc. conss ?t c = Some cc \<and>
        c_publisher cc = Some (p_publisher pr) \<and> c_publisherSsrc cc = p_originalSsrc pr \<and>
        c_isVideo cc = p_isVideo pr)"
    using inv_prodsD(1,2) [OF inv pr0(1)] by (simp add: pr)
qed

lemma removed_inv_conss:
  assumes inv: "router_inv s" and p: "peers s a = Some p"
  shows "inv_conss (removed a p s)"
  unfolding inv_conss_def
proof (intro allI impI)
  let ?t = "removed a p s"
  fix c cc assume "conss ?t c = Some cc"
  then obtain cc0 where cc0: "c \<notin> set (consumers p)" "conss s c = Some cc0"
    "c_subscriber cc = c_subscriber cc0" "c_publisher cc = Some q \<Longrightarrow> c_publisher cc0 = Some q" for q
    by (auto simp: removed_conss split: if_splits)
  obtain b pb where b: "c_subscriber cc0 = Some b" "peers s b = Some pb" "c \<in> set (consumers pb)"
    using inv_conssD(1) [OF inv cc0(2)] by blast
  have "b \<noteq> a" using b cc0(1) p by auto
  then have "\<exists>a p. c_subscriber cc = Some a \<and> peers ?t a = Some p \<and> c \<in> set (consumers p)"
    using b cc0(3) by (simp add: removed_peers)
  moreover have "peers ?t q \<noteq> None" if "c_publisher cc = Some q" for q
    using inv_conssD(2) [OF inv cc0(2) cc0(4) [OF that]] by (auto simp: removed_peers)
  ultimately show "(\<exists>a p. c_subscriber cc = Some a \<and> peers ?t a = Some p \<and> c \<in> set (consumers p)) \<and>
      (\<forall>q. c_publisher cc = Some q \<longrightarrow> peers ?t q \<noteq> None)" by blast
qed

lemma removed_inv_linked:
  assumes inv: "router_inv s" and p: "peers s a = Some p"
  shows "inv_linked (removed a p s)"
  unfolding inv_linked_def
proof (intro allI impI)
  let ?t = "removed a p s"
  fix c cc q assume "conss ?t c = Some cc" "c_publisher cc = Some q"
  then have c: "conss s c = Some cc" "c_publisher cc = Some q" "c \<notin> set (consumers p)"
    "c \<notin> consumers_of s (producers p)" using removed_conss_publisher by blast+
  show "waits_or_linked (prods ?t) c cc q"
  proof (rule waits_or_linked_transfer [OF inv_conssD(3) [OF inv c(1,2)]])
    fix r pr assume "prods ?t r = Some pr" "p_publisher pr = q" "p_isVideo pr = c_isVideo cc"
    moreover from this(1) obtain pr0 where "prods s r = Some pr0"
      "pr = pr0\<lparr>p_consumers := filter (\<lambda>c. c \<notin> set (consumers p)) (p_consumers pr0)\<rparr>"
      using removed_prods [OF inv p] by blast
    ultimately show "\<exists>r0 pr0. prods s r0 = Some pr0 \<and> p_publisher pr0 = q \<and> p_isVideo pr0 = c_isVideo cc"
      by (intro exI [of _ r] exI [of _ pr0]) simp
  next
    fix r pr assume r: "prods s r = Some pr" "p_publisher pr = q" "c \<in> set (p_consumers pr)"
    then have "q \<noteq> a" using c(4) consumers_of_iff [OF inv p] by blast
    with r c(3) show "\<exists>pr'. prods ?t r = Some pr' \<and> p_publisher pr' = q \<and>
        p_originalSsrc pr' = p_originalSsrc pr \<and> c \<in> set (p_consumers pr')"
      by (auto simp: removed_prods [OF inv p])
  qed
qed

lemma removed_inv_out:
  assumes inv: "router_inv s"
  shows "inv_out (removed a p s)"
  unfolding inv_out_def
proof (intro allI impI)
  let ?t = "removed a p s"
  fix k c assume "outSsrcToConsumer ?t k = Some c"
  then have k: "outSsrcToConsumer s k = Some c" "k \<notin> out_ssrc s ` (consumers_of s (producers p) \<union> set (consumers p))"
    by (auto simp: removed_def split: if_splits)
  then obtain cc where cc: "conss s c = Some cc" "c_rewrittenSsrc cc = k" using inv_outD [OF inv] by blast
  then have "out_ssrc s c = k" by (simp add: out_ssrc_def)
  then have "c \<notin> consumers_of s (producers p)" "c \<notin> set (consumers p)" using k(2) by blast+
  with cc show "\<exists>cc. conss ?t c = Some cc \<and> c_rewrittenSsrc cc = k" by (simp add: removed_conss)
qed

lemma removed_inv:
  assumes inv: "router_inv s" and p: "peers s a = Some p"
  shows "router_inv (removed a p s)"
proof -
  let ?t = "removed a p s"
  have "inv_ssrcs ?t"
    unfolding inv_ssrcs_def using inv_ssrcsD [OF inv] by (fastforce simp: removed_prods [OF inv p])
  moreover have "allPeers ?t = removeAll a (allPeers s)" "nextAddr ?t = nextAddr s"
    by (simp_all add: removed_def)
  then have "inv_all ?t" "inv_fresh ?t"
    using inv_allD [OF inv] inv_freshD [OF inv]
    by (auto simp: inv_all_def inv_fresh_def removed_peers removed_def detached_def distinct_removeAll)
  moreover have "inv_delta ?t"
    unfolding inv_delta_def using inv_conssD(4,5) [OF inv] by (auto simp: removed_conss)
  moreover have "inv_routes ?t"
  proof -
    have ri: "route_invar (routes s)" by (rule inv_routesD(1) [OF inv])
    have "publishes (prods ?t) b k" if "publishes (prods s) b k" "b \<noteq> a" for b k
      using that(1) by (rule publishes_mono) (use that(2) in \<open>auto simp: removed_prods [OF inv p]\<close>)
    moreover have "publishes (prods s) b k" if "route_lookup k (routes s) = Some b" for b k
      using inv that by (simp add: router_inv_def inv_routes_def)
    moreover have "routes ?t = route_unbindPeer a (routes s)" by (simp add: removed_def)
    ultimately show ?thesis
      using rt.lookup_unbind [OF ri] rt.invar_unbind [OF ri] by (auto simp: inv_routes_def)
  qed
  ultimately show ?thesis
    using removed_inv_peers [OF assms] removed_inv_prods [OF assms] removed_inv_conss [OF assms]
      removed_inv_linked [OF assms] removed_inv_out [OF inv]
    by (simp add: router_inv_def)
qed

lemma removePeer_runs:
  assumes "router_inv s" "peers s a \<noteq> None"
  shows "runs (removePeer a s) (\<lambda>s'. router_inv s' \<and> same_peers s s')"
proof -
  obtain p where p: "peers s a = Some p" using assms(2) by blast
  have "same_peers s (removed a p s)" by (simp add: same_peers_def removed_def)
  with p show ?thesis using removePeer_eq [OF assms(1) p] removed_inv [OF assms(1) p] by simp
qed

end
