(* ===== verification/RouterBind.thy ===== *)
theory RouterBind
  imports RouterRemove
begin

text \<open>
  The two operations of the router that \<open>SendOffer\<close> uses, as one update: which consumer
  gets a mid, and which mids of a subscriber are bound to which outgoing SSRCs.
\<close>

definition mid_match :: "('s, 'd, 'z) sfu_scheme \<Rightarrow> string \<Rightarrow> bool \<Rightarrow> nat \<Rightarrow> bool" where
  "mid_match s pid v c \<longleftrightarrow> (\<exists>cc q pub. conss s c = Some cc \<and> c_isVideo cc = v \<and>
     c_publisher cc = Some q \<and> peers s q = Some pub \<and> peerId pub = pid)"

lemma bindConsumerByMid_eq:
  assumes inv: "router_inv s" and sub: "peers s sub = Some p"
  shows "bindConsumerByMid sub pid v mid s = (case List.find (mid_match s pid v) (consumers p) of
      None \<Rightarrow> Some (0, s)
    | Some c \<Rightarrow> Some (out_ssrc s c, s\<lparr>conss := modify c (\<lambda>x. x\<lparr>c_recvMid := mid\<rparr>) (conss s)\<rparr>))"
proof -
  have "(conss s c \<bind> (\<lambda>cc. if c_isVideo cc = v
      then (case c_publisher cc of None \<Rightarrow> Some False
            | Some q \<Rightarrow> peers s q \<bind> (\<lambda>pub. Some (peerId pub = pid)))
      else Some False)) = Some (mid_match s pid v c)" if c: "c \<in> set (consumers p)" for c
  proof -
    obtain cc where cc: "conss s c = Some cc" using inv_peersD(4) [OF inv sub c] by blast
    show ?thesis
      using inv_conssD(2) [OF inv cc] by (auto simp: cc mid_match_def split: option.split)
  qed
  then have "findM (\<lambda>c. conss s c \<bind> (\<lambda>cc. if c_isVideo cc = v
      then (case c_publisher cc of None \<Rightarrow> Some False
            | Some q \<Rightarrow> peers s q \<bind> (\<lambda>pub. Some (peerId pub = pid)))
      else Some False)) (consumers p) = Some (List.find (mid_match s pid v) (consumers p))"
    by (rule findM_defined)
  moreover have "conss s c \<noteq> None" if "List.find (mid_match s pid v) (consumers p) = Some c" for c
    using find_Some_in [OF that] by (auto simp: mid_match_def)
  ultimately show ?thesis
    by (fastforce simp: bindConsumerByMid_def sub out_ssrc_def split: option.split)
qed

definition bound_mids :: "('s, 'd, 'z) sfu_scheme \<Rightarrow> nat list \<Rightarrow> (string \<times> u32) list" where
  "bound_mids s cs = map (\<lambda>c. (c_recvMid (the (conss s c)), out_ssrc s c))
     (filter (\<lambda>c. c_recvMid (the (conss s c)) \<noteq> '''') cs)"

lemma getAllBoundSsrcs_eq:
  assumes inv: "router_inv s" and sub: "peers s sub = Some p"
  shows "getAllBoundSsrcs sub s = Some (map_of (rev (bound_mids s (consumers p))))"
proof -
  let ?f = "\<lambda>c result. conss s c \<bind> (\<lambda>cc. if c_recvMid cc \<noteq> ''''
      then Some (result(c_recvMid cc \<mapsto> c_rewrittenSsrc cc)) else Some result)"
  have "runs (foldM ?f (consumers p) Map.empty) (\<lambda>m. m = map_of (rev (bound_mids s (consumers p))))"
  proof (rule runs_foldM_prefix)
    fix ys c zs m assume cs: "consumers p = ys @ c # zs" and m: "m = map_of (rev (bound_mids s ys))"
    obtain cc where "conss s c = Some cc" using inv_peersD(4) [OF inv sub, of c] cs by auto
    then show "runs (?f c m) (\<lambda>m. m = map_of (rev (bound_mids s (ys @ [c]))))"
      using m by (simp add: bound_mids_def out_ssrc_def)
  qed (simp add: bound_mids_def)
  then show ?thesis by (simp add: getAllBoundSsrcs_def sub runs_def)
qed

end
