(* ===== verification/RouterRtcp.thy ===== *)
theory RouterRtcp
  imports RouterInv
begin

text \<open>
  RTCP through the router: the handlers for PLI, NACK and RR, the traversal of a compound
  packet and the sender reports. The lemmas show where a message goes and with which SSRC,
  and that everything but a forwarded receiver report stays inside its buffers.
\<close>

lemma runs_second: "runs m (\<lambda>(b, u). Q u) \<Longrightarrow> runs (m \<bind> (\<lambda>(b, u). Some u)) Q"
  by (auto simp: runs_def)

section \<open>Feedback that is translated\<close>

lemma forward_feedback_runs:
  assumes inv: "router_inv s" and lib: "libsrtp_sizes lib" and len: "length pkt + 14 \<le> cap"
    and q: "c_publisher cc = Some q" and cc: "conss s c = Some cc"
  shows "runs (sendProtectedRtcp lib cap pkt q s) (\<lambda>(b, s'). same_graph s s' \<and> same_reach s s' \<and>
    routes s' = routes s \<and> (\<exists>pe. peers s q = Some pe \<and> sent_to (remoteEp pe) s s'))"
proof -
  obtain pe where pe: "peers s q = Some pe" using inv_conssD(2) [OF inv cc q] by blast
  show ?thesis
    using sendProtectedRtcp_runs [OF lib len pe] by (rule runs_mono) (auto simp: pe)
qed

text \<open>What a feedback message may do: at most one datagram, to the publisher of the consumer named.\<close>

definition feedback_to ::
  "u32 \<Rightarrow> ('s, 'd, 'z) sfu_scheme \<Rightarrow> ('s, 'd, 'z) sfu_scheme \<Rightarrow> bool" where
  "feedback_to k s t \<longleftrightarrow> same_graph s t \<and> same_reach s t \<and> routes t = routes s \<and>
     (sent t = sent s \<or> (\<exists>c cc q pe. outSsrcToConsumer s k = Some c \<and> conss s c = Some cc \<and>
        c_publisher cc = Some q \<and> peers s q = Some pe \<and> sent_to (remoteEp pe) s t))"

lemma feedback_to_refl [simp]: "feedback_to k s s"
  by (simp add: feedback_to_def)

lemma handlePLI_runs:
  assumes inv: "router_inv s" and lib: "libsrtp_sizes lib" and len: "p + 12 \<le> length d"
  shows "runs (handlePLI lib d p n sub s) (feedback_to (at32 d (p + 8)) s)"
proof (cases "outSsrcToConsumer s (at32 d (p + 8))")
  case None
  then show ?thesis using len by (simp add: handlePLI_def rd32_def findConsumerByOutSsrc_def)
next
  case (Some c)
  then obtain cc where cc: "conss s c = Some cc" using inv_outD [OF inv] by blast
  show ?thesis
  proof (cases "c_publisher cc")
    case None
    then show ?thesis
      using len Some by (simp add: handlePLI_def rd32_def findConsumerByOutSsrc_def cc)
  next
    case q: (Some q)
    have "runs (sendProtectedRtcp lib 64 (pli_bytes 0 (c_publisherSsrc cc)) q s)
        (\<lambda>(b, s'). feedback_to (at32 d (p + 8)) s s')"
      using forward_feedback_runs [OF inv lib _ q cc, of "pli_bytes 0 (c_publisherSsrc cc)" 64]
      by (auto elim!: runs_mono simp: feedback_to_def Some cc q)
    then show ?thesis
      using len by (simp add: handlePLI_def rd32_def findConsumerByOutSsrc_def Some cc q runs_second)
  qed
qed

lemma handleNACK_runs:
  assumes inv: "router_inv s" and lib: "libsrtp_sizes lib" and len: "p + 16 \<le> length d"
  shows "runs (handleNACK lib d p n sub s) (feedback_to (at32 d (p + 8)) s)"
proof (cases "outSsrcToConsumer s (at32 d (p + 8))")
  case None
  then show ?thesis using len by (simp add: handleNACK_def rd32_def rd16_def findConsumerByOutSsrc_def)
next
  case (Some c)
  then obtain cc where cc: "conss s c = Some cc" using inv_outD [OF inv] by blast
  show ?thesis
  proof (cases "c_publisher cc")
    case None
    then show ?thesis
      using len Some by (simp add: handleNACK_def rd32_def rd16_def findConsumerByOutSsrc_def cc)
  next
    case q: (Some q)
    have "runs (sendProtectedRtcp lib 64 (nack_bytes 0 (c_publisherSsrc cc) pid blp) q s)
        (\<lambda>(b, s'). feedback_to (at32 d (p + 8)) s s')" for pid blp
      using forward_feedback_runs [OF inv lib _ q cc, of "nack_bytes 0 (c_publisherSsrc cc) pid blp" 64]
      by (auto elim!: runs_mono simp: feedback_to_def Some cc q)
    then show ?thesis
      using len
      by (simp add: handleNACK_def rd32_def rd16_def findConsumerByOutSsrc_def Some cc q Let_def runs_second)
  qed
qed

section \<open>Receiver reports\<close>

lemma handleRR_unknown:
  assumes "p + n \<le> length d" "8 \<le> n \<Longrightarrow> outSsrcToConsumer s (at32 d (p + 4)) = None"
  shows "handleRR lib d p n sub s = Some s"
  using assms by (simp add: handleRR_def rd32_def findConsumerByOutSsrc_def)

text \<open>A report that is forwarded is protected in a buffer of exactly its size.\<close>

lemma handleRR_overflow:
  assumes lib: "libsrtp_sizes lib" and len: "p + n \<le> length d" "8 \<le> n"
    and c: "outSsrcToConsumer s (at32 d (p + 4)) = Some c" "conss s c = Some cc" "c_publisher cc = Some q"
    and q: "peers s q = Some pe" "srtp pe = Some ctx" "inited ctx" "srtpOut ctx = Some sess"
    and ok: "\<And>b. \<exists>sess' out. srtp_protect_rtcp lib sess b = (sess', Some out)"
  shows "handleRR lib d p n sub s = None"
proof -
  let ?copy = "take n (drop p d)"
  obtain out where out: "(if 12 \<le> length ?copy then poke 8 (be32 (c_publisherSsrc cc)) ?copy else Some ?copy) = Some out"
  proof (cases "12 \<le> length ?copy")
    case True
    then show thesis using that unfolding poke_def by simp
  next
    case False
    then show thesis using that by (simp only: if_False)
  qed
  obtain sess' res where "srtp_protect_rtcp lib sess out = (sess', Some res)" using ok by blast
  then have "protectRtcp lib (length out) out ctx = None"
    by (rule protectRtcp_tight_overflows [OF lib q(3,4)])
  then have "sendProtectedRtcp lib (length out) out q s = None"
    by (simp add: sendProtectedRtcp_def q)
  moreover have "handleRR lib d p n sub s =
      (if 12 \<le> length ?copy then poke 8 (be32 (c_publisherSsrc cc)) ?copy else Some ?copy)
      \<bind> (\<lambda>out. sendProtectedRtcp lib (length out) out q s \<bind> (\<lambda>(b, s'). Some s'))"
    using len c q by (simp add: handleRR_def rd32_def findConsumerByOutSsrc_def)
  ultimately show ?thesis by (simp only: out) simp
qed

section \<open>A compound packet\<close>

text \<open>No receiver report of the packet comes from an outgoing SSRC of the router.\<close>

definition no_report_forwarded :: "u8 list \<Rightarrow> ('s, 'd, 'z) sfu_scheme \<Rightarrow> bool" where
  "no_report_forwarded d s \<longleftrightarrow> (\<forall>(p, n) \<in> set (subpackets d 0).
     d ! (p + 1) = 201 \<longrightarrow> 8 \<le> n \<longrightarrow> outSsrcToConsumer s (at32 d (p + 4)) = None)"

lemma router_rtcp_case_runs:
  assumes inv: "router_inv s" and lib: "libsrtp_sizes lib" and len: "p + n \<le> length d" "4 \<le> n"
    and rr: "d ! (p + 1) = 201 \<Longrightarrow> 8 \<le> n \<Longrightarrow> outSsrcToConsumer s (at32 d (p + 4)) = None"
  shows "runs (router_rtcp_case lib from d p n s) (\<lambda>t. t = s \<or> feedback_to (at32 d (p + 8)) s t)"
proof -
  have "runs (handlePLI lib d p n from s) (feedback_to (at32 d (p + 8)) s)"
    if "rtcpIsPLI d p (length d - p)"
    using that by (intro handlePLI_runs [OF inv lib]) (auto simp: rtcpIsPLI_def)
  moreover have "runs (handleNACK lib d p n from s) (feedback_to (at32 d (p + 8)) s)"
    if "rtcpIsNACK d p (length d - p)"
    using that by (intro handleNACK_runs [OF inv lib]) (auto simp: rtcpIsNACK_def)
  moreover have "handleRR lib d p n from s = Some s" if "rtcpIsRR d p (length d - p)"
    using that rr by (intro handleRR_unknown [OF len(1)]) (auto simp: rtcpIsRR_def)
  ultimately show ?thesis
    by (auto simp: router_rtcp_case_def Let_def elim: runs_mono)
qed

lemma onRtcpPacket_runs:
  assumes inv: "router_inv s" and lib: "libsrtp_sizes lib" and rr: "no_report_forwarded d s"
  shows "runs (onRtcpPacket lib d from s) (\<lambda>t. same_graph s t \<and> same_reach s t)"
  unfolding onRtcpPacket_def rtcp_r.loop_foldM
proof (rule runs_foldM)
  fix x t assume x: "x \<in> set (subpackets d 0)" and t: "same_graph s t \<and> same_reach s t"
  obtain p n where pn: "x = (p, n)" by (cases x)
  then have b: "p + n \<le> length d" "4 \<le> n" using subpackets_bounds [of p n d 0] x by auto
  have out: "outSsrcToConsumer t = outSsrcToConsumer s" using t by (simp add: same_graph_def)
  have inv_t: "router_inv t" using t same_graph_inv [OF _ inv] by blast
  have "outSsrcToConsumer t (at32 d (p + 4)) = None" if "d ! (p + 1) = 201" "8 \<le> n"
    using rr x that unfolding no_report_forwarded_def out pn by blast
  then have "runs (router_rtcp_case lib from d p n t) (\<lambda>u. u = t \<or> feedback_to (at32 d (p + 8)) t u)"
    by (rule router_rtcp_case_runs [OF inv_t lib b])
  then show "runs ((case x of (o', n) \<Rightarrow> router_rtcp_case lib from d o' n) t) (\<lambda>t. same_graph s t \<and> same_reach s t)"
    unfolding pn prod.case
    by (rule runs_mono)
      (use t same_graph_trans same_reach_trans in \<open>auto simp: feedback_to_def\<close>)
qed simp

section \<open>Sender reports\<close>

lemma generateAndSendSR_runs:
  fixes s :: "('a, 'b, 'c) sfu_scheme"
  assumes inv: "router_inv s" and lib: "libsrtp_sizes lib"
    and c: "case cp of None \<Rightarrow> True | Some c \<Rightarrow> conss s c \<noteq> None"
  shows "runs (generateAndSendSR lib ns cp s) (\<lambda>t. same_graph s t \<and> same_reach s t)"
proof (cases cp)
  case None
  then show ?thesis by (simp add: generateAndSendSR_def)
next
  case (Some c)
  then obtain cc where cc: "conss s c = Some cc" using assms(3) by auto
  obtain a pe where a: "c_subscriber cc = Some a" "peers s a = Some pe"
    using inv_conssD(1) [OF inv cc] by blast
  let ?up = "\<lambda>hi u. u\<lparr>conss := modify c (\<lambda>x. x\<lparr>c_lastSrNtpTs := hi,
      c_lastSrRtpTs := c_lastSentTimestamp x\<rparr>) (conss u)\<rparr>"
  have up: "same_graph u (?up hi u)" "same_reach u (?up hi u)" for hi and u :: "('a, 'b, 'c) sfu_scheme"
    by (rule same_graph_cons_upd) (auto simp: cons_shape_def same_reach_def cons_reach_def
        option.map_comp comp_def intro!: option.map_cong)
  have "runs (sendProtectedRtcp lib 64 (sr_bytes k hi lo ts pc oc) a s)
      (\<lambda>(b, u). same_graph s u \<and> same_reach s u)" for k hi lo ts pc oc
    using sendProtectedRtcp_runs [OF lib _ a(2), of "sr_bytes k hi lo ts pc oc" 64]
    by (auto elim!: runs_mono)
  then have "runs (sendProtectedRtcp lib 64 (sr_bytes k hi lo ts pc oc) a s)
      (\<lambda>(b, u). same_graph s (if b then ?up ntp u else u) \<and> same_reach s (if b then ?up ntp u else u))"
    for k hi lo ts pc oc ntp
    by (rule runs_mono) (auto intro: same_graph_trans [OF _ up(1)] same_reach_trans [OF _ up(2)])
  then show ?thesis
    unfolding generateAndSendSR_def Some option.case cc a Let_def Option.bind.simps runs_bind
    by (rule runs_mono) auto
qed

end
