(* ===== verification/ServerInv.thy ===== *)
theory ServerInv
  imports Service RouterFrame RouterRtp RouterBind RouterRtcp "HOL-Library.Multiset"
begin

text \<open>
  The invariant of the whole server and its preservation by every datagram and every call.
  It says who owns the peers: each peer is either registered and waits for its endpoint or
  is bound to exactly one endpoint, so that no operation but \<open>AddPeer\<close> can destroy one.
\<close>

section \<open>The invariant\<close>

definition owner_addrs :: "('s, 'd) server \<Rightarrow> nat list" where
  "owner_addrs s = map snd (pendingPeers s) @ map snd (peerMap s)"

text \<open>Keys are unique; every peer is held once by one of the two maps of \<open>PacketRouter\<close>.\<close>

definition maps_inv :: "('s, 'd) server \<Rightarrow> bool" where
  "maps_inv s \<longleftrightarrow> distinct (map fst (pendingPeers s)) \<and> distinct (map fst (peerMap s)) \<and>
     distinct (map fst (svcPeers s)) \<and> distinct (owner_addrs s) \<and>
     dom (peers s) = set (owner_addrs s) \<and> snd ` set (svcPeers s) \<subseteq> dom (peers s)"

text \<open>SRTP keys exist only after the handshake.\<close>

definition ready :: "('s, 'd) peer \<Rightarrow> bool" where
  "ready p \<longleftrightarrow> (srtp p \<noteq> None \<longrightarrow> (\<exists>d. dtls p = Some d \<and> handshakeDone d))"

text \<open>
  A waiting peer has its own key and no stream yet; a bound peer has the endpoint it is
  bound to, and its DTLS session sends there.
\<close>

definition pending_ok :: "string \<times> nat \<Rightarrow> ('s, 'd) server \<Rightarrow> bool" where
  "pending_ok x s \<longleftrightarrow> (\<exists>p. peers s (snd x) = Some p \<and> peerId p = fst x \<and>
     producers p = [] \<and> dtls p = None \<and> ready p)"

definition bound_ok :: "endpoint \<times> nat \<Rightarrow> ('s, 'd) server \<Rightarrow> bool" where
  "bound_ok x s \<longleftrightarrow> (\<exists>p. peers s (snd x) = Some p \<and> remoteEp p = fst x \<and> ready p \<and>
     (\<forall>c. dtls p = Some c \<longrightarrow> dtls_sendCb c = Some (fst x)))"

definition registered_ok :: "string \<times> nat \<Rightarrow> ('s, 'd) server \<Rightarrow> bool" where
  "registered_ok x s \<longleftrightarrow> (\<exists>p. peers s (snd x) = Some p \<and> peerId p = fst x)"

definition ids_inv :: "('s, 'd) server \<Rightarrow> bool" where
  "ids_inv s \<longleftrightarrow> (\<forall>x \<in> set (pendingPeers s). pending_ok x s) \<and>
     (\<forall>x \<in> set (peerMap s). bound_ok x s) \<and> (\<forall>x \<in> set (svcPeers s). registered_ok x s)"

definition server_inv :: "('s, 'd) server \<Rightarrow> bool" where
  "server_inv s \<longleftrightarrow> router_inv s \<and> maps_inv s \<and> ids_inv s \<and> svc_pktRouter s"

lemma ids_invD:
  assumes "ids_inv s"
  shows "x \<in> set (pendingPeers s) \<Longrightarrow> \<exists>p. peers s (snd x) = Some p \<and> peerId p = fst x \<and>
      producers p = [] \<and> dtls p = None \<and> ready p"
    and "y \<in> set (peerMap s) \<Longrightarrow> \<exists>p. peers s (snd y) = Some p \<and> remoteEp p = fst y \<and> ready p \<and>
      (\<forall>c. dtls p = Some c \<longrightarrow> dtls_sendCb c = Some (fst y))"
    and "x \<in> set (svcPeers s) \<Longrightarrow> \<exists>p. peers s (snd x) = Some p \<and> peerId p = fst x"
  using assms unfolding ids_inv_def pending_ok_def bound_ok_def registered_ok_def by blast+

lemma maps_inv_disj: "maps_inv s \<Longrightarrow> snd ` set (pendingPeers s) \<inter> snd ` set (peerMap s) = {}"
  by (simp add: maps_inv_def owner_addrs_def)

lemma maps_inv_svc: "maps_inv s \<Longrightarrow> snd ` set (svcPeers s) \<subseteq> dom (peers s)"
  unfolding maps_inv_def by blast

lemma maps_inv_cong:
  assumes "dom (peers t) = dom (peers s)" "pendingPeers t = pendingPeers s" "peerMap t = peerMap s"
    "svcPeers t = svcPeers s"
  shows "maps_inv t = maps_inv s"
  unfolding maps_inv_def owner_addrs_def assms ..

section \<open>Steps of the router\<close>

lemma more_eq:
  fixes s t :: "('s, 'd) server"
  assumes "sfu.more t = sfu.more s"
  shows "peerMap t = peerMap s" "pendingPeers t = pendingPeers s" "pr_ice t = pr_ice s"
    "pr_router t = pr_router s" "receiving t = receiving s" "svcPeers t = svcPeers s"
    "svc_ice t = svc_ice s" "svc_router t = svc_router s" "svc_pktRouter t = svc_pktRouter s"
    "statics t = statics s"
  using assms by (cases s; cases t; simp)+

lemma frame_more: "frame A s t \<Longrightarrow> sfu.more t = sfu.more s"
  by (simp add: frame_def)

lemmas frame_eqs = more_eq [OF frame_more]

lemma frame_maps_inv:
  assumes "frame A s t" "maps_inv s"
  shows "maps_inv t"
  using assms(2) unfolding maps_inv_def owner_addrs_def frame_eqs [OF assms(1)] frame_dom [OF assms(1)] .

lemma frame_ids_inv:
  assumes f: "frame A s t" and inv: "ids_inv s" and A: "A \<inter> snd ` set (pendingPeers s) = {}"
  shows "ids_inv t"
proof -
  have "pending_ok x t" if x: "x \<in> set (pendingPeers s)" for x
  proof -
    have "snd x \<notin> A" using x A by blast
    moreover obtain p where p: "peers s (snd x) = Some p" "peerId p = fst x" "producers p = []" "dtls p = None" "ready p"
      using ids_invD(1) [OF inv x] by blast
    ultimately show ?thesis using frame_peer [OF f p(1)] p(2-5) by (auto simp: pending_ok_def peer_frame_def ready_def)
  qed
  moreover have "bound_ok x t" if x: "x \<in> set (peerMap s)" for x
  proof -
    obtain p where p: "peers s (snd x) = Some p" "remoteEp p = fst x" "ready p" "\<forall>c. dtls p = Some c \<longrightarrow> dtls_sendCb c = Some (fst x)"
      using ids_invD(2) [OF inv x] by blast
    then show ?thesis using frame_peer [OF f p(1)] by (auto simp: bound_ok_def peer_frame_def ready_def)
  qed
  moreover have "registered_ok x t" if x: "x \<in> set (svcPeers s)" for x
  proof -
    obtain p where p: "peers s (snd x) = Some p" "peerId p = fst x"
      using ids_invD(3) [OF inv x] by blast
    then show ?thesis using frame_peer [OF f p(1)] by (auto simp: registered_ok_def peer_frame_def)
  qed
  ultimately show ?thesis by (simp add: ids_inv_def frame_eqs [OF f])
qed

text \<open>A router step on behalf of a bound peer, or of none, keeps the server's invariant.\<close>

lemma frame_server_inv:
  assumes "frame A s t" "server_inv s" "router_inv t" "A \<inter> snd ` set (pendingPeers s) = {}"
  shows "server_inv t"
  using assms frame_maps_inv [OF assms(1)] frame_ids_inv [OF assms(1) _ assms(4)] frame_eqs(9) [OF assms(1)]
  by (simp add: server_inv_def)

lemma bound_not_pending:
  assumes "server_inv s" "(ep, a) \<in> set (peerMap s)"
  shows "{a} \<inter> snd ` set (pendingPeers s) = {}"
proof -
  have "snd ` set (pendingPeers s) \<inter> snd ` set (peerMap s) = {}"
    by (rule maps_inv_disj) (use assms(1) in \<open>simp add: server_inv_def\<close>)
  moreover have "a \<in> snd ` set (peerMap s)" using assms(2) by force
  ultimately show ?thesis by blast
qed

lemma bound_live: "server_inv s \<Longrightarrow> (ep, a) \<in> set (peerMap s) \<Longrightarrow> \<exists>p. peers s a = Some p \<and> remoteEp p = ep"
  using ids_invD(2) [of s "(ep, a)"] by (auto simp: server_inv_def)

lemma registered_live: "server_inv s \<Longrightarrow> findPeer k s = Some a \<Longrightarrow> \<exists>p. peers s a = Some p \<and> peerId p = k"
  using ids_invD(3) [of s "(k, a)"] by (auto simp: server_inv_def findPeer_def dest: map_of_SomeD)

text \<open>Every peer is owned, so dropping a reference destroys nothing.\<close>

lemma all_owned:
  assumes "maps_inv s" "peers s a \<noteq> None"
  shows "owned a s"
  using assms by (auto simp: maps_inv_def owner_addrs_def owned_def dom_def)

lemma release_owned: "maps_inv s \<Longrightarrow> (\<And>a. q = Some a \<Longrightarrow> peers s a \<noteq> None) \<Longrightarrow> release q s = s"
  by (auto simp: release_def all_owned split: option.split)

lemma server_inv_init: "server_inv (setupComponents ig pos gen)"
  by (simp add: server_inv_def maps_inv_def owner_addrs_def ids_inv_def setupComponents_def Let_def
      setPacketRouter_def setServiceIce_def setServiceRouter_def startReceive_def setRouter_def
      setIceServer_def server_new_def sfu.defs sfu_init_def router_inv_def inv_defs route_invar_def route_lookup_def)

section \<open>Peers and endpoints\<close>

lemma take_begin_perm:
  assumes "xs \<noteq> []" "take_begin pick xs = (x, rest)"
  shows "mset xs = add_mset x (mset rest)"
proof -
  let ?i = "pick xs mod length xs"
  have i: "?i < length xs" using assms(1) by simp
  have "xs = take ?i xs @ xs ! ?i # drop (Suc ?i) xs" using i by (rule id_take_nth_drop)
  then have "mset xs = add_mset (xs ! ?i) (mset (take ?i xs @ drop (Suc ?i) xs))"
    by (metis mset.simps(2) mset_append union_mset_add_mset_right)
  then show ?thesis using assms(2) by (auto simp: take_begin_def Let_def)
qed

lemma distinct_mset_cons:
  assumes "mset xs = add_mset x (mset rest)" "distinct (map f xs)"
  shows "distinct (map f rest)" "f x \<notin> set (map f rest)" "set xs = insert x (set rest)"
proof -
  have m: "mset (map f xs) = mset (map f (x # rest))" using assms(1) by simp
  have "distinct (map f (x # rest))" using assms(2) mset_eq_imp_distinct_iff [OF m] by simp
  then show "distinct (map f rest)" "f x \<notin> set (map f rest)" by simp_all
  show "set xs = insert x (set rest)" using assms(1) by (metis set_mset_add_mset_insert set_mset_mset)
qed

lemma map_fst_update:
  "map_of xs k = None \<Longrightarrow> AList.update k v xs = xs @ [(k, v)]"
  by (induction xs) (auto split: if_splits)

lemma fresh_not_owned:
  assumes "maps_inv s" "peers s a = None"
  shows "a \<notin> set (owner_addrs s)" "a \<notin> snd ` set (svcPeers s)"
  using assms by (metis domIff maps_inv_def) (metis assms domIff maps_inv_def subsetD)

lemma alloc_ids_inv:
  assumes "ids_inv s" "peers s (nextAddr s) = None"
  shows "ids_inv (alloc_peer p s)"
proof -
  have P: "peers (alloc_peer p s) b = (if b = nextAddr s then Some p else peers s b)" for b
    by (simp add: alloc_peer_def)
  have maps: "pendingPeers (alloc_peer p s) = pendingPeers s" "peerMap (alloc_peer p s) = peerMap s"
    "svcPeers (alloc_peer p s) = svcPeers s" by (simp_all add: alloc_peer_def)
  have ok: "pending_ok x s \<Longrightarrow> pending_ok x (alloc_peer p s)" "bound_ok y s \<Longrightarrow> bound_ok y (alloc_peer p s)"
    "registered_ok x s \<Longrightarrow> registered_ok x (alloc_peer p s)" for x y
    using assms(2) by (auto simp: pending_ok_def bound_ok_def registered_ok_def P)
  then show ?thesis using assms(1) by (simp add: ids_inv_def maps)
qed

text \<open>The state in which the peer at \<open>a\<close> with the record \<open>p\<close> gets the endpoint \<open>ep\<close>.\<close>

definition bind_endpoint :: "endpoint \<Rightarrow> nat \<Rightarrow> ('s, 'd) peer \<Rightarrow> ('s, 'd) server \<Rightarrow> ('s, 'd) server" where
  "bind_endpoint ep a p s = s\<lparr>peers := (peers s)(a \<mapsto> p\<lparr>remoteEp := ep\<rparr>),
     peerMap := peerMap s @ [(ep, a)]\<rparr>"

lemma bind_endpoint_inv:
  assumes r: "router_inv s" and p: "peers s a = Some p" "dtls p = None" "ready p"
    and new: "map_of (peerMap s) ep = None" and pkt: "svc_pktRouter s"
    and keys: "distinct (map fst (pendingPeers s))" "distinct (map fst (peerMap s))" "distinct (map fst (svcPeers s))"
    and own: "distinct (a # owner_addrs s)" "dom (peers s) = set (a # owner_addrs s)"
    and svc: "snd ` set (svcPeers s) \<subseteq> dom (peers s)" and ids: "ids_inv s"
  shows "server_inv (bind_endpoint ep a p s)"
proof -
  let ?t = "bind_endpoint ep a p s"
  have "same_graph s ?t" using p by (simp add: same_graph_def bind_endpoint_def peer_shape_def)
  then have "router_inv ?t" using r by (rule same_graph_inv)
  moreover have "maps_inv ?t"
  proof -
    have "ep \<notin> set (map fst (peerMap s))" using new by (simp add: map_of_eq_None_iff)
    moreover have "dom (peers ?t) = dom (peers s)" using p by (auto simp: bind_endpoint_def)
    ultimately show ?thesis
      using keys own svc by (auto simp: maps_inv_def owner_addrs_def bind_endpoint_def)
  qed
  moreover have "ids_inv ?t"
  proof -
    have P: "peers ?t b = (if b = a then Some (p\<lparr>remoteEp := ep\<rparr>) else peers s b)" for b
      by (simp add: bind_endpoint_def)
    have a: "a \<notin> snd ` set (pendingPeers s)" "a \<notin> snd ` set (peerMap s)"
      using own(1) by (auto simp: owner_addrs_def)
    have "pending_ok x ?t" if x: "x \<in> set (pendingPeers s)" for x
      using ids_invD(1) [OF ids x] x a(1) by (auto simp: pending_ok_def P)
    moreover have "bound_ok x ?t" if x: "x \<in> set (peerMap s)" for x
      using ids_invD(2) [OF ids x] x a(2) by (auto simp: bound_ok_def P)
    moreover have "bound_ok (ep, a) ?t" using p(2,3) by (simp add: bound_ok_def P ready_def)
    moreover have "registered_ok x ?t" if x: "x \<in> set (svcPeers s)" for x
      using ids_invD(3) [OF ids x] p(1) by (auto simp: registered_ok_def P)
    ultimately show ?thesis by (auto simp: ids_inv_def bind_endpoint_def)
  qed
  ultimately show ?thesis using pkt by (simp add: server_inv_def bind_endpoint_def)
qed

text \<open>What finding or making a peer leaves as it was.\<close>

definition quiet :: "('s, 'd) server \<Rightarrow> ('s, 'd) server \<Rightarrow> bool" where
  "quiet s t \<longleftrightarrow> sent t = sent s \<and> outSsrcToConsumer t = outSsrcToConsumer s \<and> conss t = conss s \<and>
     prods t = prods s \<and> routes t = routes s \<and> statics t = statics s \<and> pr_router t = pr_router s \<and>
     svcPeers t = svcPeers s \<and> dom (peers s) \<subseteq> dom (peers t)"

text \<open>The state with further waiting peers, those that calls of \<open>AddPeer\<close> are about to register.\<close>

definition also_waiting :: "(string \<times> nat) list \<Rightarrow> ('s, 'd) server \<Rightarrow> ('s, 'd) server" where
  "also_waiting I s = s\<lparr>pendingPeers := pendingPeers s @ I\<rparr>"

lemma also_waiting_Nil [simp]: "also_waiting [] s = s"
  by (simp add: also_waiting_def)

lemma also_waiting_simps [simp]:
  "peers (also_waiting I s) = peers s" "prods (also_waiting I s) = prods s" "conss (also_waiting I s) = conss s"
  "nextAddr (also_waiting I s) = nextAddr s" "peerMap (also_waiting I s) = peerMap s"
  "svcPeers (also_waiting I s) = svcPeers s" "svc_pktRouter (also_waiting I s) = svc_pktRouter s"
  "pendingPeers (also_waiting I s) = pendingPeers s @ I" "sent (also_waiting I s) = sent s"
  "bind_endpoint ep a p (also_waiting I s) = also_waiting I (bind_endpoint ep a p s)"
  "alloc_peer q (also_waiting I s) = also_waiting I (alloc_peer q s)"
  by (simp_all add: also_waiting_def bind_endpoint_def alloc_peer_def)

lemma getOrCreatePeer_known: "map_of (peerMap s) ep = Some a \<Longrightarrow> getOrCreatePeer e ep s = Some (a, s)"
  by (simp add: getOrCreatePeer_def)

lemma getOrCreatePeer_new:
  assumes "map_of (peerMap s) ep = None" "pendingPeers s = []"
  shows "getOrCreatePeer e ep s = Some (nextAddr s, bind_endpoint ep (nextAddr s) new_peer (alloc_peer new_peer s))"
  using assms by (simp add: getOrCreatePeer_def alloc_peer_def bind_endpoint_def map_fst_update)

lemma getOrCreatePeer_pending:
  assumes "map_of (peerMap s) ep = None" "pendingPeers s \<noteq> []"
    and "take_begin (beginOf e) (pendingPeers s) = (x, rest)" "peers s (snd x) = Some p"
  shows "getOrCreatePeer e ep s = Some (snd x, bind_endpoint ep (snd x) p (s\<lparr>pendingPeers := rest\<rparr>))"
  using assms by (simp add: getOrCreatePeer_def bind_endpoint_def map_fst_update)

lemma in_bind_endpoint: "(ep, a) \<in> set (peerMap (bind_endpoint ep a p s))"
  by (simp add: bind_endpoint_def)

lemma getOrCreatePeer_also:
  assumes inv: "server_inv (also_waiting I s)"
  shows "runs (getOrCreatePeer e ep s) (\<lambda>(a, t). server_inv (also_waiting I t) \<and> (ep, a) \<in> set (peerMap t) \<and> quiet s t)"
proof (cases "map_of (peerMap s) ep")
  case (Some a)
  then show ?thesis using inv by (simp add: getOrCreatePeer_known quiet_def map_of_SomeD)
next
  case new: None
  let ?w = "also_waiting I s"
  have r: "router_inv ?w" and m: "maps_inv ?w" and ids: "ids_inv ?w" and pkt: "svc_pktRouter s"
    using inv by (simp_all add: server_inv_def)
  show ?thesis
  proof (cases "pendingPeers s = []")
    case True
    let ?s = "alloc_peer new_peer ?w"
    have free: "peers ?w (nextAddr ?w) = None" using inv_freshD [OF r, of "nextAddr ?w"] by simp
    have "server_inv (bind_endpoint ep (nextAddr s) new_peer ?s)"
    proof (rule bind_endpoint_inv)
      show "router_inv ?s" by (rule alloc_peer_inv [OF r]) (simp_all add: new_peer_def)
      show "dom (peers ?s) = set (nextAddr s # owner_addrs ?s)"
        using m by (simp add: maps_inv_def owner_addrs_def alloc_peer_def)
      show "distinct (nextAddr s # owner_addrs ?s)"
        using m fresh_not_owned(1) [OF m free] by (simp add: maps_inv_def owner_addrs_def alloc_peer_def)
      show "ids_inv ?s" using ids free by (rule alloc_ids_inv)
      show "snd ` set (svcPeers ?s) \<subseteq> dom (peers ?s)"
        using m unfolding maps_inv_def by (simp add: alloc_peer_def) blast
    qed (use m new pkt in \<open>simp_all add: maps_inv_def alloc_peer_def new_peer_def ready_def\<close>)
    moreover have "quiet s (bind_endpoint ep (nextAddr s) new_peer (alloc_peer new_peer s))"
      by (auto simp: quiet_def bind_endpoint_def alloc_peer_def)
    ultimately show ?thesis by (simp add: getOrCreatePeer_new [OF new True] in_bind_endpoint)
  next
    case False
    obtain x rest where tb: "take_begin (beginOf e) (pendingPeers s) = (x, rest)" by fastforce
    have ms: "mset (pendingPeers ?w) = add_mset x (mset (rest @ I))"
      using take_begin_perm [OF False tb] by simp
    have dk: "distinct (map fst (pendingPeers ?w))" using m by (simp add: maps_inv_def)
    note k = distinct_mset_cons [OF ms dk]
    obtain p where p: "peers s (snd x) = Some p" "producers p = []" "dtls p = None" "ready p"
      using ids_invD(1) [OF ids, of x] k(3) by auto
    let ?t = "s\<lparr>pendingPeers := rest\<rparr>"
    let ?s = "also_waiting I ?t"
    have s: "?s = ?w\<lparr>pendingPeers := rest @ I\<rparr>" by (simp add: also_waiting_def)
    have "server_inv (bind_endpoint ep (snd x) p ?s)"
    proof (rule bind_endpoint_inv)
      show "router_inv ?s" unfolding s using r by (rule same_graph_inv [rotated]) (simp add: same_graph_def)
      show "peers ?s (snd x) = Some p" using p by simp
      have own: "mset (snd x # owner_addrs ?s) = mset (owner_addrs ?w)"
        using arg_cong [OF ms, of "image_mset snd"] by (simp add: owner_addrs_def)
      show "distinct (snd x # owner_addrs ?s)"
        using mset_eq_imp_distinct_iff [OF own] m unfolding maps_inv_def by blast
      have "dom (peers ?s) = dom (peers ?w)" by simp
      then show "dom (peers ?s) = set (snd x # owner_addrs ?s)"
        using mset_eq_setD [OF own] m unfolding maps_inv_def by metis
      show "ids_inv ?s"
        using ids k(3) unfolding ids_inv_def pending_ok_def bound_ok_def registered_ok_def by simp
      show "snd ` set (svcPeers ?s) \<subseteq> dom (peers ?s)" using maps_inv_svc [OF m] by simp
    qed (use m new pkt k p in \<open>simp_all add: maps_inv_def\<close>)
    moreover have "quiet s (bind_endpoint ep (snd x) p ?t)" by (auto simp: quiet_def bind_endpoint_def)
    ultimately show ?thesis by (simp add: getOrCreatePeer_pending [OF new False tb p(1)] in_bind_endpoint)
  qed
qed

lemma getOrCreatePeer_runs:
  assumes "server_inv s"
  shows "runs (getOrCreatePeer e ep s) (\<lambda>(a, t). server_inv t \<and> (ep, a) \<in> set (peerMap t) \<and> quiet s t)"
  using getOrCreatePeer_also [of "[]" s e ep] assms by simp

section \<open>DTLS\<close>

lemma getAllVideoProducers_runs:
  assumes "router_inv s"
  shows "runs (getAllVideoProducers s) (\<lambda>rs. \<forall>r \<in> set rs. \<exists>pr. prods s r = Some pr \<and> p_isVideo pr)"
proof -
  let ?I = "\<lambda>rs. \<forall>r \<in> set rs. \<exists>pr. prods s r = Some pr \<and> p_isVideo pr"
  have inner: "runs (foldM (\<lambda>r out. do { pr \<leftarrow> prods s r; Some (if p_isVideo pr then out @ [r] else out) })
      (producers p) out) ?I" if p: "peers s a = Some p" and "?I out" for a p out
    using \<open>?I out\<close>
  proof (rule runs_foldM)
    fix r out assume "r \<in> set (producers p)" and out: "?I out"
    then obtain pr where "prods s r = Some pr" using inv_peersD(3) [OF assms p] by blast
    then show "runs (prods s r \<bind> (\<lambda>pr. Some (if p_isVideo pr then out @ [r] else out))) ?I"
      using out by simp
  qed
  show ?thesis
    unfolding getAllVideoProducers_def
  proof (rule runs_foldM)
    fix a out assume "a \<in> set (allPeers s)" and out: "?I out"
    then obtain p where "peers s a = Some p" using inv_allD(2) [OF assms] by blast
    then show "runs (peers s a \<bind> (\<lambda>peer. foldM (\<lambda>r out. do { pr \<leftarrow> prods s r;
        Some (if p_isVideo pr then out @ [r] else out) }) (producers peer) out)) ?I"
      using inner out by simp
  qed simp
qed

text \<open>A router step that leaves the object graph alone.\<close>

definition graph_step :: "('s, 'd) server \<Rightarrow> ('s, 'd) server \<Rightarrow> bool" where
  "graph_step s t \<longleftrightarrow> same_graph s t \<and> frame {} s t"

lemma graph_step_refl [simp]: "graph_step s s"
  by (simp add: graph_step_def)

lemma graph_step_trans: "graph_step s t \<Longrightarrow> graph_step t u \<Longrightarrow> graph_step s u"
  unfolding graph_step_def by (blast intro: same_graph_trans frame_trans)

lemma graph_step_inv: "graph_step s t \<Longrightarrow> server_inv s \<Longrightarrow> server_inv t"
  unfolding graph_step_def
  by (rule frame_server_inv [where A = "{}"]) (auto simp: server_inv_def intro: same_graph_inv)

lemma send_graph_step:
  assumes "libsrtp_sizes lib" "length pkt + 14 \<le> cap" "peers s p \<noteq> None"
  shows "runs (sendProtectedRtcp lib cap pkt p s) (\<lambda>(b, t). graph_step s t)"
proof -
  obtain pe where "peers s p = Some pe" using assms(3) by blast
  from sendProtectedRtcp_runs [OF assms(1,2) this] show ?thesis
    by (rule runs_mono) (auto simp: graph_step_def intro: sendProtectedRtcp_frame)
qed

lemma pli_to_publisher_runs:
  assumes inv: "router_inv s" and lib: "libsrtp_sizes lib" and r: "prods s r \<noteq> None"
  shows "runs (pli_to_publisher lib a r s) (graph_step s)"
proof -
  obtain pr where pr: "prods s r = Some pr" using r by blast
  have live: "peers s (p_publisher pr) \<noteq> None" using inv_prodsD(3) [OF inv pr] by auto
  have "runs (sendProtectedRtcp lib 64 (pli_bytes 0 (p_originalSsrc pr)) (p_publisher pr) s) (\<lambda>(b, u). graph_step s u)"
    by (rule send_graph_step [OF lib _ live]) simp
  then show ?thesis using live by (auto simp: pli_to_publisher_def pr runs_second runs_bind runs_def)
qed

lemma sendPLItoAllPeers_runs:
  assumes inv: "server_inv s" and lib: "libsrtp_sizes lib"
  shows "runs (sendPLItoAllPeers lib a s) (graph_step s)"
proof (cases "pr_router s")
  case False
  then show ?thesis by (simp add: sendPLItoAllPeers_def)
next
  case True
  have r: "router_inv s" using inv by (simp add: server_inv_def)
  obtain rs where rs: "getAllVideoProducers s = Some rs" "\<forall>x \<in> set rs. prods s x \<noteq> None"
    using getAllVideoProducers_runs [OF r] by (fastforce simp: runs_def)
  have "runs (foldM (pli_to_publisher lib a) rs s) (graph_step s)"
  proof (rule runs_foldM)
    fix x t assume x: "x \<in> set rs" and t: "graph_step s t"
    have "router_inv t" using graph_step_inv [OF t inv] by (simp add: server_inv_def)
    moreover have "prods t x \<noteq> None" using t x rs(2) by (auto simp: graph_step_def same_graph_def)
    ultimately show "runs (pli_to_publisher lib a x t) (graph_step s)"
      by (rule runs_mono [OF pli_to_publisher_runs [OF _ lib]]) (rule graph_step_trans [OF t])
  qed simp
  then show ?thesis using True rs(1) by (simp add: sendPLItoAllPeers_def)
qed

lemma bound_once:
  assumes "maps_inv s" "x \<in> set (peerMap s)" "(ep, a) \<in> set (peerMap s)" "snd x = a"
  shows "x = (ep, a)" "fst x = ep"
proof -
  have "inj_on snd (set (peerMap s))"
    using assms(1) by (simp add: maps_inv_def owner_addrs_def distinct_map)
  then show "x = (ep, a)" by (rule inj_onD) (use assms(2-4) in simp_all)
  then show "fst x = ep" by simp
qed

text \<open>Storing the session of a bound peer.\<close>

lemma store_session_inv:
  assumes inv: "server_inv s" and a: "(ep, a) \<in> set (peerMap s)" "peers s a = Some p"
    and q: "producers q = producers p" "consumers q = consumers p" "peerId q = peerId p"
      "remoteEp q = remoteEp p" "dtls q = Some c" "dtls_sendCb c = Some ep" "ready q"
  shows "server_inv (s\<lparr>peers := (peers s)(a \<mapsto> q), sent := out\<rparr>)"
proof -
  let ?t = "s\<lparr>peers := (peers s)(a \<mapsto> q), sent := out\<rparr>"
  have m: "maps_inv s" and ids: "ids_inv s" using inv by (simp_all add: server_inv_def)
  have "same_graph s ?t" using a q by (simp add: same_graph_def peer_shape_def)
  then have "router_inv ?t" by (rule same_graph_inv) (use inv in \<open>simp add: server_inv_def\<close>)
  moreover have "dom (peers ?t) = dom (peers s)" using a(2) by auto
  then have "maps_inv ?t" using m by (subst maps_inv_cong) simp_all
  moreover have "ids_inv ?t"
  proof -
    have P: "peers ?t b = (if b = a then Some q else peers s b)" for b by simp
    have np: "a \<notin> snd ` set (pendingPeers s)" using bound_not_pending [OF inv a(1)] by blast
    note one = bound_once(2) [OF m _ a(1)]
    have "pending_ok x ?t" if x: "x \<in> set (pendingPeers s)" for x
      using ids_invD(1) [OF ids x] x np by (auto simp: pending_ok_def P)
    moreover have "bound_ok x ?t" if x: "x \<in> set (peerMap s)" for x
      using ids_invD(2) [OF ids x] a(2) q one [OF x] by (auto simp: bound_ok_def P)
    moreover have "registered_ok x ?t" if x: "x \<in> set (svcPeers s)" for x
      using ids_invD(3) [OF ids x] a(2) q(3) by (auto simp: registered_ok_def P)
    ultimately show ?thesis by (auto simp: ids_inv_def)
  qed
  ultimately show ?thesis using inv by (simp add: server_inv_def)
qed

lemma store_srtp_step:
  assumes "peers s a = Some p" "srtp p \<noteq> None"
  shows "graph_step s (s\<lparr>peers := modify a (\<lambda>x. x\<lparr>srtp := Some c\<rparr>) (peers s)\<rparr>)"
  unfolding graph_step_def
  by (intro conjI frame_modify [where a = a and f = "\<lambda>x. x\<lparr>srtp := Some c\<rparr>"])
    (use assms in \<open>auto simp: same_graph_def peer_shape_def peer_frame_def\<close>)

lemma session_of_callback:
  assumes "server_inv s" "(ep, a) \<in> set (peerMap s)" "peers s a = Some p"
  shows "dtls_sendCb (session_of lib ep p) = Some ep"
proof (cases "dtls p")
  case None
  then show ?thesis by (simp add: session_of_def dtls_setSendCallback_def)
next
  case (Some c)
  then show ?thesis
    using ids_invD(2) [of s "(ep, a)"] assms by (simp add: session_of_def server_inv_def)
qed

lemma handlePacket_callback: "handlePacket lib data c = (c', out, r) \<Longrightarrow> dtls_sendCb c' = dtls_sendCb c"
  by (auto simp: handlePacket_def Let_def split: if_splits prod.splits)

lemma session_of_ready:
  assumes "ready p" "srtp p \<noteq> None" "handlePacket lib data (session_of lib ep p) = (c, out, r)"
  shows "handshakeDone c"
  using assms handlePacket_monotone [OF assms(3)] by (auto simp: ready_def session_of_def)

lemma handleDtls_runs:
  assumes inv: "server_inv s" and lib: "libsrtp_sizes (srtpL e)"
  shows "runs (handleDtls e data ep s) server_inv"
proof -
  obtain a s1 where s1: "getOrCreatePeer e ep s = Some (a, s1)" "server_inv s1" "(ep, a) \<in> set (peerMap s1)"
    using getOrCreatePeer_runs [OF inv, of e ep] by (auto simp: runs_def)
  obtain p where p: "peers s1 a = Some p" "ready p"
    using ids_invD(2) [of s1 "(ep, a)"] s1(2,3) by (auto simp: server_inv_def)
  obtain c' out r where hp: "handlePacket (dtlsL e) data (session_of (dtlsL e) ep p) = (c', out, r)"
    by (cases "handlePacket (dtlsL e) data (session_of (dtlsL e) ep p)")
  have cb: "dtls_sendCb c' = Some ep"
    using handlePacket_callback [OF hp] session_of_callback [OF s1(2,3) p(1)] by simp
  define s2 where "s2 = s1\<lparr>peers := (peers s1)(a \<mapsto> p\<lparr>dtls := Some c'\<rparr>), sent := sent s1 @ out\<rparr>"
  have inv2: "server_inv s2"
    unfolding s2_def
    by (rule store_session_inv [OF s1(2,3) p(1)])
      (use cb session_of_ready [OF p(2) _ hp] in \<open>simp_all add: ready_def\<close>)
  obtain ok c where init: "srtp_init (srtpL e) (exportSrtpKeys (dtlsL e) c') srtp_new = (ok, c)" by fastforce
  let ?t = "s2\<lparr>peers := modify a (\<lambda>x. x\<lparr>srtp := Some c\<rparr>) (peers s2)\<rparr>"
  have "handleDtls e data ep s =
    (if \<not> handshakeDone (session_of (dtlsL e) ep p) \<and> handshakeDone c' \<and>
        exportSrtpKeys (dtlsL e) c' \<noteq> [] \<and> ok
     then sendPLItoAllPeers (srtpL e) a ?t else Some s2)"
    by (simp add: handleDtls_def s1(1) p(1) hp init Let_def s2_def)
  moreover have "runs (sendPLItoAllPeers (srtpL e) a ?t) server_inv" if done': "handshakeDone c'"
  proof -
    have "?t = s1\<lparr>peers := (peers s1)(a \<mapsto> p\<lparr>dtls := Some c', srtp := Some c\<rparr>), sent := sent s1 @ out\<rparr>"
      by (simp add: s2_def modify_def)
    then have t: "server_inv ?t"
      using store_session_inv [OF s1(2,3) p(1), of "p\<lparr>dtls := Some c', srtp := Some c\<rparr>" c'] cb done'
      by (simp add: ready_def)
    show ?thesis
      by (rule runs_mono [OF sendPLItoAllPeers_runs [OF t lib]]) (rule graph_step_inv [OF _ t])
  qed
  ultimately show ?thesis using inv2 by simp
qed

section \<open>SRTP\<close>

text \<open>
  Packets a well-behaved participant sends: no RTP packet of the SSRC 0, no receiver report
  that names an outgoing SSRC of the router as its sender.
\<close>

definition plain_ok :: "plain \<Rightarrow> ('s, 'd, 'z) sfu_scheme \<Rightarrow> bool" where
  "plain_ok pl s \<longleftrightarrow> (case pl of
     Plain_rtp pkt \<Rightarrow> (\<forall>hdr. rtp_parse pkt = Some hdr \<longrightarrow> h_ssrc hdr \<noteq> 0)
   | Plain_rtcp pkt \<Rightarrow> no_report_forwarded pkt s
   | Rejected \<Rightarrow> True)"

text \<open>What \<open>handleSrtp\<close> hands to the router for a datagram.\<close>

definition handed_over ::
  "('s, 'd) env \<Rightarrow> u8 list \<Rightarrow> endpoint \<Rightarrow> ('s, 'd) server \<Rightarrow> plain option" where
  "handed_over e data ep s = do {
     (a, s1) \<leftarrow> getOrCreatePeer e ep s;
     p \<leftarrow> peers s1 a;
     ctx \<leftarrow> srtp p;
     (pl, s2) \<leftarrow> decrypt (srtpL e) data a ctx s1;
     Some pl
   }"

lemma decrypt_runs:
  assumes lib: "libsrtp_sizes lib" and len: "length data \<le> 65536"
    and p: "peers s a = Some p" "srtp p = Some ctx"
  shows "runs (decrypt lib data a ctx s) (\<lambda>(pl, t). graph_step s t \<and>
    outSsrcToConsumer t = outSsrcToConsumer s \<and> pr_router t = pr_router s \<and> peerMap t = peerMap s \<and>
    pendingPeers t = pendingPeers s \<and> sent t = sent s \<and>
    (case pl of Plain_rtp pkt \<Rightarrow> length pkt \<le> length data | _ \<Rightarrow> True))"
proof -
  obtain c1 r1 where u: "unprotect lib 65536 data ctx = Some (c1, r1)"
    and fit: "\<And>pkt. r1 = Some pkt \<Longrightarrow> length pkt \<le> length data"
    using unprotect_fits [OF lib len, of ctx] by (auto simp: runs_def split: option.splits)
  obtain c2 r2 where v: "unprotectRtcp lib 65536 data c1 = Some (c2, r2)"
    using unprotectRtcp_fits [OF lib len, of c1] by (auto simp: runs_def)
  let ?s1 = "s\<lparr>peers := modify a (\<lambda>x. x\<lparr>srtp := Some c1\<rparr>) (peers s)\<rparr>"
  have 1: "graph_step s ?s1" by (rule store_srtp_step [OF p(1)]) (simp add: p(2))
  have 2: "graph_step ?s1 (?s1\<lparr>peers := modify a (\<lambda>x. x\<lparr>srtp := Some c2\<rparr>) (peers ?s1)\<rparr>)"
    by (rule store_srtp_step [where p = "p\<lparr>srtp := Some c1\<rparr>"]) (use p in simp_all)
  show ?thesis
  proof (cases r1)
    case None
    show ?thesis using len graph_step_trans [OF 1 2]
      by (simp add: decrypt_def u v None Let_def split: option.split)
  next
    case (Some pkt)
    then show ?thesis using 1 fit [OF Some] len by (simp add: decrypt_def u Let_def)
  qed
qed

lemma dispatch_runs:
  assumes inv: "server_inv s" and lib: "libsrtp_sizes lib" and a: "(ep, a) \<in> set (peerMap s)"
    and ok: "plain_ok pl s" and len: "case pl of Plain_rtp pkt \<Rightarrow> length pkt + 10 \<le> 65536 | _ \<Rightarrow> True"
  shows "runs (dispatch lib pl a s) server_inv"
proof -
  obtain p where p: "peers s a = Some p" using bound_live [OF inv a] by blast
  have r: "router_inv s" using inv by (simp add: server_inv_def)
  have via: "server_inv t" if "frame {a} s t" "router_inv t" for t
    using frame_server_inv [OF that(1) inv that(2)] bound_not_pending [OF inv a] by blast
  show ?thesis
  proof (cases "pr_router s")
    case False
    then show ?thesis using inv by (simp add: dispatch_def)
  next
    case True
    show ?thesis
    proof (cases pl)
      case (Plain_rtp pkt)
      have ssrc: "\<And>hdr. rtp_parse pkt = Some hdr \<Longrightarrow> h_ssrc hdr \<noteq> 0"
        using ok Plain_rtp by (simp add: plain_ok_def)
      have "runs (onRtpPacket lib (g_videoPTs (statics s)) pkt a s) server_inv"
      proof (rule runs_mono)
        show "runs (onRtpPacket lib (g_videoPTs (statics s)) pkt a s) router_inv"
          by (rule runs_mono [OF onRtpPacket_runs [OF r lib p]])
            (use len Plain_rtp ssrc in auto)
      qed (auto intro!: via onRtpPacket_frame)
      then show ?thesis using True Plain_rtp by (simp add: dispatch_def)
    next
      case (Plain_rtcp pkt)
      have "no_report_forwarded pkt s" using ok Plain_rtcp by (simp add: plain_ok_def)
      then have "runs (onRtcpPacket lib pkt a s) (\<lambda>t. same_graph s t \<and> same_reach s t)"
        by (rule onRtcpPacket_runs [OF r lib])
      then have "runs (onRtcpPacket lib pkt a s) server_inv"
        by (rule runs_mono) (auto intro!: via onRtcpPacket_frame same_graph_inv [OF _ r])
      then show ?thesis using True Plain_rtcp by (simp add: dispatch_def)
    next
      case Rejected
      then show ?thesis using True inv by (simp add: dispatch_def)
    qed
  qed
qed

lemma plain_ok_cong: "outSsrcToConsumer t = outSsrcToConsumer s \<Longrightarrow> plain_ok pl t = plain_ok pl s"
  by (simp add: plain_ok_def no_report_forwarded_def split: plain.split)

lemma handleSrtp_runs:
  assumes inv: "server_inv s" and lib: "libsrtp_sizes (srtpL e)" and len: "length data \<le> 65507"
    and ok: "\<And>pl. handed_over e data ep s = Some pl \<Longrightarrow> plain_ok pl s"
  shows "runs (handleSrtp e data ep s) server_inv"
proof -
  obtain a s1 where s1: "getOrCreatePeer e ep s = Some (a, s1)" "server_inv s1" "(ep, a) \<in> set (peerMap s1)"
    "quiet s s1"
    using getOrCreatePeer_runs [OF inv, of e ep] by (auto simp: runs_def)
  obtain p where p: "peers s1 a = Some p" using bound_live [OF s1(2,3)] by blast
  show ?thesis
  proof (cases "srtp p")
    case None
    then show ?thesis using s1(2) by (simp add: handleSrtp_def s1(1) p)
  next
    case (Some ctx)
    have "length data \<le> 65536" using len by simp
    from decrypt_runs [OF lib this p Some] obtain pl s2 where
      d: "decrypt (srtpL e) data a ctx s1 = Some (pl, s2)" and g: "graph_step s1 s2"
      and out: "outSsrcToConsumer s2 = outSsrcToConsumer s1" and pm: "peerMap s2 = peerMap s1"
      and fit: "case pl of Plain_rtp pkt \<Rightarrow> length pkt \<le> length data | _ \<Rightarrow> True"
      by (auto simp: runs_def)
    have "handed_over e data ep s = Some pl" by (simp add: handed_over_def s1(1) p Some d)
    then have "plain_ok pl s2"
      using ok plain_ok_cong [of s2 s pl] out s1(4) by (simp add: quiet_def)
    moreover have "case pl of Plain_rtp pkt \<Rightarrow> length pkt + 10 \<le> 65536 | _ \<Rightarrow> True"
      using fit len by (simp split: plain.splits)
    ultimately have "runs (dispatch (srtpL e) pl a s2) server_inv"
      using dispatch_runs [OF graph_step_inv [OF g s1(2)] lib, of ep a pl] s1(3) pm by simp
    then show ?thesis by (simp add: handleSrtp_def s1(1) p Some d)
  qed
qed

definition datagram_ok :: "('s, 'd) env \<Rightarrow> u8 list \<Rightarrow> endpoint \<Rightarrow> ('s, 'd) server \<Rightarrow> bool" where
  "datagram_ok e data ep s \<longleftrightarrow> length data \<le> 65507 \<and> (classify data = Srtp \<longrightarrow>
     (case handed_over e data ep s of None \<Rightarrow> True | Some pl \<Rightarrow> plain_ok pl s))"

lemma only_sent_inv: "server_inv s \<Longrightarrow> server_inv (s\<lparr>sent := sent s @ out\<rparr>)"
  by (rule graph_step_inv [where s = s])
    (simp_all add: graph_step_def same_graph_def frame_same)

text \<open>Members that the invariant does not mention.\<close>

lemma server_inv_ext:
  assumes inv: "server_inv s" and "same_graph s t" and p: "peers t = peers s"
    and eq: "pendingPeers t = pendingPeers s" "peerMap t = peerMap s" "svcPeers t = svcPeers s"
      "svc_pktRouter t = svc_pktRouter s"
  shows "server_inv t"
proof -
  have "router_inv t" using assms(2) by (rule same_graph_inv) (use inv in \<open>simp add: server_inv_def\<close>)
  moreover have "maps_inv t = maps_inv s" using p eq by (intro maps_inv_cong) simp_all
  moreover have "ids_inv t = ids_inv s"
    by (simp add: ids_inv_def pending_ok_def bound_ok_def registered_ok_def p eq)
  ultimately show ?thesis using inv eq(4) by (simp add: server_inv_def)
qed

lemma receiving_inv: "server_inv s \<Longrightarrow> server_inv (s\<lparr>receiving := b\<rparr>)"
  by (erule server_inv_ext) (simp_all add: same_graph_def)

lemma onPacket_runs:
  assumes inv: "server_inv s" and lib: "libsrtp_sizes (srtpL e)" and ok: "datagram_ok e data ep s"
  shows "runs (onPacket e data ep s) server_inv"
proof (cases "classify data")
  case Stun
  then show ?thesis
    using inv only_sent_inv [OF inv] by (simp add: onPacket_def handleStun_def split: option.split)
next
  case Dtls
  then show ?thesis using inv handleDtls_runs [OF inv lib] by (simp add: onPacket_def)
next
  case Srtp
  have "runs (handleSrtp e data ep s) server_inv"
    by (rule handleSrtp_runs [OF inv lib]) (use ok Srtp in \<open>auto simp: datagram_ok_def\<close>)
  then show ?thesis using inv Srtp by (simp add: onPacket_def)
next
  case Unknown
  then show ?thesis using inv by (simp add: onPacket_def)
qed

lemma onReceive_runs:
  assumes inv: "server_inv s" and lib: "libsrtp_sizes (srtpL e)"
    and ok: "\<not> ec \<Longrightarrow> datagram_ok e (take 65536 dg) ep (s\<lparr>receiving := False\<rparr>)"
  shows "runs (onReceive e ec dg ep s) server_inv"
proof (cases ec)
  case True
  then show ?thesis using inv by (simp add: onReceive_def receiving_inv)
next
  case False
  have "runs (onPacket e (take 65536 dg) ep (s\<lparr>receiving := False\<rparr>)) server_inv"
    by (rule onPacket_runs [OF _ lib ok [OF False]]) (simp add: inv receiving_inv)
  then show ?thesis
    by (auto simp: onReceive_def False startReceive_def receiving_inv runs_def)
qed

section \<open>Calls\<close>

text \<open>A peer that no object of the router names.\<close>

definition unused :: "nat \<Rightarrow> ('s, 'd, 'z) sfu_scheme \<Rightarrow> bool" where
  "unused a s \<longleftrightarrow> a \<notin> set (allPeers s) \<and> (\<forall>c cc. conss s c = Some cc \<longrightarrow> c_publisher cc \<noteq> Some a)"

lemma unused_destroy:
  assumes inv: "router_inv s" and a: "peers s a = Some p" "producers p = []" "unused a s"
  shows "router_inv (destroy_peer a s)"
proof -
  let ?t = "s\<lparr>peers := (peers s)(a := None)\<rparr>"
  have nc: "consumers p = []" using inv_allD(3) [OF inv a(1)] a(3) by (auto simp: unused_def)
  have eq: "destroy_peer a s = ?t" using a nc by (simp add: destroy_peer_def)
  have P: "peers ?t b = (if b = a then None else peers s b)" for b by simp
  have "inv_peers ?t" using inv unfolding router_inv_def inv_peers_def by simp
  moreover have pub: "p_publisher pr \<noteq> a" if "prods s r = Some pr" for r pr
    using inv_prodsD(3) [OF inv that] a(1,2) by auto
  have "inv_prods ?t"
    using inv pub unfolding router_inv_def inv_prods_def by simp
  moreover have sub: "c_subscriber cc \<noteq> Some a" if c: "conss s c = Some cc" for c cc
    using inv_conssD(1) [OF inv c] a(1) nc by auto
  have "inv_conss ?t"
    using inv sub a(3) unfolding router_inv_def inv_conss_def unused_def by simp (metis option.inject)
  moreover have "inv_all ?t"
    using inv a(3) unfolding router_inv_def inv_all_def unused_def by auto
  moreover have "inv_fresh ?t" using inv unfolding router_inv_def inv_fresh_def by simp
  moreover have "inv_ssrcs ?t" "inv_linked ?t" "inv_out ?t" "inv_delta ?t"
    using inv by (simp_all add: router_inv_def inv_ssrcs_def inv_linked_def inv_out_def inv_delta_def)
  moreover have "inv_routes ?t" using inv by (simp add: router_inv_def inv_routes_def)
  ultimately have "router_inv ?t" by (simp add: router_inv_def)
  then show "router_inv (destroy_peer a s)" by (simp only: eq)
qed

lemma update_values:
  assumes "distinct (map snd xs)" "a \<notin> snd ` set xs" "distinct (map fst xs)"
  shows "distinct (map snd (AList.update k a xs))"
    and "snd ` set (AList.update k a xs) = insert a (snd ` set xs - set_option (map_of xs k))"
proof -
  have "distinct (map snd (AList.update k a xs)) \<and>
    snd ` set (AList.update k a xs) = insert a (snd ` set xs - set_option (map_of xs k))"
    using assms
  proof (induction xs)
    case (Cons x xs)
    obtain k' v where x: "x = (k', v)" by (cases x)
    show ?case
    proof (cases "k' = k")
      case True
      then show ?thesis using Cons.prems by (auto simp: x)
    next
      case False
      have "v \<notin> set_option (map_of xs k)"
        using Cons.prems(1) by (force simp: x dest: map_of_SomeD)
      moreover have "distinct (map snd (AList.update k a xs))"
        "snd ` set (AList.update k a xs) = insert a (snd ` set xs - set_option (map_of xs k))"
        using Cons by (simp_all add: x)
      ultimately show ?thesis using Cons.prems False by (auto simp: x)
    qed
  qed simp
  then show "distinct (map snd (AList.update k a xs))"
    "snd ` set (AList.update k a xs) = insert a (snd ` set xs - set_option (map_of xs k))" by blast+
qed

lemma in_update:
  assumes "distinct (map fst xs)" "x \<in> set (AList.update k a xs)"
  shows "x = (k, a) \<or> x \<in> set xs \<and> fst x \<noteq> k"
  using assms
proof (induction xs)
  case (Cons y ys)
  then show ?case by (cases y) (auto split: if_splits simp: image_iff)
qed simp

lemma in_update_intro: "x \<in> set xs \<Longrightarrow> fst x \<noteq> k \<Longrightarrow> x \<in> set (AList.update k a xs)"
  by (induction xs) (auto split: if_splits)

text \<open>The state after \<open>AddPeer\<close>, before and after the peer that was replaced is gone.\<close>

definition with_new_peer :: "string \<Rightarrow> ('s, 'd) server \<Rightarrow> ('s, 'd) server" where
  "with_new_peer k s = (alloc_peer (new_peer\<lparr>peerId := k\<rparr>) s)
     \<lparr>svcPeers := AList.update k (nextAddr s) (svcPeers s),
      pendingPeers := AList.update k (nextAddr s) (pendingPeers s)\<rparr>"

definition added :: "string \<Rightarrow> ('s, 'd) server \<Rightarrow> ('s, 'd) server" where
  "added k s = (let t = with_new_peer k s in
     case map_of (pendingPeers s) k of None \<Rightarrow> t | Some b \<Rightarrow> destroy_peer b t)"

lemma destroy_peer_simps [simp]:
  "peers (destroy_peer b s) = (peers s)(b := None)"
  "peerMap (destroy_peer b s) = peerMap s" "pendingPeers (destroy_peer b s) = pendingPeers s"
  "svcPeers (destroy_peer b s) = svcPeers s" "svc_pktRouter (destroy_peer b s) = svc_pktRouter s"
  "svc_ice (destroy_peer b s) = svc_ice s" "svc_router (destroy_peer b s) = svc_router s"
  "allPeers (destroy_peer b s) = allPeers s"
  by (auto simp: destroy_peer_def split: option.split)

lemma with_new_peer_simps [simp]:
  "peers (with_new_peer k s) = (peers s)(nextAddr s \<mapsto> new_peer\<lparr>peerId := k\<rparr>)"
  "conss (with_new_peer k s) = conss s" "prods (with_new_peer k s) = prods s"
  "allPeers (with_new_peer k s) = allPeers s" "peerMap (with_new_peer k s) = peerMap s"
  "pendingPeers (with_new_peer k s) = AList.update k (nextAddr s) (pendingPeers s)"
  "svcPeers (with_new_peer k s) = AList.update k (nextAddr s) (svcPeers s)"
  "svc_pktRouter (with_new_peer k s) = svc_pktRouter s" "svc_ice (with_new_peer k s) = svc_ice s"
  "svc_router (with_new_peer k s) = svc_router s"
  by (simp_all add: with_new_peer_def alloc_peer_def)

text \<open>No other map of the service holds the waiting peer that is replaced.\<close>

lemma replaced_not_registered:
  assumes inv: "server_inv s" and b: "map_of (pendingPeers s) k = Some b"
  shows "b \<notin> snd ` set (AList.update k (nextAddr s) (svcPeers s))" "b \<notin> snd ` set (peerMap s)"
    "b \<noteq> nextAddr s" "\<exists>p. peers s b = Some p \<and> producers p = []"
proof -
  have m: "maps_inv s" and ids: "ids_inv s" and r: "router_inv s" using inv by (simp_all add: server_inv_def)
  have kb: "(k, b) \<in> set (pendingPeers s)" using b by (rule map_of_SomeD)
  obtain p where p: "peers s b = Some p" "peerId p = k" "producers p = []"
    using ids_invD(1) [OF ids kb] by auto
  then show "\<exists>p. peers s b = Some p \<and> producers p = []" by blast
  show nb: "b \<noteq> nextAddr s" using p(1) inv_freshD(1) [OF r, of "nextAddr s"] by auto
  show "b \<notin> snd ` set (peerMap s)" using maps_inv_disj [OF m] kb by force
  have "fst x = k" if "x \<in> set (svcPeers s)" "snd x = b" for x
    using ids_invD(3) [OF ids that(1)] that(2) p by auto
  moreover have "distinct (map fst (svcPeers s))" using m unfolding maps_inv_def by blast
  ultimately show "b \<notin> snd ` set (AList.update k (nextAddr s) (svcPeers s))"
    using nb in_update [of "svcPeers s" _ k "nextAddr s"] by fastforce
qed

lemma with_new_peer_router_inv: "server_inv s \<Longrightarrow> router_inv (with_new_peer k s)"
proof (rule same_graph_inv)
  assume "server_inv s"
  then show "router_inv (alloc_peer (new_peer\<lparr>peerId := k\<rparr>) s)"
    by (intro alloc_peer_inv) (simp_all add: server_inv_def new_peer_def)
qed (simp add: same_graph_def with_new_peer_def)

lemma added_router_inv:
  assumes inv: "server_inv s" and un: "\<And>b. map_of (pendingPeers s) k = Some b \<Longrightarrow> unused b s"
  shows "router_inv (added k s)"
proof (cases "map_of (pendingPeers s) k")
  case None
  then show ?thesis using with_new_peer_router_inv [OF inv] by (simp add: added_def)
next
  case (Some b)
  let ?t = "with_new_peer k s"
  obtain p where p: "peers s b = Some p" "producers p = []" "b \<noteq> nextAddr s"
    using replaced_not_registered [OF inv Some] by blast
  have "peers ?t b = Some p" using p by simp
  moreover have "unused b ?t" using un [OF Some] by (simp add: unused_def)
  ultimately show ?thesis
    using unused_destroy [OF with_new_peer_router_inv [OF inv] _ p(2)] Some by (simp add: added_def)
qed

lemma added_dom:
  assumes "server_inv s"
  shows "dom (peers (added k s)) = insert (nextAddr s) (dom (peers s) - set_option (map_of (pendingPeers s) k))"
proof (cases "map_of (pendingPeers s) k")
  case None
  then show ?thesis by (simp add: added_def)
next
  case (Some b)
  then show ?thesis using replaced_not_registered(3) [OF assms Some] by (auto simp: added_def)
qed

lemma added_maps [simp]:
  "peerMap (added k s) = peerMap s" "svc_pktRouter (added k s) = svc_pktRouter s"
  "pendingPeers (added k s) = AList.update k (nextAddr s) (pendingPeers s)"
  "svcPeers (added k s) = AList.update k (nextAddr s) (svcPeers s)"
  "svc_ice (added k s) = svc_ice s" "svc_router (added k s) = svc_router s"
  by (simp_all add: added_def Let_def split: option.split)

lemma added_maps_inv:
  assumes inv: "server_inv s"
  shows "maps_inv (added k s)"
proof -
  let ?a = "nextAddr s" and ?old = "set_option (map_of (pendingPeers s) k)"
  have m: "maps_inv s" and r: "router_inv s" using inv by (simp_all add: server_inv_def)
  have keys: "distinct (map fst (pendingPeers s))" "distinct (map fst (peerMap s))" "distinct (map fst (svcPeers s))"
    and vals: "distinct (map snd (pendingPeers s))" "distinct (map snd (peerMap s))"
    and disj: "snd ` set (pendingPeers s) \<inter> snd ` set (peerMap s) = {}"
    and dom: "dom (peers s) = snd ` set (pendingPeers s) \<union> snd ` set (peerMap s)"
    using m by (simp_all add: maps_inv_def owner_addrs_def)
  have free: "peers s ?a = None" using inv_freshD(1) [OF r] by simp
  then have a: "?a \<notin> snd ` set (pendingPeers s)" "?a \<notin> snd ` set (peerMap s)"
    using dom unfolding dom_def by blast+
  note upd = update_values [OF vals(1) a(1) keys(1), of k]
  have old: "?old \<inter> snd ` set (peerMap s) = {}" "?a \<notin> ?old"
    "?old \<inter> snd ` set (AList.update k ?a (svcPeers s)) = {}"
    using replaced_not_registered(1-3) [OF inv, of k] by (cases "map_of (pendingPeers s) k"; simp)+
  have svc: "snd ` set (AList.update k ?a (svcPeers s)) \<subseteq> insert ?a (dom (peers s))"
    using in_update [OF keys(3)] maps_inv_svc [OF m] by fastforce
  have "dom (peers (added k s)) = snd ` set (AList.update k ?a (pendingPeers s)) \<union> snd ` set (peerMap s)"
    using old(1) unfolding added_dom [OF inv] upd(2) dom by blast
  moreover have "snd ` set (AList.update k ?a (svcPeers s)) \<subseteq> dom (peers (added k s))"
    using svc old(3) unfolding added_dom [OF inv] by blast
  moreover have "snd ` set (AList.update k ?a (pendingPeers s)) \<inter> snd ` set (peerMap s) = {}"
    using disj a(2) unfolding upd(2) by blast
  ultimately show ?thesis
    using keys vals upd(1) by (simp add: maps_inv_def owner_addrs_def distinct_update)
qed

lemma added_peers:
  assumes "server_inv s"
  shows "peers (added k s) (nextAddr s) = Some (new_peer\<lparr>peerId := k\<rparr>)"
    and "peers s b \<noteq> None \<Longrightarrow> map_of (pendingPeers s) k \<noteq> Some b \<Longrightarrow> peers (added k s) b = peers s b"
proof -
  have free: "peers s (nextAddr s) = None" using assms inv_freshD(1) [of s "nextAddr s"] by (simp add: server_inv_def)
  show "peers (added k s) (nextAddr s) = Some (new_peer\<lparr>peerId := k\<rparr>)"
    using replaced_not_registered(3) [OF assms, of k]
    by (cases "map_of (pendingPeers s) k") (auto simp: added_def)
  show "peers s b \<noteq> None \<Longrightarrow> map_of (pendingPeers s) k \<noteq> Some b \<Longrightarrow> peers (added k s) b = peers s b"
    using free by (cases "map_of (pendingPeers s) k") (auto simp: added_def)
qed

lemma added_ids_inv:
  assumes inv: "server_inv s"
  shows "ids_inv (added k s)"
proof -
  have m: "maps_inv s" and ids: "ids_inv s" using inv by (simp_all add: server_inv_def)
  have keys: "distinct (map fst (pendingPeers s))" "distinct (map fst (svcPeers s))"
    using m unfolding maps_inv_def by blast+
  note old = replaced_not_registered(1,2) [OF inv, of k]
  note kept = added_peers(2) [OF inv, of _ k]
  have new: "pending_ok (k, nextAddr s) (added k s)" "registered_ok (k, nextAddr s) (added k s)"
    using added_peers(1) [OF inv, of k] by (simp_all add: pending_ok_def registered_ok_def new_peer_def ready_def)
  have "pending_ok x (added k s)" if x: "x \<in> set (pendingPeers s)" "fst x \<noteq> k" for x
  proof -
    have "map_of (pendingPeers s) k \<noteq> Some (snd x)"
      using ids_invD(1) [OF ids x(1)] ids_invD(1) [OF ids, of "(k, snd x)"] x(2) map_of_SomeD by fastforce
    then show ?thesis using ids_invD(1) [OF ids x(1)] kept [of "snd x"] by (auto simp: pending_ok_def)
  qed
  moreover have "registered_ok x (added k s)" if x: "x \<in> set (svcPeers s)" "fst x \<noteq> k" for x
  proof -
    have "map_of (pendingPeers s) k \<noteq> Some (snd x)"
      using ids_invD(3) [OF ids x(1)] ids_invD(1) [OF ids, of "(k, snd x)"] x(2) map_of_SomeD by fastforce
    then show ?thesis using ids_invD(3) [OF ids x(1)] kept [of "snd x"] by (auto simp: registered_ok_def)
  qed
  moreover have "bound_ok x (added k s)" if x: "x \<in> set (peerMap s)" for x
  proof -
    have "map_of (pendingPeers s) k \<noteq> Some (snd x)" using old(2) [of "snd x"] x by auto
    then show ?thesis using ids_invD(2) [OF ids x] kept [of "snd x"] by (auto simp: bound_ok_def)
  qed
  ultimately show ?thesis
    using in_update [OF keys(1)] in_update [OF keys(2)] new unfolding ids_inv_def added_maps by blast
qed

lemma added_inv:
  assumes "server_inv s" "\<And>b. map_of (pendingPeers s) k = Some b \<Longrightarrow> unused b s"
  shows "server_inv (added k s)"
  using added_router_inv [OF assms] added_maps_inv [OF assms(1)] added_ids_inv [OF assms(1)] assms(1)
  by (simp add: server_inv_def)

text \<open>The answer of \<open>AddPeer\<close>.\<close>

definition add_peer_answer :: "('s, 'd) env \<Rightarrow> ('s, 'd) server \<Rightarrow> add_peer_resp" where
  "add_peer_answer e s = \<lparr>sfu_ip = getPublicIp e, sfu_port = 10000,
     ice_ufrag = (case svc_ice s of None \<Rightarrow> '''' | Some i \<Rightarrow> text_of (iceUfrag i)),
     ice_pwd = (case svc_ice s of None \<Rightarrow> '''' | Some i \<Rightarrow> text_of (icePwd i)),
     dtls_fingerprint = certFingerprint e\<rparr>"

lemma release_live:
  assumes "peers s b \<noteq> None" "maps_inv s" "peerMap t = peerMap s" "pendingPeers t = pendingPeers s"
  shows "release (Some b) t = t"
proof -
  have "owned b t"
    using assms unfolding maps_inv_def owner_addrs_def owned_def dom_def by auto
  then show ?thesis by (simp add: release_def)
qed

lemma AddPeer_eq:
  assumes inv: "server_inv s"
  shows "AddPeer e k s = Some (add_peer_answer e s, added k s)"
proof -
  let ?p = "new_peer\<lparr>peerId := k\<rparr>" and ?a = "nextAddr s"
  define s2 where "s2 = (alloc_peer ?p s)\<lparr>svcPeers := AList.update k ?a (svcPeers s)\<rparr>"
  have m: "maps_inv s" and pkt: "svc_pktRouter s" using inv by (simp_all add: server_inv_def)
  have rel: "release (map_of (svcPeers s) k) s2 = s2"
  proof (cases "map_of (svcPeers s) k")
    case None
    then show ?thesis by (simp add: release_def)
  next
    case (Some b)
    then have "peers s b \<noteq> None" using registered_live [OF inv, of k b] by (auto simp: findPeer_def)
    then show ?thesis unfolding Some by (rule release_live [OF _ m]) (simp_all add: s2_def alloc_peer_def)
  qed
  have s2: "peers s2 ?a = Some ?p" "pendingPeers s2 = pendingPeers s" "svc_ice s2 = svc_ice s"
    "svc_pktRouter s2" "s2\<lparr>pendingPeers := AList.update k ?a (pendingPeers s)\<rparr> = with_new_peer k s"
    using pkt by (simp_all add: s2_def alloc_peer_def with_new_peer_def)
  have "release (map_of (pendingPeers s) k) (with_new_peer k s) = added k s"
  proof (cases "map_of (pendingPeers s) k")
    case None
    then show ?thesis by (simp add: release_def added_def)
  next
    case (Some b)
    let ?t = "with_new_peer k s"
    obtain p where p: "peers s b = Some p" "producers p = []" "b \<noteq> ?a"
      using replaced_not_registered [OF inv Some] by blast
    have "b \<notin> snd ` set (AList.update k ?a (pendingPeers s))"
      using update_values(2) [of "pendingPeers s" ?a k] m Some p(3) fresh_not_owned(1) [OF m, of ?a]
        inv_freshD(1) [of s ?a] inv
      by (simp add: maps_inv_def owner_addrs_def server_inv_def)
    then have "\<not> owned b ?t" using replaced_not_registered(1,2) [OF inv Some] by (simp add: owned_def)
    then show ?thesis by (simp add: release_def Some added_def)
  qed
  then have "pkt_registerPeer ?a s2 = Some (added k s)"
    by (simp add: pkt_registerPeer_def s2 new_peer_def)
  moreover have "svcPeers (alloc_peer ?p s) = svcPeers s"
    "(alloc_peer ?p s)\<lparr>svcPeers := AList.update k ?a (svcPeers s)\<rparr> = s2"
    by (simp_all add: alloc_peer_def s2_def)
  ultimately show ?thesis
    using rel s2(4) by (simp add: AddPeer_def Let_def add_peer_answer_def)
qed

lemma AddConsumer_runs:
  assumes inv: "server_inv s"
  shows "runs (AddConsumer sub pub v s) (\<lambda>(r, t). server_inv t)"
proof (cases "findPeer sub s \<noteq> None \<and> findPeer pub s \<noteq> None \<and> svc_router s")
  case False
  then show ?thesis using inv by (auto simp: AddConsumer_def split: option.split)
next
  case True
  then obtain a b where ab: "findPeer sub s = Some a" "findPeer pub s = Some b" by auto
  have "peers s a \<noteq> None" "peers s b \<noteq> None" using registered_live [OF inv] ab by fastforce+
  then obtain k t where t: "addConsumer a b v s = Some (k, t)" "router_inv t"
    using addConsumer_runs [of s a b v] inv by (auto simp: server_inv_def runs_def)
  have "server_inv t"
    by (rule frame_server_inv [OF addConsumer_frame [OF t(1), of "{}"] inv t(2)]) simp
  then show ?thesis using True ab t(1) by (simp add: AddConsumer_def)
qed

lemma unregister_inv:
  assumes inv: "server_inv s"
  shows "server_inv (s\<lparr>svcPeers := AList.delete k (svcPeers s)\<rparr>)"
proof -
  let ?t = "s\<lparr>svcPeers := AList.delete k (svcPeers s)\<rparr>"
  have sub: "set (AList.delete k (svcPeers s)) \<subseteq> set (svcPeers s)" by (auto simp: AList.delete_eq)
  have m: "maps_inv s" and ids: "ids_inv s" using inv by (simp_all add: server_inv_def)
  have "router_inv ?t" by (rule same_graph_inv [where s = s]) (use inv in \<open>simp_all add: same_graph_def server_inv_def\<close>)
  moreover have "maps_inv ?t"
    using m sub maps_inv_svc [OF m]
    by (simp add: maps_inv_def owner_addrs_def distinct_delete) (meson image_mono subset_trans)
  moreover have "ids_inv ?t"
    using ids sub unfolding ids_inv_def pending_ok_def bound_ok_def registered_ok_def by auto
  ultimately show ?thesis using inv by (simp add: server_inv_def)
qed

lemma RemovePeer_runs:
  assumes inv: "server_inv s"
  shows "runs (RemovePeer k s) (\<lambda>(r, t). r \<and> server_inv t \<and> findPeer k t = None)"
proof (cases "findPeer k s")
  case None
  then show ?thesis using inv by (simp add: RemovePeer_def)
next
  case (Some a)
  let ?s = "s\<lparr>svcPeers := AList.delete k (svcPeers s)\<rparr>"
  have inv1: "server_inv ?s" by (rule unregister_inv [OF inv])
  have gone: "map_of (svcPeers ?s) k = None" by (simp add: delete_conv')
  have live: "peers ?s a \<noteq> None" using registered_live [OF inv Some] by auto
  have "runs (if svc_router ?s then removePeer a ?s else Some ?s) (\<lambda>t. server_inv t \<and> peers t a \<noteq> None \<and>
      map_of (svcPeers t) k = None)"
  proof (cases "svc_router ?s")
    case True
    obtain t where t: "removePeer a ?s = Some t" "router_inv t"
      using removePeer_runs [OF _ live] inv1 by (auto simp: server_inv_def runs_def)
    note f = removePeer_frame [OF t(1), of "{}"]
    have "server_inv t" by (rule frame_server_inv [OF f inv1 t(2)]) simp
    moreover have "peers t a \<noteq> None" using frame_dom [OF f] live by (auto simp: dom_def)
    ultimately show ?thesis using True t(1) gone frame_eqs(6) [OF f] by simp
  next
    case False
    then show ?thesis using inv1 live gone by simp
  qed
  then obtain t where t: "(if svc_router ?s then removePeer a ?s else Some ?s) = Some t" "server_inv t"
    "peers t a \<noteq> None" "map_of (svcPeers t) k = None" by (auto simp: runs_def)
  have "release (Some a) t = t"
    using release_owned [of t "Some a"] t(2,3) by (simp add: server_inv_def)
  then have "RemovePeer k s = Some (True, t)"
    using t(1) by (simp add: RemovePeer_def Some)
  then show ?thesis using t by (simp add: findPeer_def)
qed

text \<open>\<open>SendOffer\<close> writes mids into consumers and payload types into the static sets.\<close>

lemma bind_recv_mid_runs:
  assumes r: "router_inv (snd x)" and sub: "peers (snd x) a \<noteq> None"
  shows "runs (bind_recv_mid a rm x) (\<lambda>y. graph_step (snd x) (snd y))"
proof -
  obtain p where p: "peers (snd x) a = Some p" using sub by blast
  note eq = bindConsumerByMid_eq [OF r p, of "rm_publisher rm" "rm_isVideo rm" "rm_mid rm"]
  obtain k t where t: "bindConsumerByMid a (rm_publisher rm) (rm_isVideo rm) (rm_mid rm) (snd x) = Some (k, t)"
    using eq by (auto split: option.splits)
  have "same_graph (snd x) t"
    using eq t by (auto split: option.splits intro!: same_graph_cons_upd simp: cons_shape_def)
  then have "graph_step (snd x) t" using bindConsumerByMid_frame [OF t] by (simp add: graph_step_def)
  then show ?thesis by (simp add: bind_recv_mid_def t)
qed

lemma offer_bindings_runs:
  fixes s :: "('s, 'd) server"
  assumes inv: "server_inv s"
  shows "runs (offer_bindings k rms s) (\<lambda>(m, t). graph_step s t)"
proof (cases "findPeer k s")
  case None
  then show ?thesis by (simp add: offer_bindings_def)
next
  case (Some a)
  have live: "peers s a \<noteq> None" using registered_live [OF inv Some] by auto
  have "runs (foldM (bind_recv_mid a) rms (Map.empty, s)) (\<lambda>y. graph_step s (snd y))"
  proof (rule runs_foldM)
    fix rm and y :: "(string \<rightharpoonup> u32) \<times> ('s, 'd) server"
    assume y: "graph_step s (snd y)"
    have "peers (snd y) a \<noteq> None"
      using live frame_dom [of "{}" s "snd y"] y by (auto simp: graph_step_def dom_def)
    moreover have "router_inv (snd y)" using graph_step_inv [OF y inv] by (simp add: server_inv_def)
    ultimately have "runs (bind_recv_mid a rm y) (\<lambda>z. graph_step (snd y) (snd z))" by (intro bind_recv_mid_runs)
    then
    show "runs (bind_recv_mid a rm y) (\<lambda>y. graph_step s (snd y))"
      by (rule runs_mono) (rule graph_step_trans [OF y])
  qed simp
  then obtain m t where t: "foldM (bind_recv_mid a) rms (Map.empty, s) = Some (m, t)" "graph_step s t"
    by (auto simp: runs_def)
  have "router_inv t" using graph_step_inv [OF t(2) inv] by (simp add: server_inv_def)
  moreover obtain p where "peers t a = Some p"
    using live frame_dom [of "{}" s t] t(2) by (auto simp: graph_step_def dom_def)
  ultimately show ?thesis
    using t getAllBoundSsrcs_eq [of t a p] by (simp add: offer_bindings_def Some)
qed

lemma SendOffer_runs:
  assumes inv: "server_inv s"
  shows "runs (SendOffer e k sdp rms s) (\<lambda>(r, t). server_inv t)"
proof -
  obtain m t where t: "offer_bindings k rms s = Some (m, t)" "graph_step s t"
    using offer_bindings_runs [OF inv, of k rms] by (auto simp: runs_def)
  have "server_inv t" by (rule graph_step_inv [OF t(2) inv])
  then show ?thesis by (simp add: SendOffer_def t(1) Let_def server_inv_ext [of t] same_graph_def split: prod.split)
qed

end
