(* ===== verification/Threads.thy ===== *)
theory Threads
  imports ServerInv
begin

text \<open>
  The server with its threads. The calls of \<open>grpc/MediaServiceImpl.cpp\<close> run on threads of gRPC,
  any number of them at a time; datagrams are handled on one thread at a time, because the next
  receive is started when a datagram has been dealt with. A step is what a thread does from taking a
  lock to the next moment at which another thread can come in between: a \<open>section\<close> of a call, a
  \<open>turn\<close> of the receive path. Between its steps a thread has local variables only: they are
  the arguments of \<open>task\<close> and \<open>rx_task\<close>.

  The members that only the receive path touches (the DTLS and SRTP contexts of peers) and the maps
  of \<open>PacketRouter\<close> are updated in the step that also finds the peer.
\<close>

section \<open>Local references\<close>

text \<open>A \<open>shared_ptr\<close> to \<open>a\<close> is gone while the threads hold those to the peers in \<open>H\<close>.\<close>

definition drop_ref :: "nat set \<Rightarrow> nat option \<Rightarrow> ('s, 'd) server \<Rightarrow> ('s, 'd) server" where
  "drop_ref H q s = (case q of None \<Rightarrow> s | Some a \<Rightarrow> if a \<in> H then s else release (Some a) s)"

lemma drop_ref_empty [simp]: "drop_ref {} q s = release q s"
  by (simp add: drop_ref_def release_def split: option.split)

text \<open>Two local variables go out of scope, the later one first.\<close>

definition drop_refs :: "nat set \<Rightarrow> nat option \<Rightarrow> nat option \<Rightarrow> ('s, 'd) server \<Rightarrow> ('s, 'd) server" where
  "drop_refs H q r s = drop_ref H q (drop_ref (set_option q \<union> H) r s)"

section \<open>The calls\<close>

datatype reply =
    Added add_peer_resp
  | Subscribed "grpc_status + u32"
  | Answer "int_error + string"
  | Removed bool

datatype task =
    Add_call string
  | Add_register string nat
  | Sub_call string string bool
  | Sub_found "nat option" string bool
  | Sub_ready nat nat bool
  | Sub_linked nat nat nat
  | Offer_call string string "recv_mid list"
  | Offer_bind sdp_parser nat "recv_mid list" "string \<rightharpoonup> u32" string
  | Offer_answer sdp_parser "nat option" "string \<rightharpoonup> u32" string
  | Remove_call string
  | Remove_found nat
  | Answered reply

text \<open>The peers to which a call holds a \<open>shared_ptr\<close> between its steps.\<close>

fun holds :: "task \<Rightarrow> nat set" where
  "holds (Add_register k a) = {a}"
| "holds (Sub_found q pub v) = set_option q"
| "holds (Sub_ready a b v) = {a, b}"
| "holds (Sub_linked a b c) = {a, b}"
| "holds (Offer_bind p a rms m sdp) = {a}"
| "holds (Offer_answer p q m sdp) = set_option q"
| "holds (Remove_found a) = {a}"
| "holds _ = {}"

text \<open>
  The raw pointer with which \<open>addConsumer\<close> goes on after the router's lock: the subscriber that owns
  the consumer, and the consumer.
\<close>

fun returns :: "task \<Rightarrow> (nat \<times> nat) set" where
  "returns (Sub_linked a b c) = {(a, c)}"
| "returns _ = {}"

definition answer_add_peer :: "('s, 'd) env \<Rightarrow> ('s, 'd) server \<Rightarrow> add_peer_resp" where
  "answer_add_peer e s =
     \<lparr>sfu_ip = getPublicIp e, sfu_port = 10000,
      ice_ufrag = (case svc_ice s of None \<Rightarrow> '''' | Some i \<Rightarrow> text_of (iceUfrag i)),
      ice_pwd = (case svc_ice s of None \<Rightarrow> '''' | Some i \<Rightarrow> text_of (icePwd i)),
      dtls_fingerprint = certFingerprint e\<rparr>"

text \<open>\<open>AddPeer\<close>: under the service's lock, then under that of the pending peers.\<close>

definition add_store :: "nat set \<Rightarrow> string \<Rightarrow> ('s, 'd) server \<Rightarrow> task \<times> ('s, 'd) server" where
  "add_store H k s =
     (let a = nextAddr s;
          s1 = alloc_peer (new_peer\<lparr>peerId := k\<rparr>) s;
          old = map_of (svcPeers s1) k
      in (Add_register k a, drop_ref H old (s1\<lparr>svcPeers := AList.update k a (svcPeers s1)\<rparr>)))"

definition add_register ::
  "('s, 'd) env \<Rightarrow> nat set \<Rightarrow> nat \<Rightarrow> ('s, 'd) server \<Rightarrow> (task \<times> ('s, 'd) server) option" where
  "add_register e H a s = do {
     s1 \<leftarrow> (if svc_pktRouter s
           then do {
             p \<leftarrow> peers s a;
             let old = map_of (pendingPeers s) (peerId p);
             Some (drop_ref H old (s\<lparr>pendingPeers := AList.update (peerId p) a (pendingPeers s)\<rparr>))
           }
           else Some s);
     Some (Answered (Added (answer_add_peer e s1)), drop_ref H (Some a) s1)
   }"

text \<open>
  \<open>AddConsumer\<close>: two lookups under the service's lock, then the router under its own, and after that
  the read of the SSRC from the new consumer without a lock. (The SSRC is drawn under a lock of the
  generator right before; nothing else depends on when that happens.)
\<close>

definition sub_lookup :: "nat set \<Rightarrow> nat option \<Rightarrow> string \<Rightarrow> bool \<Rightarrow> ('s, 'd) server \<Rightarrow> task \<times> ('s, 'd) server" where
  "sub_lookup H q pub v s =
     (case (q, findPeer pub s) of
        (Some a, Some b) \<Rightarrow> if svc_router s then (Sub_ready a b v, s)
          else (Answered (Subscribed (Inr 0)), drop_refs H (Some a) (Some b) s)
      | (q, r) \<Rightarrow> (Answered (Subscribed (Inl NOT_FOUND)), drop_refs H q r s))"

definition sub_subscribe :: "nat \<Rightarrow> nat \<Rightarrow> bool \<Rightarrow> ('s, 'd) server \<Rightarrow> (task \<times> ('s, 'd) server) option" where
  "sub_subscribe a b v s = do {
     (raw, s1) \<leftarrow> insert_consumer a b v s;
     Some (Sub_linked a b raw, s1)
   }"

definition sub_return ::
  "nat set \<Rightarrow> nat \<Rightarrow> nat \<Rightarrow> nat \<Rightarrow> ('s, 'd) server \<Rightarrow> (task \<times> ('s, 'd) server) option" where
  "sub_return H a b raw s = do {
     c \<leftarrow> conss s raw;
     Some (Answered (Subscribed (Inr (c_rewrittenSsrc c))), drop_refs H (Some a) (Some b) s)
   }"

text \<open>\<open>SendOffer\<close>: the lookup, one step of the router per requested line, one for all bound lines.\<close>

definition offer_lookup :: "('s, 'd) env \<Rightarrow> string \<Rightarrow> string \<Rightarrow> recv_mid list \<Rightarrow> ('s, 'd) server \<Rightarrow> task \<times> ('s, 'd) server" where
  "offer_lookup e k sdp rms s =
     (case findPeer k s of None \<Rightarrow> (Offer_answer (offer_parser e s) None Map.empty sdp, s)
      | Some a \<Rightarrow>
          if svc_router s then (Offer_bind (offer_parser e s) a rms Map.empty sdp, s)
          else (Offer_answer (offer_parser e s) (Some a) Map.empty sdp, s))"

definition offer_bind_next ::
  "sdp_parser \<Rightarrow> nat \<Rightarrow> recv_mid list \<Rightarrow> (string \<rightharpoonup> u32) \<Rightarrow> string \<Rightarrow> ('s, 'd) server \<Rightarrow> (task \<times> ('s, 'd) server) option" where
  "offer_bind_next p a rms m sdp s =
     (case rms of
        rm # rest \<Rightarrow> do { (m', s1) \<leftarrow> bind_recv_mid a rm (m, s); Some (Offer_bind p a rest m' sdp, s1) }
      | [] \<Rightarrow> do { bound \<leftarrow> getAllBoundSsrcs a s; Some (Offer_answer p (Some a) (m ++ bound) sdp, s) })"

definition offer_finish ::
  "nat set \<Rightarrow> sdp_parser \<Rightarrow> nat option \<Rightarrow> (string \<rightharpoonup> u32) \<Rightarrow> string \<Rightarrow> ('s, 'd) server \<Rightarrow> task \<times> ('s, 'd) server" where
  "offer_finish H p q m sdp s =
     (let (r, g) = generateAnswer sdp (setMidSsrcMap m p) (statics s)
      in (Answered (Answer (map_sum id fst r)), drop_ref H q (s\<lparr>statics := g\<rparr>)))"

text \<open>\<open>RemovePeer\<close>: out of the service's map, then out of the router.\<close>

definition remove_lookup :: "string \<Rightarrow> ('s, 'd) server \<Rightarrow> task \<times> ('s, 'd) server" where
  "remove_lookup k s =
     (case findPeer k s of None \<Rightarrow> (Answered (Removed True), s)
      | Some a \<Rightarrow> (Remove_found a, s\<lparr>svcPeers := AList.delete k (svcPeers s)\<rparr>))"

definition remove_detach :: "nat set \<Rightarrow> nat \<Rightarrow> ('s, 'd) server \<Rightarrow> (task \<times> ('s, 'd) server) option" where
  "remove_detach H a s = do {
     s1 \<leftarrow> (if svc_router s then removePeer a s else Some s);
     Some (Answered (Removed True), drop_ref H (Some a) s1)
   }"

fun section_step ::
  "('s, 'd) env \<Rightarrow> nat set \<Rightarrow> task \<Rightarrow> ('s, 'd) server \<Rightarrow> (task \<times> ('s, 'd) server) option" where
  "section_step e H (Add_call k) s = Some (add_store H k s)"
| "section_step e H (Add_register k a) s = add_register e H a s"
| "section_step e H (Sub_call sub pub v) s = Some (Sub_found (findPeer sub s) pub v, s)"
| "section_step e H (Sub_found q pub v) s = Some (sub_lookup H q pub v s)"
| "section_step e H (Sub_ready a b v) s = sub_subscribe a b v s"
| "section_step e H (Sub_linked a b raw) s = sub_return H a b raw s"
| "section_step e H (Offer_call k sdp rms) s = Some (offer_lookup e k sdp rms s)"
| "section_step e H (Offer_bind p a rms m sdp) s = offer_bind_next p a rms m sdp s"
| "section_step e H (Offer_answer p q m sdp) s = Some (offer_finish H p q m sdp s)"
| "section_step e H (Remove_call k) s = Some (remove_lookup k s)"
| "section_step e H (Remove_found a) s = remove_detach H a s"
| "section_step e H (Answered r) s = Some (Answered r, s)"

section \<open>The receive path\<close>

datatype rx_task =
    Rx_idle
  | Rx_packet "u8 list" endpoint
  | Rx_keyed nat
  | Rx_pli nat "nat list"
  | Rx_rtp "u8 list" nat
  | Rx_forward "u8 list" "nat list"
  | Rx_rtcp "u8 list" nat nat
  | Rx_feedback "u8 list" nat nat nat
  | Rx_done

text \<open>\<open>handleDtls\<close> up to the call of \<open>sendPLItoAllPeers\<close>, that is until new keys are in place.\<close>

definition rx_dtls ::
  "('s, 'd) env \<Rightarrow> u8 list \<Rightarrow> endpoint \<Rightarrow> ('s, 'd) server \<Rightarrow> (rx_task \<times> ('s, 'd) server) option" where
  "rx_dtls e data ep s = do {
     (a, s1) \<leftarrow> getOrCreatePeer e ep s;
     p \<leftarrow> peers s1 a;
     let ctx = session_of (dtlsL e) ep p;
     let (ctx', out, r) = handlePacket (dtlsL e) data ctx;
     let s2 = s1\<lparr>peers := (peers s1)(a \<mapsto> p\<lparr>dtls := Some ctx'\<rparr>), sent := sent s1 @ out\<rparr>;
     if \<not> handshakeDone ctx \<and> handshakeDone ctx' then
       (let keys = exportSrtpKeys (dtlsL e) ctx';
            (ok, srtp') = srtp_init (srtpL e) keys srtp_new
        in if keys \<noteq> [] \<and> ok
           then Some (Rx_keyed a, s2\<lparr>peers := modify a (\<lambda>x. x\<lparr>srtp := Some srtp'\<rparr>) (peers s2)\<rparr>)
           else Some (Rx_done, s2))
     else Some (Rx_done, s2)
   }"

text \<open>\<open>handleSrtp\<close> up to the call of the router.\<close>

definition rx_srtp ::
  "('s, 'd) env \<Rightarrow> u8 list \<Rightarrow> endpoint \<Rightarrow> ('s, 'd) server \<Rightarrow> (rx_task \<times> ('s, 'd) server) option" where
  "rx_srtp e data ep s = do {
     (a, s1) \<leftarrow> getOrCreatePeer e ep s;
     p \<leftarrow> peers s1 a;
     case srtp p of None \<Rightarrow> Some (Rx_done, s1)
     | Some ctx \<Rightarrow> do {
         (pl, s2) \<leftarrow> decrypt (srtpL e) data a ctx s1;
         Some (if \<not> pr_router s2 then Rx_done
               else (case pl of Plain_rtp pkt \<Rightarrow> Rx_rtp pkt a | Plain_rtcp pkt \<Rightarrow> Rx_rtcp pkt a 0 | Rejected \<Rightarrow> Rx_done), s2)
       }
   }"

definition rx_packet ::
  "('s, 'd) env \<Rightarrow> u8 list \<Rightarrow> endpoint \<Rightarrow> ('s, 'd) server \<Rightarrow> (rx_task \<times> ('s, 'd) server) option" where
  "rx_packet e data ep s =
     (if length data < 1 then Some (Rx_done, s)
      else case classify data of
        Stun \<Rightarrow> Some (Rx_done, handleStun e data ep s)
      | Dtls \<Rightarrow> rx_dtls e data ep s
      | Srtp \<Rightarrow> rx_srtp e data ep s
      | Unknown \<Rightarrow> Some (Rx_done, s))"

text \<open>
  A sub-packet of RTCP. Its handler reads an SSRC from the packet and looks the consumer up under the
  router's lock; with the pointer it has found, it goes on without the lock.
\<close>

definition rtcp_key :: "u8 list \<Rightarrow> nat \<Rightarrow> nat \<Rightarrow> u32 option option" where
  "rtcp_key d p pktLen =
     (let remaining = length d - p in
      if rtcpIsPLI d p remaining then do { k \<leftarrow> rd32 d (p + 8); Some (Some k) }
      else if rtcpIsNACK d p remaining then do {
        k \<leftarrow> rd32 d (p + 8);
        pid \<leftarrow> rd16 d (p + 12);
        blp \<leftarrow> rd16 d (p + 14);
        Some (Some k)
      }
      else if rtcpIsRR d p remaining \<and> 8 \<le> pktLen then do { k \<leftarrow> rd32 d (p + 4); Some (Some k) }
      else Some None)"

definition rtcp_lookup :: "u8 list \<Rightarrow> nat \<Rightarrow> nat \<Rightarrow> ('s, 'd) server \<Rightarrow> nat option option" where
  "rtcp_lookup d p pktLen s = do {
     k \<leftarrow> rtcp_key d p pktLen;
     Some (case k of None \<Rightarrow> None | Some outSsrc \<Rightarrow> findConsumerByOutSsrc outSsrc s)
   }"

definition rtcp_found ::
  "'s srtp_lib \<Rightarrow> u8 list \<Rightarrow> nat \<Rightarrow> nat \<Rightarrow> nat \<Rightarrow> ('s, 'd) server \<Rightarrow> ('s, 'd) server option" where
  "rtcp_found lib d p pktLen c s = do {
     cc \<leftarrow> conss s c;
     case c_publisher cc of None \<Rightarrow> Some s
     | Some publisher \<Rightarrow>
         if rtcpIsPLI d p (length d - p) then do {
           (b, s') \<leftarrow> sendProtectedRtcp lib 64 (pli_bytes 0 (c_publisherSsrc cc)) publisher s;
           Some s'
         }
         else if rtcpIsNACK d p (length d - p) then do {
           pid \<leftarrow> rd16 d (p + 12);
           blp \<leftarrow> rd16 d (p + 14);
           let origPid = pid - of_int (c_seqDelta cc);
           (b, s') \<leftarrow> sendProtectedRtcp lib 64 (nack_bytes 0 (c_publisherSsrc cc) origPid blp) publisher s;
           Some s'
         }
         else do {
           pub \<leftarrow> peers s publisher;
           if srtp pub = None then Some s
           else do {
             copy \<leftarrow> (if length d < p + pktLen then None else Some (take pktLen (drop p d)));
             out \<leftarrow> (if 12 \<le> length copy then poke 8 (be32 (c_publisherSsrc cc)) copy else Some copy);
             (b, s') \<leftarrow> sendProtectedRtcp lib (length out) out publisher s;
             Some s'
           }
         }
   }"

text \<open>The two parts of a handler make up the handler.\<close>

lemma router_rtcp_case_split:
  fixes s :: "('s, 'd) server"
  shows "router_rtcp_case lib a d p n s = do {
     q \<leftarrow> rtcp_lookup d p n s;
     case q of None \<Rightarrow> Some s | Some c \<Rightarrow> rtcp_found lib d p n c s
   }"
proof -
  have "rtcpIsPLI d p (length d - p) \<Longrightarrow> handlePLI lib d p n a s = rtcp_lookup d p n s \<bind>
      case_option (Some s) (\<lambda>c. rtcp_found lib d p n c s)"
    by (cases "rd32 d (p + 8)")
      (auto simp: handlePLI_def rtcp_lookup_def rtcp_key_def rtcp_found_def Let_def cong: option.case_cong split: option.split)
  moreover have "\<not> rtcpIsPLI d p (length d - p) \<Longrightarrow> rtcpIsNACK d p (length d - p) \<Longrightarrow>
      handleNACK lib d p n a s = rtcp_lookup d p n s \<bind> case_option (Some s) (\<lambda>c. rtcp_found lib d p n c s)"
    by (cases "rd32 d (p + 8)"; cases "rd16 d (p + 12)"; cases "rd16 d (p + 14)")
      (auto simp: handleNACK_def rtcp_lookup_def rtcp_key_def rtcp_found_def Let_def cong: option.case_cong split: option.split)
  moreover have "\<not> rtcpIsPLI d p (length d - p) \<Longrightarrow> \<not> rtcpIsNACK d p (length d - p) \<Longrightarrow> rtcpIsRR d p (length d - p) \<Longrightarrow>
      handleRR lib d p n a s = rtcp_lookup d p n s \<bind> case_option (Some s) (\<lambda>c. rtcp_found lib d p n c s)"
    by (cases "rd32 d (p + 4)")
      (auto simp: handleRR_def rtcp_lookup_def rtcp_key_def rtcp_found_def Let_def cong: option.case_cong split: option.split)
  moreover have "\<not> rtcpIsPLI d p (length d - p) \<Longrightarrow> \<not> rtcpIsNACK d p (length d - p) \<Longrightarrow> \<not> rtcpIsRR d p (length d - p) \<Longrightarrow>
      Some s = rtcp_lookup d p n s \<bind> case_option (Some s) (\<lambda>c. rtcp_found lib d p n c s)"
    by (simp add: rtcp_lookup_def rtcp_key_def Let_def)
  ultimately show ?thesis by (simp add: router_rtcp_case_def Let_def)
qed

text \<open>
  A turn. The pointers that \<open>getAllVideoProducers\<close> and \<open>rtp_targets\<close> have copied under the
  router's lock are followed one by one without it.
\<close>

fun rx_turn ::
  "('s, 'd) env \<Rightarrow> rx_task \<Rightarrow> ('s, 'd) server \<Rightarrow> (rx_task \<times> ('s, 'd) server) option" where
  "rx_turn e Rx_idle s = Some (Rx_idle, s)"
| "rx_turn e (Rx_packet data ep) s = rx_packet e data ep s"
| "rx_turn e (Rx_keyed a) s =
     (if \<not> pr_router s then Some (Rx_done, s)
      else do { rs \<leftarrow> getAllVideoProducers s; Some (Rx_pli a rs, s) })"
| "rx_turn e (Rx_pli a []) s = Some (Rx_done, s)"
| "rx_turn e (Rx_pli a (r # rs)) s = do { s1 \<leftarrow> pli_to_publisher (srtpL e) a r s; Some (Rx_pli a rs, s1) }"
| "rx_turn e (Rx_rtp pkt a) s = do {
     (targets, s1) \<leftarrow> rtp_targets (srtpL e) (g_videoPTs (statics s)) pkt a s;
     Some (Rx_forward pkt targets, s1)
   }"
| "rx_turn e (Rx_forward pkt []) s = Some (Rx_done, s)"
| "rx_turn e (Rx_forward pkt (c # cs)) s = do { s1 \<leftarrow> rtp_forward_one (srtpL e) pkt c s; Some (Rx_forward pkt cs, s1) }"
| "rx_turn e (Rx_rtcp d a p) s =
     (if p + 4 \<le> length d \<and> \<not> (rtcp_packetLen d p = 0 \<or> length d < p + rtcp_packetLen d p) then do {
        q \<leftarrow> rtcp_lookup d p (rtcp_packetLen d p) s;
        Some (case q of None \<Rightarrow> Rx_rtcp d a (p + rtcp_packetLen d p) | Some c \<Rightarrow> Rx_feedback d a p c, s)
      }
      else Some (Rx_done, s))"
| "rx_turn e (Rx_feedback d a p c) s = do {
     s1 \<leftarrow> rtcp_found (srtpL e) d p (rtcp_packetLen d p) c s;
     Some (Rx_rtcp d a (p + rtcp_packetLen d p), s1)
   }"
| "rx_turn e Rx_done s = Some (Rx_done, s)"

section \<open>All threads\<close>

text \<open>
  The state of the process: the shared state, the calls in progress, what the receive path is
  about to do. A peer that the receive path works for is in \<open>peerMap\<close>, from which nothing is
  ever taken out, so its local \<open>shared_ptr\<close> to it does not matter.
\<close>

record ('s, 'd) system =
  srv :: "('s, 'd) server"
  calls :: "task list"
  rx :: rx_task

datatype sys_event =
    New_call task
  | Call_step nat
  | Rx_datagram "u8 list" endpoint
  | Rx_fails
  | Rx_step

definition held_by_others :: "nat \<Rightarrow> task list \<Rightarrow> nat set" where
  "held_by_others i ts = \<Union> (holds ` set (take i ts @ drop (Suc i) ts))"

fun sys_step :: "('s, 'd) env \<Rightarrow> sys_event \<Rightarrow> ('s, 'd) system \<Rightarrow> ('s, 'd) system option" where
  "sys_step e (New_call t) S = Some (S\<lparr>calls := calls S @ [t]\<rparr>)"
| "sys_step e (Call_step i) S = do {
     (t, s) \<leftarrow> section_step e (held_by_others i (calls S)) (calls S ! i) (srv S);
     Some (S\<lparr>srv := s, calls := (calls S)[i := t]\<rparr>)
   }"
| "sys_step e (Rx_datagram d ep) S =
     Some (S\<lparr>srv := (srv S)\<lparr>receiving := False\<rparr>, rx := Rx_packet (take 65536 d) ep\<rparr>)"
| "sys_step e Rx_fails S = Some (S\<lparr>srv := (srv S)\<lparr>receiving := False\<rparr>\<rparr>)"
| "sys_step e Rx_step S = do {
     (x, s) \<leftarrow> rx_turn e (rx S) (srv S);
     Some (if x = Rx_done then S\<lparr>srv := startReceive s, rx := Rx_idle\<rparr> else S\<lparr>srv := s, rx := x\<rparr>)
   }"

text \<open>The peers that calls of \<open>AddPeer\<close> have stored and not yet registered, with their ids.\<close>

fun adding1 :: "task \<Rightarrow> (string \<times> nat) list" where
  "adding1 (Add_register k a) = [(k, a)]"
| "adding1 _ = []"

definition adding :: "task list \<Rightarrow> (string \<times> nat) list" where
  "adding ts = concat (map adding1 ts)"

fun is_call :: "task \<Rightarrow> bool" where
  "is_call (Add_call k) \<longleftrightarrow> True"
| "is_call (Sub_call sub pub v) \<longleftrightarrow> True"
| "is_call (Offer_call k sdp rms) \<longleftrightarrow> True"
| "is_call (Remove_call k) \<longleftrightarrow> True"
| "is_call _ \<longleftrightarrow> False"

text \<open>The receive path holds no pointers into the object graph.\<close>

fun between_packets :: "rx_task \<Rightarrow> bool" where
  "between_packets Rx_idle \<longleftrightarrow> True"
| "between_packets (Rx_packet d ep) \<longleftrightarrow> True"
| "between_packets _ \<longleftrightarrow> False"

text \<open>
  What a section of a call needs: the id of a new peer is free, a removal meets neither a packet nor a
  subscription of the same peer that is about to return.
\<close>

fun section_ok :: "task \<Rightarrow> task list \<Rightarrow> ('s, 'd) system \<Rightarrow> bool" where
  "section_ok (Add_call k) others S \<longleftrightarrow> k \<notin> fst ` set (pendingPeers (srv S)) \<union> fst ` set (adding others)"
| "section_ok (Remove_found a) others S \<longleftrightarrow> between_packets (rx S) \<and> a \<notin> fst ` \<Union> (returns ` set others)"
| "section_ok _ others S \<longleftrightarrow> True"

text \<open>What a packet must not be: RTP with the SSRC 0, a receiver report in the name of the server.\<close>

fun turn_ok :: "rx_task \<Rightarrow> ('s, 'd) server \<Rightarrow> bool" where
  "turn_ok (Rx_rtp pkt a) s \<longleftrightarrow> plain_ok (Plain_rtp pkt) s"
| "turn_ok (Rx_rtcp pkt a p) s \<longleftrightarrow> plain_ok (Plain_rtcp pkt) s"
| "turn_ok Rx_idle s \<longleftrightarrow> False"
| "turn_ok _ s \<longleftrightarrow> True"

fun sys_possible :: "sys_event \<Rightarrow> ('s, 'd) system \<Rightarrow> bool" where
  "sys_possible (New_call t) S \<longleftrightarrow> is_call t"
| "sys_possible (Call_step i) S \<longleftrightarrow> i < length (calls S) \<and>
     section_ok (calls S ! i) (take i (calls S) @ drop (Suc i) (calls S)) S"
| "sys_possible (Rx_datagram d ep) S \<longleftrightarrow> rx S = Rx_idle \<and> receiving (srv S) \<and> length d \<le> 65507"
| "sys_possible Rx_fails S \<longleftrightarrow> rx S = Rx_idle \<and> receiving (srv S)"
| "sys_possible Rx_step S \<longleftrightarrow> turn_ok (rx S) (srv S)"

section \<open>Alone on the machine\<close>

text \<open>A call that no other thread interrupts: its sections one after the other.\<close>

fun task_rank :: "task \<Rightarrow> nat" where
  "task_rank (Answered r) = 0"
| "task_rank (Add_call k) = 2"
| "task_rank (Add_register k a) = 1"
| "task_rank (Sub_call sub pub v) = 4"
| "task_rank (Sub_found q pub v) = 3"
| "task_rank (Sub_ready a b v) = 2"
| "task_rank (Sub_linked a b c) = 1"
| "task_rank (Offer_call k sdp rms) = length rms + 3"
| "task_rank (Offer_bind p a rms m sdp) = length rms + 2"
| "task_rank (Offer_answer p q m sdp) = 1"
| "task_rank (Remove_call k) = 2"
| "task_rank (Remove_found a) = 1"

text \<open>\<open>n\<close> sections of a call; \<open>task_rank\<close> of them complete it.\<close>

fun sections_alone :: "nat \<Rightarrow> ('s, 'd) env \<Rightarrow> task \<Rightarrow> ('s, 'd) server \<Rightarrow> (task \<times> ('s, 'd) server) option" where
  "sections_alone 0 e t s = Some (t, s)"
| "sections_alone (Suc n) e t s = do { (t1, s1) \<leftarrow> section_step e {} t s; sections_alone n e t1 s1 }"

definition call_alone :: "('s, 'd) env \<Rightarrow> task \<Rightarrow> ('s, 'd) server \<Rightarrow> (task \<times> ('s, 'd) server) option" where
  "call_alone e t s = sections_alone (task_rank t) e t s"

fun rx_turns :: "nat \<Rightarrow> ('s, 'd) env \<Rightarrow> rx_task \<Rightarrow> ('s, 'd) server \<Rightarrow> (rx_task \<times> ('s, 'd) server) option" where
  "rx_turns 0 e x s = Some (x, s)"
| "rx_turns (Suc n) e x s = do { (x1, s1) \<leftarrow> rx_turn e x s; rx_turns n e x1 s1 }"

text \<open>Every section makes progress.\<close>

lemma section_rank:
  "section_step e H t s = Some (t', s') \<Longrightarrow> task_rank t' < task_rank t \<or> (\<exists>r. t = Answered r \<and> t' = t)"
  by (cases t) (auto simp: add_store_def add_register_def sub_lookup_def sub_subscribe_def sub_return_def offer_lookup_def
      offer_bind_next_def offer_finish_def remove_lookup_def remove_detach_def Let_def Option.bind_eq_Some_conv
      split: option.splits if_splits list.splits prod.splits)

end
