(* ===== verification/Machine.thy ===== *)
theory Machine
  imports Prelude
begin

text \<open>
  Machines driven by events, some of which are not expected in every state. \<open>reachable\<close>
  holds of the states that expected events lead to; the locale \<open>guarded_machine\<close> is the
  contract of a machine with an invariant: an expected event has a defined result and
  keeps the invariant. The client lemmas hold for each machine that meets it.
\<close>

inductive reachable :: "('e \<Rightarrow> 's \<Rightarrow> 's option) \<Rightarrow> ('e \<Rightarrow> 's \<Rightarrow> bool) \<Rightarrow> 's \<Rightarrow> 's \<Rightarrow> bool"
  for run ok s0 where
  start: "reachable run ok s0 s0"
| event: "reachable run ok s0 s \<Longrightarrow> ok ev s \<Longrightarrow> run ev s = Some t \<Longrightarrow> reachable run ok s0 t"

text \<open>Every event of the list is expected when it occurs.\<close>

fun expected :: "('e \<Rightarrow> 's \<Rightarrow> 's option) \<Rightarrow> ('e \<Rightarrow> 's \<Rightarrow> bool) \<Rightarrow> 'e list \<Rightarrow> 's \<Rightarrow> bool" where
  "expected run ok [] s \<longleftrightarrow> True"
| "expected run ok (ev # evs) s \<longleftrightarrow> ok ev s \<and> (\<forall>t. run ev s = Some t \<longrightarrow> expected run ok evs t)"

lemma reachable_trans:
  assumes "reachable run ok s0 s" "expected run ok evs s" "foldM run evs s = Some t"
  shows "reachable run ok s0 t"
  using assms
proof (induction evs arbitrary: s)
  case (Cons ev evs)
  then obtain s1 where "run ev s = Some s1" "foldM run evs s1 = Some t"
    by (auto simp: Option.bind_eq_Some_conv)
  moreover from this Cons.prems have "expected run ok evs s1" "ok ev s" by simp_all
  moreover have "reachable run ok s0 s1" by (rule reachable.event) fact+
  ultimately show ?case using Cons.IH by blast
qed simp

locale guarded_machine =
  fixes run :: "'e \<Rightarrow> 's \<Rightarrow> 's option" and ok :: "'e \<Rightarrow> 's \<Rightarrow> bool" and inv :: "'s \<Rightarrow> bool"
  assumes keeps: "inv s \<Longrightarrow> ok ev s \<Longrightarrow> runs (run ev s) inv"
begin

lemma reachable_inv: "reachable run ok s0 s \<Longrightarrow> inv s0 \<Longrightarrow> inv s"
proof (induction rule: reachable.induct)
  case (event s ev t)
  then have "runs (run ev s) inv" using keeps by blast
  then show ?case using event.hyps(3) by simp
qed

lemma progress: "reachable run ok s0 s \<Longrightarrow> inv s0 \<Longrightarrow> ok ev s \<Longrightarrow> runs (run ev s) inv"
  using reachable_inv keeps by blast

lemma list_runs: "inv s \<Longrightarrow> expected run ok evs s \<Longrightarrow> runs (foldM run evs s) inv"
proof (induction evs arbitrary: s)
  case (Cons ev evs)
  then obtain t where "run ev s = Some t" "inv t" using keeps by (fastforce simp: runs_def)
  with Cons show ?case by simp
qed simp

end

text \<open>
  A machine that implements an abstract one: each expected event is a step of the abstract
  machine between the abstractions of its states.
\<close>

fun abstract_run :: "('e \<Rightarrow> 'b \<Rightarrow> 'b \<Rightarrow> bool) \<Rightarrow> 'e list \<Rightarrow> 'b \<Rightarrow> 'b \<Rightarrow> bool" where
  "abstract_run step [] b b' \<longleftrightarrow> b' = b"
| "abstract_run step (ev # evs) b b' \<longleftrightarrow> (\<exists>b1. step ev b b1 \<and> abstract_run step evs b1 b')"

locale forward_simulation = guarded_machine run ok inv
  for run :: "'e \<Rightarrow> 's \<Rightarrow> 's option" and ok :: "'e \<Rightarrow> 's \<Rightarrow> bool" and inv :: "'s \<Rightarrow> bool" +
  fixes abs :: "'s \<Rightarrow> 'b" and step :: "'e \<Rightarrow> 'b \<Rightarrow> 'b \<Rightarrow> bool"
  assumes simulates: "inv s \<Longrightarrow> ok ev s \<Longrightarrow> run ev s = Some t \<Longrightarrow> step ev (abs s) (abs t)"
begin

lemma runs_simulated:
  "inv s \<Longrightarrow> expected run ok evs s \<Longrightarrow> runs (foldM run evs s) (\<lambda>t. inv t \<and> abstract_run step evs (abs s) (abs t))"
proof (induction evs arbitrary: s)
  case (Cons ev evs)
  then obtain t where t: "run ev s = Some t" "inv t" using keeps by (fastforce simp: runs_def)
  with Cons obtain u where "foldM run evs t = Some u" "inv u" "abstract_run step evs (abs t) (abs u)"
    by (fastforce simp: runs_def)
  moreover have "step ev (abs s) (abs t)" using Cons.prems t(1) by (intro simulates) simp_all
  ultimately show ?case using t(1) by auto
qed simp

text \<open>What every step of the abstract machine keeps holds of all reachable states of the other.\<close>

lemma reachable_abstract:
  assumes "reachable run ok s0 s" "inv s0" "P (abs s0)" "\<And>ev b c. P b \<Longrightarrow> step ev b c \<Longrightarrow> P c"
  shows "P (abs s)"
  using assms(1)
proof induction
  case (event s ev t)
  then show ?case using assms(2,4) simulates reachable_inv by blast
qed (rule assms(3))

end

text \<open>A preorder that every abstract step goes up is gone up by a run.\<close>

lemma abstract_run_mono:
  assumes "abstract_run step evs b c" "\<And>b. R b b" "\<And>b c d. R b c \<Longrightarrow> R c d \<Longrightarrow> R b d"
    and "\<And>ev b c. step ev b c \<Longrightarrow> R b c"
  shows "R b c"
  using assms(1)
proof (induction evs arbitrary: b)
  case (Cons ev evs)
  then obtain b1 where b1: "step ev b b1" "abstract_run step evs b1 c" by auto
  then show ?case using assms(3,4) Cons.IH [OF b1(2)] by blast
qed (simp add: assms(2))

end
