(* ===== verification/ThreadsInv.thy ===== *)
theory ThreadsInv
  imports Threads Machine
begin

text \<open>
  The invariant of the threaded server and its preservation by every step of every thread: the
  server's invariant, with the peers that calls are about to register counted as waiting, and
  the objects that threads refer to between their steps are alive.
\<close>

section \<open>Waiting peers in any order\<close>

lemma server_inv_perm:
  assumes "mset P = mset Q" "server_inv (s\<lparr>pendingPeers := P\<rparr>)"
  shows "server_inv (s\<lparr>pendingPeers := Q\<rparr>)"
proof -
  let ?s = "s\<lparr>pendingPeers := P\<rparr>" and ?t = "s\<lparr>pendingPeers := Q\<rparr>"
  have "router_inv ?t" by (rule same_graph_inv [where s = ?s]) (use assms(2) in \<open>simp_all add: same_graph_def server_inv_def\<close>)
  moreover have "maps_inv ?t"
  proof -
    have f: "mset (map fst P) = mset (map fst Q)" and o: "mset (owner_addrs ?s) = mset (owner_addrs ?t)"
      using assms(1) by (simp_all add: owner_addrs_def)
    have "maps_inv ?s" using assms(2) by (simp add: server_inv_def)
    then show ?thesis
      using mset_eq_imp_distinct_iff [OF f] mset_eq_imp_distinct_iff [OF o] mset_eq_setD [OF o]
      unfolding maps_inv_def by (elim conjE, intro conjI) simp_all
  qed
  moreover have "ids_inv ?t"
    using assms(2) mset_eq_setD [OF assms(1)]
    by (simp add: server_inv_def ids_inv_def pending_ok_def bound_ok_def registered_ok_def)
  ultimately show ?thesis using assms(2) by (simp add: server_inv_def)
qed

lemma also_waiting_perm:
  assumes "server_inv (also_waiting I s)" "t = s\<lparr>pendingPeers := P\<rparr>" "mset (pendingPeers s @ I) = mset (P @ J)"
  shows "server_inv (also_waiting J t)"
proof -
  have "also_waiting I s = s\<lparr>pendingPeers := pendingPeers s @ I\<rparr>" "also_waiting J t = s\<lparr>pendingPeers := P @ J\<rparr>"
    by (simp_all add: also_waiting_def assms(2))
  then show ?thesis using server_inv_perm [OF assms(3), of s] assms(1) by simp
qed

section \<open>Steps of the router\<close>

lemma also_waiting_nil [simp]: "also_waiting [] s = s"
  by (simp add: also_waiting_def)

lemma more_also_waiting:
  fixes s t :: "('s, 'd) server"
  assumes "sfu.more t = sfu.more s"
  shows "sfu.more (also_waiting I t) = sfu.more (also_waiting I s)"
  using assms by (cases s; cases t; simp add: also_waiting_def)

lemma frame_also_waiting:
  fixes s t :: "('s, 'd) server"
  assumes "frame A s t"
  shows "frame A (also_waiting I s) (also_waiting I t)"
  using assms more_also_waiting [of t s I] by (simp add: frame_def)

lemma router_inv_also [simp]: "router_inv (also_waiting I s) = router_inv s"
proof -
  have "same_graph s (also_waiting I s)" "same_graph (also_waiting I s) s"
    by (simp_all add: same_graph_def also_waiting_def)
  then show ?thesis using same_graph_inv by blast
qed

lemma also_router_inv: "server_inv (also_waiting I s) \<Longrightarrow> router_inv s"
  by (simp add: server_inv_def)

lemma frame_also_inv:
  assumes "frame A s t" "server_inv (also_waiting I s)" "router_inv t"
    and "A \<inter> (snd ` set (pendingPeers s) \<union> snd ` set I) = {}"
  shows "server_inv (also_waiting I t)"
  by (rule frame_server_inv [OF frame_also_waiting [OF assms(1)] assms(2)])
    (use assms(3,4) in \<open>auto simp: image_Un\<close>)

text \<open>The objects there are, and the endpoints that have a peer, stay.\<close>

definition grows :: "('s, 'd) server \<Rightarrow> ('s, 'd) server \<Rightarrow> bool" where
  "grows s t \<longleftrightarrow> dom (peers s) \<subseteq> dom (peers t) \<and> dom (prods s) \<subseteq> dom (prods t) \<and>
     dom (conss s) \<subseteq> dom (conss t) \<and> set (peerMap s) \<subseteq> set (peerMap t)"

lemma grows_refl [simp]: "grows s s"
  by (simp add: grows_def)

text \<open>The consumers stay, and stay those of their subscribers, except those of the peers in \<open>D\<close>.\<close>

definition keeps_subs :: "nat set \<Rightarrow> ('s, 'd) server \<Rightarrow> ('s, 'd) server \<Rightarrow> bool" where
  "keeps_subs D s t \<longleftrightarrow> (\<forall>c cc a. conss s c = Some cc \<longrightarrow> c_subscriber cc = Some a \<longrightarrow> a \<notin> D \<longrightarrow>
     map_option c_subscriber (conss t c) = Some (Some a))"

lemma keeps_subs_same [simp]: "conss t = conss s \<Longrightarrow> keeps_subs D s t"
  by (simp add: keeps_subs_def)

lemma keeps_subs_trans:
  assumes "keeps_subs D s t" "keeps_subs D t u"
  shows "keeps_subs D s u"
  unfolding keeps_subs_def
proof (intro allI impI)
  fix c cc a assume c: "conss s c = Some cc" "c_subscriber cc = Some a" "a \<notin> D"
  then obtain cc' where "conss t c = Some cc'" "c_subscriber cc' = Some a"
    using assms(1) unfolding keeps_subs_def by fastforce
  then show "map_option c_subscriber (conss u c) = Some (Some a)"
    using assms(2) c(3) unfolding keeps_subs_def by blast
qed

text \<open>New consumers besides the old ones.\<close>

definition same_cons :: "('s, 'd) server \<Rightarrow> ('s, 'd) server \<Rightarrow> bool" where
  "same_cons s t \<longleftrightarrow> (\<forall>c cc. conss s c = Some cc \<longrightarrow> conss t c = Some cc)"

lemma same_cons_subs: "same_cons s t \<Longrightarrow> keeps_subs D s t"
  by (simp add: same_cons_def keeps_subs_def)

lemma keeps_subs_reach:
  assumes "same_reach s t"
  shows "keeps_subs D s t"
  unfolding keeps_subs_def
proof (intro allI impI)
  fix c cc a assume c: "conss s c = Some cc" "c_subscriber cc = Some a"
  then obtain cc' where "conss t c = Some cc'" "cons_reach cc' = cons_reach cc"
    using assms by (metis (no_types, lifting) map_option_eq_Some same_reach_def option.simps(9))
  then show "map_option c_subscriber (conss t c) = Some (Some a)" using c(2) by (simp add: cons_reach_def)
qed

lemma same_graph_subs:
  assumes "same_graph s t"
  shows "keeps_subs D s t"
  unfolding keeps_subs_def
proof (intro allI impI)
  fix c cc a assume c: "conss s c = Some cc" "c_subscriber cc = Some a"
  obtain cc' where "conss t c = Some cc'" "cons_shape cc' = cons_shape cc"
    using same_graph_cons [OF same_graph_sym [OF assms] c(1)] by blast
  then show "map_option c_subscriber (conss t c) = Some (Some a)" using c(2) by (simp add: cons_shape_def)
qed

lemma removePeer_subs:
  assumes inv: "router_inv s" and p: "peers s a = Some p"
  shows "keeps_subs {a} s (removed a p s)"
  unfolding keeps_subs_def
proof (intro allI impI)
  fix c cc b assume c: "conss s c = Some cc" "c_subscriber cc = Some b" "b \<notin> {a}"
  have "c \<notin> set (consumers p)" using inv_peersD(4) [OF inv p, of c] c by auto
  then show "map_option c_subscriber (conss (removed a p s) c) = Some (Some b)"
    using c(1,2) by (simp add: removed_def detached_def)
qed

lemma graph_step_grows:
  fixes s t :: "('s, 'd) server"
  assumes "graph_step s t"
  shows "grows s t"
proof -
  have g: "same_graph s t" and f: "frame {} s t" using assms by (simp_all add: graph_step_def)
  have "conss t c \<noteq> None" if "conss s c \<noteq> None" for c using that same_graph_None(2) [OF g] by simp
  then show ?thesis using frame_dom [OF f] frame_eqs(1) [OF f] g by (auto simp: grows_def same_graph_def)
qed

lemma graph_step_subs: "graph_step s t \<Longrightarrow> keeps_subs D s t"
  by (simp add: graph_step_def same_graph_subs)

lemma graph_step_also_inv:
  fixes s t :: "('s, 'd) server"
  assumes "graph_step s t" "server_inv (also_waiting I s)"
  shows "server_inv (also_waiting I t)"
proof -
  have g: "same_graph s t" "frame {} s t" using assms(1) by (simp_all add: graph_step_def)
  then have "router_inv t" using same_graph_inv also_router_inv [OF assms(2)] by blast
  then show ?thesis by (rule frame_also_inv [OF g(2) assms(2)]) simp
qed

section \<open>Sections of calls\<close>

text \<open>A local reference is never the last one.\<close>

lemma drop_ref_kept:
  assumes inv: "server_inv (also_waiting I s)" and "snd ` set I \<subseteq> H" "set_option q \<subseteq> dom (peers s)"
  shows "drop_ref H q s = s"
proof (cases q)
  case (Some a)
  have "a \<in> set (owner_addrs (also_waiting I s))"
    using inv assms(3) Some by (auto simp: server_inv_def maps_inv_def)
  then have "a \<in> H \<or> owned a s" using assms(2) by (auto simp: owner_addrs_def owned_def)
  then show ?thesis by (auto simp: Some drop_ref_def release_def)
qed (simp add: drop_ref_def)

lemma drop_refs_kept:
  assumes "server_inv (also_waiting I s)" "snd ` set I \<subseteq> H" "set_option q \<union> set_option r \<subseteq> dom (peers s)"
  shows "drop_refs H q r s = s"
proof -
  have "drop_ref (set_option q \<union> H) r s = s" by (rule drop_ref_kept [OF assms(1)]) (use assms in blast)+
  moreover have "drop_ref H q s = s" by (rule drop_ref_kept [OF assms(1)]) (use assms in blast)+
  ultimately show ?thesis by (simp add: drop_refs_def)
qed

text \<open>What a section of a call must establish, for the other calls' waiting peers \<open>I\<close>.\<close>

definition refs_ok :: "task \<Rightarrow> ('s, 'd) server \<Rightarrow> bool" where
  "refs_ok t s \<longleftrightarrow> holds t \<subseteq> dom (peers s) \<and>
     (\<forall>(a, c) \<in> returns t. map_option c_subscriber (conss s c) = Some (Some a))"

lemma refs_ok_plain [simp]: "returns t = {} \<Longrightarrow> refs_ok t s \<longleftrightarrow> holds t \<subseteq> dom (peers s)"
  by (simp add: refs_ok_def)

lemma refs_ok_keeps:
  assumes "refs_ok t s" "dom (peers s) \<subseteq> dom (peers s')" "keeps_subs D s s'" "fst ` returns t \<inter> D = {}"
  shows "refs_ok t s'"
  using assms by (cases t) (auto simp: refs_ok_def keeps_subs_def)

definition section_post ::
  "(string \<times> nat) list \<Rightarrow> nat set \<Rightarrow> ('s, 'd) server \<Rightarrow> task \<times> ('s, 'd) server \<Rightarrow> bool" where
  "section_post I D s r \<longleftrightarrow> server_inv (also_waiting (I @ adding1 (fst r)) (snd r)) \<and>
     refs_ok (fst r) (snd r) \<and> dom (peers s) \<subseteq> dom (peers (snd r)) \<and>
     (D = {} \<longrightarrow> grows s (snd r)) \<and> keeps_subs D s (snd r)"

text \<open>The peers whose objects a section destroys.\<close>

fun detaches :: "task \<Rightarrow> nat set" where
  "detaches (Remove_found a) = {a}"
| "detaches _ = {}"

lemma add_store_post:
  assumes inv: "server_inv (also_waiting I s)" and H: "snd ` set I \<subseteq> H"
    and free: "k \<notin> fst ` set (pendingPeers s) \<union> fst ` set I"
  shows "section_post I {} s (add_store H k s)"
proof -
  let ?w = "also_waiting I s" and ?a = "nextAddr s"
  define t where "t = (alloc_peer (new_peer\<lparr>peerId := k\<rparr>) s)\<lparr>svcPeers := AList.update k ?a (svcPeers s)\<rparr>"
  have none: "map_of (pendingPeers ?w) k = None" using free by (simp add: map_of_eq_None_iff image_Un)
  have "added k ?w = with_new_peer k ?w" unfolding added_def Let_def none by simp
  then have w: "added k ?w = also_waiting (I @ [(k, ?a)]) t"
    using map_fst_update [OF none] by (simp add: with_new_peer_def t_def also_waiting_def alloc_peer_def)
  have it: "server_inv (also_waiting (I @ [(k, ?a)]) t)"
    unfolding w [symmetric] by (rule added_inv [OF inv]) (metis none option.distinct(1))
  have dom: "dom (peers t) = insert ?a (dom (peers s))" by (simp add: t_def alloc_peer_def)
  have "drop_ref H (map_of (svcPeers s) k) t = t"
  proof (cases "map_of (svcPeers s) k")
    case (Some b)
    have "peers ?w b \<noteq> None" using registered_live [OF inv, of k b] Some by (auto simp: findPeer_def)
    then have "b \<in> set (owner_addrs ?w)" using inv by (auto simp: server_inv_def maps_inv_def)
    then have "b \<in> H \<or> owned b t" using H by (auto simp: owner_addrs_def owned_def t_def alloc_peer_def)
    then show ?thesis by (auto simp: Some drop_ref_def release_def)
  qed (simp add: drop_ref_def)
  moreover have "svcPeers (alloc_peer (new_peer\<lparr>peerId := k\<rparr>) s) = svcPeers s" by (simp add: alloc_peer_def)
  ultimately have "add_store H k s = (Add_register k ?a, t)" by (simp add: add_store_def Let_def t_def)
  moreover have "grows s t" using dom by (auto simp: grows_def t_def alloc_peer_def)
  moreover have "conss t = conss s" by (simp add: t_def alloc_peer_def)
  ultimately show ?thesis using it dom by (auto simp: section_post_def)
qed

lemma add_register_post:
  assumes inv: "server_inv (also_waiting (I @ [(k, a)]) s)" and H: "snd ` set I \<subseteq> H"
  shows "runs (add_register e H a s) (section_post I {} s)"
proof -
  let ?w = "also_waiting (I @ [(k, a)]) s"
  have "(k, a) \<in> set (pendingPeers ?w)" by simp
  then obtain p where p: "peers s a = Some p" "peerId p = k"
    using ids_invD(1) [of ?w "(k, a)"] inv by (auto simp: server_inv_def)
  have "distinct (map fst (pendingPeers ?w))" and pkt: "svc_pktRouter s"
    using inv by (simp_all add: server_inv_def maps_inv_def)
  then have none: "map_of (pendingPeers s) k = None" by (auto simp: map_of_eq_None_iff)
  let ?t = "s\<lparr>pendingPeers := pendingPeers s @ [(k, a)]\<rparr>"
  have it: "server_inv (also_waiting I ?t)"
    by (rule also_waiting_perm [OF inv, where P = "pendingPeers s @ [(k, a)]"]) simp_all
  have "drop_ref H (Some a) ?t = ?t" by (auto simp: drop_ref_def release_def owned_def)
  then have "add_register e H a s = Some (Answered (Added (answer_add_peer e ?t)), ?t)"
    using none map_fst_update [OF none, of a] p pkt by (simp add: add_register_def drop_ref_def)
  then show ?thesis using it by (simp add: section_post_def grows_def)
qed

lemma sub_lookup_post:
  assumes inv: "server_inv (also_waiting I s)" and H: "snd ` set I \<subseteq> H" and q: "set_option q \<subseteq> dom (peers s)"
  shows "section_post I {} s (sub_lookup H q pub v s)"
proof -
  have r: "set_option (findPeer pub s) \<subseteq> dom (peers s)"
    using registered_live [OF inv, of pub] by (cases "findPeer pub s") (auto simp: findPeer_def)
  note kept = drop_refs_kept [OF inv H, of q "findPeer pub s"] q r
  show ?thesis
    using inv kept by (cases q; cases "findPeer pub s") (auto simp: sub_lookup_def section_post_def)
qed

lemma sub_subscribe_eq:
  assumes inv: "server_inv (also_waiting I s)" and ab: "{a, b} \<subseteq> dom (peers s)"
  obtains t cc where "sub_subscribe a b v s = Some (Sub_linked a b (nextAddr s), t)" "server_inv (also_waiting I t)"
    "frame {} s t" "grows s t" "same_cons s t" "conss t (nextAddr s) = Some cc" "c_subscriber cc = Some a"
    "c_publisher cc = Some b" "c_active cc"
proof -
  obtain p q where pq: "peers s a = Some p" "peers s b = Some q" using ab by auto
  note r = also_router_inv [OF inv]
  let ?out = "uniform_u32 0x40000000 0x7FFFFFFF (ssrcGen s (ssrcPos s))" and ?m = "matching_producer s b v"
  define t where "t = install_consumer a b v ?out ?m (source_ssrc s ?m) s"
  have run: "insert_consumer a b v s = Some (nextAddr s, t)"
    unfolding t_def by (rule insert_consumer_eq [OF r pq])
  have rt: "router_inv t" unfolding t_def by (rule install_consumer_inv [OF r pq]) simp
  note f = insert_consumer_frame [OF run, of "{}"]
  have it: "server_inv (also_waiting I t)" by (rule frame_also_inv [OF f inv rt]) simp
  have new: "conss s (nextAddr s) = None" using inv_freshD(3) [OF r, of "nextAddr s"] by simp
  have "dom (prods s) \<subseteq> dom (prods t)" by (auto simp: t_def install_consumer_def Let_def split: option.splits)
  moreover have cons: "conss t = (conss s)(nextAddr s \<mapsto> (new_consumer a b v ?out)\<lparr>c_publisherSsrc := source_ssrc s ?m\<rparr>)"
    by (simp add: t_def install_consumer_def Let_def)
  ultimately have "grows s t" using frame_dom [OF f] frame_eqs(1) [OF f] by (auto simp: grows_def)
  moreover have "same_cons s t" using cons new by (auto simp: same_cons_def)
  ultimately show ?thesis
    using that [OF _ it f, of "(new_consumer a b v ?out)\<lparr>c_publisherSsrc := source_ssrc s ?m\<rparr>"] run cons
    by (simp add: sub_subscribe_def new_consumer_def)
qed

lemma sub_subscribe_post:
  assumes inv: "server_inv (also_waiting I s)" and ab: "{a, b} \<subseteq> dom (peers s)"
  shows "runs (sub_subscribe a b v s) (section_post I {} s)"
proof -
  from sub_subscribe_eq [OF assms] obtain t cc where t: "sub_subscribe a b v s = Some (Sub_linked a b (nextAddr s), t)"
    "server_inv (also_waiting I t)" "frame {} s t" "grows s t" "same_cons s t" "conss t (nextAddr s) = Some cc"
    "c_subscriber cc = Some a" .
  then show ?thesis
    using ab frame_dom [OF t(3)] same_cons_subs [OF t(5)] by (simp add: section_post_def refs_ok_def)
qed

lemma sub_return_eq:
  assumes inv: "server_inv (also_waiting I s)" and H: "snd ` set I \<subseteq> H" and refs: "refs_ok (Sub_linked a b c) s"
  shows "\<exists>cc. conss s c = Some cc \<and> c_subscriber cc = Some a \<and>
    sub_return H a b c s = Some (Answered (Subscribed (Inr (c_rewrittenSsrc cc))), s)"
proof -
  obtain cc where cc: "conss s c = Some cc" "c_subscriber cc = Some a" using refs by (auto simp: refs_ok_def)
  have "drop_refs H (Some a) (Some b) s = s" by (rule drop_refs_kept [OF inv H]) (use refs in \<open>simp add: refs_ok_def\<close>)
  then show ?thesis using cc by (simp add: sub_return_def)
qed

lemma offer_bind_post:
  assumes inv: "server_inv (also_waiting I s)" and a: "a \<in> dom (peers s)"
  shows "runs (offer_bind_next p a rms m sdp s) (section_post I {} s)"
proof (cases rms)
  case Nil
  obtain pa where "peers s a = Some pa" using a by blast
  then show ?thesis
    using getAllBoundSsrcs_eq [OF also_router_inv [OF inv], of a pa] inv a
    by (simp add: Nil offer_bind_next_def section_post_def)
next
  case (Cons rm rest)
  obtain m' t where t: "bind_recv_mid a rm (m, s) = Some (m', t)" "graph_step s t"
    using bind_recv_mid_runs [of "(m, s)" a rm] also_router_inv [OF inv] a by (auto simp: runs_def)
  then show ?thesis
    using graph_step_also_inv [OF t(2) inv] graph_step_grows [OF t(2)] graph_step_subs [OF t(2)] a
    by (auto simp: Cons offer_bind_next_def section_post_def grows_def)
qed

lemma statics_also_inv:
  assumes "server_inv (also_waiting I s)"
  shows "server_inv (also_waiting I (s\<lparr>statics := g\<rparr>))"
  by (rule server_inv_ext [OF assms]) (simp_all add: same_graph_def also_waiting_def)

lemma offer_finish_post:
  assumes inv: "server_inv (also_waiting I s)" and H: "snd ` set I \<subseteq> H" and q: "set_option q \<subseteq> dom (peers s)"
  shows "section_post I {} s (offer_finish H p q m sdp s)"
proof -
  have "drop_ref H q (s\<lparr>statics := g\<rparr>) = s\<lparr>statics := g\<rparr>" for g
    by (rule drop_ref_kept [OF statics_also_inv [OF inv] H]) (use q in simp)
  then show ?thesis
    using statics_also_inv [OF inv] by (simp add: offer_finish_def section_post_def grows_def split: prod.split)
qed

lemma remove_lookup_post:
  assumes inv: "server_inv (also_waiting I s)"
  shows "section_post I {} s (remove_lookup k s)"
proof (cases "findPeer k s")
  case None
  then show ?thesis using inv by (simp add: remove_lookup_def section_post_def)
next
  case (Some a)
  have "peers s a \<noteq> None" using registered_live [OF inv, of k a] Some by (auto simp: findPeer_def)
  moreover have "also_waiting I (s\<lparr>svcPeers := AList.delete k (svcPeers s)\<rparr>) =
      (also_waiting I s)\<lparr>svcPeers := AList.delete k (svcPeers (also_waiting I s))\<rparr>" by (simp add: also_waiting_def)
  ultimately show ?thesis
    using unregister_inv [OF inv, of k] Some by (simp add: remove_lookup_def section_post_def grows_def dom_def)
qed

lemma remove_detach_post:
  assumes inv: "server_inv (also_waiting I s)" and H: "snd ` set I \<subseteq> H" and a: "a \<in> dom (peers s)"
  shows "runs (remove_detach H a s) (section_post I {a} s)"
proof -
  have "runs (if svc_router s then removePeer a s else Some s)
      (\<lambda>t. server_inv (also_waiting I t) \<and> dom (peers t) = dom (peers s) \<and> keeps_subs {a} s t)"
  proof (cases "svc_router s")
    case True
    obtain t where t: "removePeer a s = Some t" "router_inv t"
      using removePeer_runs [OF also_router_inv [OF inv], of a] a by (auto simp: runs_def)
    note f = removePeer_frame [OF t(1), of "{}"]
    have "server_inv (also_waiting I t)" by (rule frame_also_inv [OF f inv t(2)]) simp
    moreover have "keeps_subs {a} s t"
      using a t(1) removePeer_eq [OF also_router_inv [OF inv]] removePeer_subs [OF also_router_inv [OF inv]] by auto
    ultimately show ?thesis using True t(1) frame_dom [OF f] by simp
  qed (simp add: inv)
  then obtain t where t: "(if svc_router s then removePeer a s else Some s) = Some t"
    "server_inv (also_waiting I t)" "dom (peers t) = dom (peers s)" "keeps_subs {a} s t" by (auto simp: runs_def)
  have "drop_ref H (Some a) t = t" by (rule drop_ref_kept [OF t(2) H]) (use a t(3) in simp)
  then show ?thesis using t by (simp add: remove_detach_def section_post_def)
qed

text \<open>Every section of every call; only the last one of a removal destroys objects.\<close>

lemma section_runs:
  assumes inv: "server_inv (also_waiting (I @ adding1 t) s)" and H: "snd ` set I \<subseteq> H" and refs: "refs_ok t s"
    and free: "\<And>k. t = Add_call k \<Longrightarrow> k \<notin> fst ` set (pendingPeers s) \<union> fst ` set I"
  shows "runs (section_step e H t s) (section_post I (detaches t) s)"
proof (cases t)
  case (Add_call k)
  then show ?thesis using add_store_post [of I s H k] inv H free by simp
next
  case (Add_register k a)
  then show ?thesis using add_register_post [of I k a s H e] inv H by simp
next
  case (Sub_call sub pub v)
  then show ?thesis
    using inv registered_live [OF inv, of sub]
    by (cases "findPeer sub s") (auto simp: section_post_def findPeer_def)
next
  case (Offer_call k sdp rms)
  then show ?thesis
    using inv registered_live [OF inv, of k]
    by (cases "findPeer k s") (auto simp: section_post_def findPeer_def offer_lookup_def)
next
  case (Sub_found q pub v)
  then show ?thesis using sub_lookup_post [of I s H q pub v] inv H refs by simp
next
  case (Sub_ready a b v)
  then show ?thesis using sub_subscribe_post [of I s a b v] inv refs by (simp add: refs_ok_def)
next
  case (Sub_linked a b c)
  then show ?thesis
    using sub_return_eq [of I s H a b c] inv H refs
    by (fastforce simp: section_post_def refs_ok_def keeps_subs_same)
next
  case (Offer_bind p a rms m sdp)
  then show ?thesis using offer_bind_post [of I s a p rms m sdp] inv refs by simp
next
  case (Offer_answer p q m sdp)
  then show ?thesis using offer_finish_post [of I s H q p m sdp] inv H refs by simp
next
  case (Remove_call k)
  then show ?thesis using remove_lookup_post [of I s k] inv by simp
next
  case (Remove_found a)
  then show ?thesis using remove_detach_post [of I s H a] inv H refs by simp
next
  case (Answered r)
  then show ?thesis using inv by (simp add: section_post_def)
qed

section \<open>Turns of the receive path\<close>

text \<open>What the receive path relies on between its turns.\<close>

fun rx_ok :: "rx_task \<Rightarrow> ('s, 'd) server \<Rightarrow> bool" where
  "rx_ok (Rx_packet d ep) s \<longleftrightarrow> length d \<le> 65507"
| "rx_ok (Rx_pli a rs) s \<longleftrightarrow> set rs \<subseteq> dom (prods s)"
| "rx_ok (Rx_rtp pkt a) s \<longleftrightarrow> length pkt + 10 \<le> 65536 \<and> a \<in> snd ` set (peerMap s)"
| "rx_ok (Rx_forward pkt cs) s \<longleftrightarrow> length pkt + 10 \<le> 65536 \<and> set cs \<subseteq> dom (conss s)"
| "rx_ok (Rx_rtcp d a p) s \<longleftrightarrow> set (subpackets d p) \<subseteq> set (subpackets d 0)"
| "rx_ok (Rx_feedback d a p c) s \<longleftrightarrow> c \<in> dom (conss s) \<and>
     (rtcpIsPLI d p (length d - p) \<or> rtcpIsNACK d p (length d - p)) \<and>
     set (subpackets d (p + rtcp_packetLen d p)) \<subseteq> set (subpackets d 0)"
| "rx_ok _ s \<longleftrightarrow> True"

lemma rx_ok_grows: "rx_ok x s \<Longrightarrow> grows s t \<Longrightarrow> rx_ok x t"
  by (cases x; simp add: grows_def; blast)

lemma rx_ok_between: "between_packets x \<Longrightarrow> rx_ok x s = rx_ok x t"
  by (cases x) simp_all

definition turn_post :: "(string \<times> nat) list \<Rightarrow> ('s, 'd) server \<Rightarrow> rx_task \<times> ('s, 'd) server \<Rightarrow> bool" where
  "turn_post I s r \<longleftrightarrow> server_inv (also_waiting I (snd r)) \<and> rx_ok (fst r) (snd r) \<and>
     dom (peers s) \<subseteq> dom (peers (snd r)) \<and> keeps_subs {} s (snd r)"

lemma graph_step_turn:
  assumes "server_inv (also_waiting I s)" "graph_step s t" "rx_ok x t"
  shows "turn_post I s (x, t)"
  using graph_step_also_inv [OF assms(2,1)] graph_step_grows [OF assms(2)] graph_step_subs [OF assms(2)] assms(3)
  by (simp add: turn_post_def grows_def)

lemma also_session:
  "also_waiting I (s\<lparr>peers := P, sent := out\<rparr>) = (also_waiting I s)\<lparr>peers := P, sent := out\<rparr>"
  by (simp add: also_waiting_def)

lemma sent_peers:
  fixes s :: "('s, 'd) server"
  shows "s\<lparr>sent := out, peers := P\<rparr> = s\<lparr>peers := P, sent := out\<rparr>"
  by simp

lemma sent_also_inv:
  assumes "server_inv (also_waiting I s)"
  shows "server_inv (also_waiting I (s\<lparr>sent := out\<rparr>))"
  by (rule server_inv_ext [OF assms]) (simp_all add: same_graph_def also_waiting_def)

lemma rx_dtls_runs:
  assumes inv: "server_inv (also_waiting I s)"
  shows "runs (rx_dtls e data ep s) (turn_post I s)"
proof -
  obtain a s1 where s1: "getOrCreatePeer e ep s = Some (a, s1)" "server_inv (also_waiting I s1)"
    "(ep, a) \<in> set (peerMap s1)" "quiet s s1"
    using getOrCreatePeer_also [OF inv, of e ep] by (auto simp: runs_def)
  let ?w = "also_waiting I s1"
  have pm: "(ep, a) \<in> set (peerMap ?w)" using s1(3) by simp
  obtain p where p: "peers ?w a = Some p" "ready p"
    using ids_invD(2) [of ?w "(ep, a)"] s1(2) pm by (auto simp: server_inv_def)
  obtain c' out r where hp: "handlePacket (dtlsL e) data (session_of (dtlsL e) ep p) = (c', out, r)"
    by (cases "handlePacket (dtlsL e) data (session_of (dtlsL e) ep p)")
  have cb: "dtls_sendCb c' = Some ep"
    using handlePacket_callback [OF hp] session_of_callback [OF s1(2) pm p(1)] by simp
  have post: "turn_post I s (x, s1\<lparr>peers := (peers s1)(a \<mapsto> q), sent := sent s1 @ out\<rparr>)"
    if "producers q = producers p" "consumers q = consumers p" "peerId q = peerId p" "remoteEp q = remoteEp p"
      "dtls q = Some c'" "ready q" "x = Rx_done \<or> x = Rx_keyed a" for q x
    using store_session_inv [OF s1(2) pm p(1) that(1-5) cb that(6), of "sent s1 @ out"] s1(4) that(7)
    by (auto simp: turn_post_def also_session quiet_def)
  obtain ok c where init: "srtp_init (srtpL e) (exportSrtpKeys (dtlsL e) c') srtp_new = (ok, c)" by fastforce
  have "turn_post I s (Rx_done, s1\<lparr>peers := (peers s1)(a \<mapsto> p\<lparr>dtls := Some c'\<rparr>), sent := sent s1 @ out\<rparr>)"
    by (rule post) (use session_of_ready [OF p(2) _ hp] in \<open>simp_all add: ready_def\<close>)
  moreover have "turn_post I s (Rx_keyed a, s1\<lparr>peers := (peers s1)(a \<mapsto> p\<lparr>dtls := Some c', srtp := Some c\<rparr>), sent := sent s1 @ out\<rparr>)"
    if "handshakeDone c'"
    by (rule post) (use that in \<open>simp_all add: ready_def\<close>)
  ultimately show ?thesis
    using p(1) by (auto simp: rx_dtls_def s1(1) hp init Let_def modify_def sent_peers)
qed

lemma rx_srtp_runs:
  assumes inv: "server_inv (also_waiting I s)" and lib: "libsrtp_sizes (srtpL e)" and len: "length data \<le> 65507"
  shows "runs (rx_srtp e data ep s) (turn_post I s)"
proof -
  obtain a s1 where s1: "getOrCreatePeer e ep s = Some (a, s1)" "server_inv (also_waiting I s1)"
    "(ep, a) \<in> set (peerMap s1)" "quiet s s1"
    using getOrCreatePeer_also [OF inv, of e ep] by (auto simp: runs_def)
  have dom: "dom (peers s) \<subseteq> dom (peers s1)" and subs: "keeps_subs {} s s1" using s1(4) by (simp_all add: quiet_def)
  obtain p where p: "peers s1 a = Some p" using bound_live [OF s1(2), of ep a] s1(3) by auto
  show ?thesis
  proof (cases "srtp p")
    case None
    then show ?thesis using s1(2) dom subs by (simp add: rx_srtp_def s1(1) p turn_post_def)
  next
    case (Some ctx)
    have "length data \<le> 65536" using len by simp
    from decrypt_runs [OF lib this p Some] obtain pl s2 where
      d: "decrypt (srtpL e) data a ctx s1 = Some (pl, s2)" and g: "graph_step s1 s2"
      and pm: "peerMap s2 = peerMap s1"
      and fit: "case pl of Plain_rtp pkt \<Rightarrow> length pkt \<le> length data | _ \<Rightarrow> True"
      by (auto simp: runs_def)
    have a: "a \<in> snd ` set (peerMap s2)" using s1(3) pm by force
    have "dom (peers s) \<subseteq> dom (peers s2)" using dom graph_step_grows [OF g] by (auto simp: grows_def)
    moreover have "keeps_subs {} s s2" by (rule keeps_subs_trans [OF subs graph_step_subs [OF g]])
    ultimately show ?thesis
      using graph_step_also_inv [OF g s1(2)] a fit len
      by (cases pl) (auto simp: rx_srtp_def s1(1) p Some d turn_post_def)
  qed
qed

lemma subpackets_at:
  assumes "p + 4 \<le> length d" "p + rtcp_packetLen d p \<le> length d"
  shows "subpackets d p = (p, rtcp_packetLen d p) # subpackets d (p + rtcp_packetLen d p)"
  using assms by (subst subpackets.simps) simp

lemma rtcp_lookup_runs:
  assumes inv: "router_inv s"
    and rr: "d ! (p + 1) = 201 \<Longrightarrow> 8 \<le> n \<Longrightarrow> outSsrcToConsumer s (at32 d (p + 4)) = None"
  shows "runs (rtcp_lookup d p n s) (\<lambda>q. case q of None \<Rightarrow> True | Some c \<Rightarrow> conss s c \<noteq> None \<and>
    (rtcpIsPLI d p (length d - p) \<or> rtcpIsNACK d p (length d - p)))"
proof -
  have live: "conss s c \<noteq> None" if "findConsumerByOutSsrc k s = Some c" for k c
    using inv_outD [OF inv, of k c] that by (auto simp: findConsumerByOutSsrc_def)
  consider "rtcpIsPLI d p (length d - p)" | "\<not> rtcpIsPLI d p (length d - p)" "rtcpIsNACK d p (length d - p)"
    | "\<not> rtcpIsPLI d p (length d - p)" "\<not> rtcpIsNACK d p (length d - p)" by blast
  then show ?thesis
  proof cases
    case 1
    then have "p + 12 \<le> length d" by (auto simp: rtcpIsPLI_def)
    then show ?thesis using 1 live by (auto simp: rtcp_lookup_def rtcp_key_def rd32_def split: option.split)
  next
    case 2
    then have "p + 16 \<le> length d" by (auto simp: rtcpIsNACK_def)
    then show ?thesis using 2 live by (auto simp: rtcp_lookup_def rtcp_key_def rd32_def rd16_def split: option.split)
  next
    case 3
    show ?thesis
    proof (cases "rtcpIsRR d p (length d - p) \<and> 8 \<le> n")
      case True
      then have "p + 8 \<le> length d" "outSsrcToConsumer s (at32 d (p + 4)) = None"
        using rr by (auto simp: rtcpIsRR_def)
      then show ?thesis using 3 True
        by (simp add: rtcp_lookup_def rtcp_key_def rd32_def findConsumerByOutSsrc_def)
    qed (use 3 in \<open>auto simp: rtcp_lookup_def rtcp_key_def\<close>)
  qed
qed

lemma rtcp_found_runs:
  fixes s :: "('s, 'd) server"
  assumes inv: "router_inv s" and lib: "libsrtp_sizes lib" and c: "conss s c \<noteq> None"
    and kind: "rtcpIsPLI d p (length d - p) \<or> rtcpIsNACK d p (length d - p)"
  shows "runs (rtcp_found lib d p n c s) (graph_step s)"
proof -
  obtain cc where cc: "conss s c = Some cc" using c by blast
  show ?thesis
  proof (cases "c_publisher cc")
    case None
    then show ?thesis by (simp add: rtcp_found_def cc)
  next
    case (Some q)
    have send: "runs (sendProtectedRtcp lib 64 pkt q s \<bind> (\<lambda>(b, u). Some u)) (graph_step s)" if "length pkt + 14 \<le> 64" for pkt
    proof -
      note run = forward_feedback_runs [OF inv lib that Some cc]
      obtain b u where u: "sendProtectedRtcp lib 64 pkt q s = Some (b, u)" "same_graph s u"
        using run by (auto simp: runs_def)
      show ?thesis using u sendProtectedRtcp_frame [OF u(1), of "{}"] by (simp add: graph_step_def)
    qed
    show ?thesis
    proof (cases "rtcpIsPLI d p (length d - p)")
      case True
      then show ?thesis using send [of "pli_bytes 0 (c_publisherSsrc cc)"] Some by (simp add: rtcp_found_def cc)
    next
      case False
      then have nack: "rtcpIsNACK d p (length d - p)" using kind by simp
      then have "p + 16 \<le> length d" by (auto simp: rtcpIsNACK_def)
      then show ?thesis
        using send [of "nack_bytes 0 (c_publisherSsrc cc) pid blp" for pid blp] False nack Some
        by (simp add: rtcp_found_def cc rd16_def Let_def)
    qed
  qed
qed

text \<open>Every turn of the receive path.\<close>

lemma turn_runs:
  assumes inv: "server_inv (also_waiting I s)" and lib: "libsrtp_sizes (srtpL e)"
    and rx: "rx_ok x s" and ok: "turn_ok x s"
  shows "runs (rx_turn e x s) (turn_post I s)"
proof (cases x)
  case (Rx_packet d ep)
  show ?thesis
    using inv sent_also_inv [OF inv] rx_dtls_runs [OF inv, of e d ep] rx_srtp_runs [OF inv lib, of d ep] rx Rx_packet
    by (auto simp: rx_packet_def handleStun_def turn_post_def split: protocol.split option.split)
next
  case (Rx_keyed a)
  then show ?thesis
    using inv getAllVideoProducers_runs [OF also_router_inv [OF inv]]
    by (fastforce simp: turn_post_def runs_def)
next
  case (Rx_pli a rs)
  show ?thesis
  proof (cases rs)
    case Nil
    then show ?thesis using inv Rx_pli by (simp add: turn_post_def)
  next
    case (Cons r rs')
    have "prods s r \<noteq> None" using rx Rx_pli Cons by auto
    then obtain t where t: "pli_to_publisher (srtpL e) a r s = Some t" "graph_step s t"
      using pli_to_publisher_runs [OF also_router_inv [OF inv] lib] by (auto simp: runs_def)
    have "rx_ok (Rx_pli a rs') t" using rx Rx_pli Cons graph_step_grows [OF t(2)] by (simp add: grows_def) blast
    then show ?thesis using t(1) Rx_pli Cons graph_step_turn [OF inv t(2)] by simp
  qed
next
  case (Rx_forward pkt cs)
  show ?thesis
  proof (cases cs)
    case Nil
    then show ?thesis using inv Rx_forward by (simp add: turn_post_def)
  next
    case (Cons c cs')
    have "conss s c \<noteq> None" "length pkt + 10 \<le> 65536" using rx Rx_forward Cons by auto
    then obtain t where t: "rtp_forward_one (srtpL e) pkt c s = Some t" "forwarded [c] s t"
      using rtp_forward_one_runs [OF also_router_inv [OF inv] lib] by (fastforce simp: runs_def)
    then have g: "graph_step s t"
      using rtp_forward_one_frame [OF t(1), of "{}"] by (simp add: graph_step_def forwarded_def)
    have "rx_ok (Rx_forward pkt cs') t" using rx Rx_forward Cons graph_step_grows [OF g] by (simp add: grows_def) blast
    then show ?thesis using t(1) Rx_forward Cons graph_step_turn [OF inv g] by simp
  qed
next
  case (Rx_rtcp d a p)
  let ?n = "rtcp_packetLen d p"
  show ?thesis
  proof (cases "p + 4 \<le> length d \<and> p + ?n \<le> length d")
    case True
    then have sub: "subpackets d p = (p, ?n) # subpackets d (p + ?n)" by (simp add: subpackets_at)
    then have "(p, ?n) \<in> set (subpackets d 0)" "set (subpackets d (p + ?n)) \<subseteq> set (subpackets d 0)"
      using rx Rx_rtcp by auto
    moreover from this have "outSsrcToConsumer s (at32 d (p + 4)) = None" if "d ! (p + 1) = 201" "8 \<le> ?n"
      using ok Rx_rtcp that by (fastforce simp: plain_ok_def no_report_forwarded_def)
    ultimately show ?thesis
      using rtcp_lookup_runs [OF also_router_inv [OF inv], of d p ?n] True inv Rx_rtcp
      by (auto simp: runs_def turn_post_def split: option.split)
  next
    case False
    then show ?thesis using Rx_rtcp inv by (auto simp: turn_post_def)
  qed
next
  case (Rx_feedback d a p c)
  have "conss s c \<noteq> None" "rtcpIsPLI d p (length d - p) \<or> rtcpIsNACK d p (length d - p)"
    "set (subpackets d (p + rtcp_packetLen d p)) \<subseteq> set (subpackets d 0)" using rx Rx_feedback by auto
  moreover from rtcp_found_runs [OF also_router_inv [OF inv] lib this(1,2), of "rtcp_packetLen d p"]
  obtain t where t: "rtcp_found (srtpL e) d p (rtcp_packetLen d p) c s = Some t" "graph_step s t"
    by (auto simp: runs_def)
  ultimately show ?thesis using Rx_feedback graph_step_turn [OF inv t(2)] by simp
next
  case (Rx_rtp pkt a)
  show ?thesis
  proof (cases "rtp_parse pkt")
    case None
    then show ?thesis using inv Rx_rtp rx by (simp add: rtp_targets_def turn_post_def)
  next
    case (Some hdr)
    obtain ep where ep: "(ep, a) \<in> set (peerMap (also_waiting I s))" using rx Rx_rtp by auto
    obtain p where p: "peers s a = Some p" using bound_live [OF inv ep] by auto
    have "h_ssrc hdr \<noteq> 0" using ok Rx_rtp Some by (simp add: plain_ok_def)
    from rtp_targets_inv [OF also_router_inv [OF inv] lib p Some this, of "g_videoPTs (statics s)"]
    obtain ts t where t: "rtp_targets (srtpL e) (g_videoPTs (statics s)) pkt a s = Some (ts, t)" "router_inv t"
      "\<forall>c \<in> set ts. conss t c \<noteq> None" "same_reach s t"
      by (auto simp: runs_def)
    note f = rtp_targets_frame [OF t(1)]
    have "server_inv (also_waiting I t)"
      by (rule frame_also_inv [OF f inv t(2)]) (use bound_not_pending [OF inv ep] in \<open>simp add: image_Un\<close>)
    then show ?thesis
      using t(1,3) keeps_subs_reach [OF t(4)] rx Rx_rtp frame_dom [OF f] by (auto simp: turn_post_def)
  qed
qed (use inv in \<open>simp_all add: turn_post_def\<close>)

section \<open>The threaded server\<close>

text \<open>
  The peers of calls in progress count as waiting, and what a thread refers to is alive.
\<close>

definition sys_inv :: "('s, 'd) system \<Rightarrow> bool" where
  "sys_inv S \<longleftrightarrow> server_inv (also_waiting (adding (calls S)) (srv S)) \<and>
     (\<forall>t \<in> set (calls S). refs_ok t (srv S)) \<and> rx_ok (rx S) (srv S)"

definition sys_ok :: "('s, 'd) env \<Rightarrow> sys_event \<Rightarrow> ('s, 'd) system \<Rightarrow> bool" where
  "sys_ok e ev S \<longleftrightarrow> libsrtp_sizes (srtpL e) \<and> sys_possible ev S"

lemma adding_simps [simp]:
  "adding [] = []" "adding (t # ts) = adding1 t @ adding ts" "adding (ts @ us) = adding ts @ adding us"
  by (simp_all add: adding_def)

lemma adding_held: "snd ` set (adding ts) \<subseteq> \<Union> (holds ` set ts)"
proof (induction ts)
  case (Cons t ts)
  moreover have "snd ` set (adding1 t) \<subseteq> holds t" by (cases t) simp_all
  ultimately show ?case by auto
qed simp

lemma receiving_also_inv:
  assumes "server_inv (also_waiting I s)"
  shows "server_inv (also_waiting I (s\<lparr>receiving := b\<rparr>))"
  by (rule server_inv_ext [OF assms]) (simp_all add: same_graph_def also_waiting_def)

lemma adding_split:
  assumes "i < length ts"
  shows "mset (adding ts) = mset (adding (take i ts @ drop (Suc i) ts) @ adding1 (ts ! i))"
    and "set ts = insert (ts ! i) (set (take i ts @ drop (Suc i) ts))"
proof -
  have ts: "take i ts @ ts ! i # drop (Suc i) ts = ts" by (rule id_take_nth_drop [OF assms, symmetric])
  have "mset (adding (us @ x # vs)) = mset (adding (us @ vs) @ adding1 x)"
    "set (us @ x # vs) = insert x (set (us @ vs))" for us x vs by simp_all
  from this [of "take i ts" "ts ! i" "drop (Suc i) ts"]
  show "mset (adding ts) = mset (adding (take i ts @ drop (Suc i) ts) @ adding1 (ts ! i))"
    "set ts = insert (ts ! i) (set (take i ts @ drop (Suc i) ts))" unfolding ts by blast+
qed

lemma waiting_perm:
  assumes "server_inv (also_waiting I s)" "mset I = mset J"
  shows "server_inv (also_waiting J s)"
  by (rule also_waiting_perm [OF assms(1), where P = "pendingPeers s"]) (use assms(2) in simp_all)

text \<open>The invariant, seen from the call \<open>i\<close>.\<close>

lemma others_waiting:
  assumes inv: "server_inv (also_waiting (adding ts) s)" and i: "i < length ts"
  shows "server_inv (also_waiting (adding (take i ts @ drop (Suc i) ts) @ adding1 (ts ! i)) s)"
    and "snd ` set (adding (take i ts @ drop (Suc i) ts)) \<subseteq> held_by_others i ts"
  using inv waiting_perm [OF _ adding_split(1) [OF i]] adding_held
  unfolding held_by_others_def by blast+

lemma held_by_othersI:
  assumes "x \<in> holds (ts ! i)" "i < length ts" "i \<noteq> j"
  shows "x \<in> held_by_others j ts"
proof -
  have "ts ! i \<in> set (take j ts @ drop (Suc j) ts)"
  proof (cases "i < j")
    case True
    then show ?thesis using assms(2) by (auto simp: in_set_conv_nth intro!: exI [of _ i])
  next
    case False
    then have "drop (Suc j) ts ! (i - Suc j) = ts ! i" "i - Suc j < length (drop (Suc j) ts)" using assms(2,3) by simp_all
    then show ?thesis by (metis UnCI nth_mem set_append)
  qed
  then show ?thesis using assms(1) unfolding held_by_others_def by blast
qed

lemma adding_update: "adding1 t = adding1 (ts ! i) \<Longrightarrow> adding (ts[i := t]) = adding ts"
  using list_update_id [of "map adding1 ts" i] by (cases "i < length ts") (simp_all add: adding_def map_update list_update_beyond)

lemma call_step_runs:
  assumes inv: "sys_inv S" and ok: "sys_possible (Call_step i) S"
  shows "runs (sys_step e (Call_step i) S) sys_inv"
proof -
  define t where "t = calls S ! i"
  define others where "others = take i (calls S) @ drop (Suc i) (calls S)"
  have i: "i < length (calls S)" and sok: "section_ok t others S" using ok by (simp_all add: t_def others_def)
  have set: "set (calls S) = insert t (set others)"
    using adding_split(2) [OF i] by (simp add: t_def others_def)
  have waiting: "server_inv (also_waiting (adding (calls S)) (srv S))" using inv by (simp add: sys_inv_def)
  note wait = others_waiting(1) [OF waiting i, folded others_def t_def]
    and H = others_waiting(2) [OF waiting i, folded others_def]
  have refs: "refs_ok x (srv S)" if "x \<in> insert t (set others)" for x
    using inv set that by (auto simp: sys_inv_def)
  then have "refs_ok t (srv S)" by simp
  moreover have "k \<notin> fst ` set (pendingPeers (srv S)) \<union> fst ` set (adding others)" if "t = Add_call k" for k
    using sok that by simp
  ultimately have "runs (section_step e (held_by_others i (calls S)) t (srv S))
      (section_post (adding others) (detaches t) (srv S))"
    by (rule section_runs [OF wait H])
  then obtain t' s' where
    run: "section_step e (held_by_others i (calls S)) t (srv S) = Some (t', s')"
    and post: "section_post (adding others) (detaches t) (srv S) (t', s')"
    by (auto simp: runs_def)
  define cs where "cs = (calls S)[i := t']"
  have cs: "i < length cs" "cs ! i = t'" "take i cs @ drop (Suc i) cs = others" using i by (simp_all add: cs_def others_def)
  have order: "mset (adding others @ adding1 t') = mset (adding cs)" using adding_split(1) [OF cs(1)] unfolding cs ..
  have "server_inv (also_waiting (adding others @ adding1 t') s')" using post by (simp add: section_post_def)
  then have "server_inv (also_waiting (adding cs) s')" by (rule waiting_perm [OF _ order])
  moreover have "refs_ok x s'" if "x \<in> set cs" for x
  proof -
    have "set cs = insert t' (set others)" using adding_split(2) [OF cs(1)] unfolding cs .
    with that have "x \<in> insert t' (set others)" by (rule subst [rotated])
    then consider "x = t'" | "x \<in> set others" by (elim insertE)
    then show ?thesis
    proof cases
      case 1
      then show ?thesis using post by (simp add: section_post_def)
    next
      case 2
      have "fst ` returns x \<inter> detaches t = {}" using sok 2 by (cases t) auto
      then show ?thesis
        using refs_ok_keeps [OF refs, of x s' "detaches t"] 2 post by (simp add: section_post_def)
    qed
  qed
  moreover have "rx_ok (rx S) s'"
  proof (cases "\<exists>a. t = Remove_found a")
    case True
    then show ?thesis using sok inv rx_ok_between [of "rx S" s' "srv S"] by (auto simp: sys_inv_def)
  next
    case False
    then have "detaches t = {}" by (cases t) simp_all
    then show ?thesis using post inv rx_ok_grows [of "rx S" "srv S" s'] by (simp add: sys_inv_def section_post_def)
  qed
  ultimately show ?thesis using run by (simp add: t_def sys_inv_def cs_def)
qed

lemma sys_step_runs:
  assumes inv: "sys_inv S" and ok: "sys_ok e ev S"
  shows "runs (sys_step e ev S) sys_inv"
proof (cases ev)
  case (New_call t)
  then have "adding1 t = [] \<and> holds t = {} \<and> returns t = {}" using ok by (cases t) (simp_all add: sys_ok_def)
  then show ?thesis using inv New_call by (auto simp: sys_inv_def)
next
  case (Call_step i)
  then show ?thesis using call_step_runs [OF inv] ok by (simp add: sys_ok_def)
next
  case (Rx_datagram d ep)
  have "server_inv (also_waiting (adding (calls S)) ((srv S)\<lparr>receiving := False\<rparr>))"
    by (rule receiving_also_inv) (use inv in \<open>simp add: sys_inv_def\<close>)
  then show ?thesis using inv Rx_datagram ok by (simp add: sys_inv_def sys_ok_def refs_ok_def)
next
  case Rx_fails
  have "server_inv (also_waiting (adding (calls S)) ((srv S)\<lparr>receiving := False\<rparr>))"
    by (rule receiving_also_inv) (use inv in \<open>simp add: sys_inv_def\<close>)
  then show ?thesis using inv Rx_fails ok by (simp add: sys_inv_def sys_ok_def refs_ok_def)
next
  case Rx_step
  have s: "server_inv (also_waiting (adding (calls S)) (srv S))" "rx_ok (rx S) (srv S)"
    and refs: "\<forall>t \<in> set (calls S). refs_ok t (srv S)" using inv by (simp_all add: sys_inv_def)
  obtain x s' where run: "rx_turn e (rx S) (srv S) = Some (x, s')" "turn_post (adding (calls S)) (srv S) (x, s')"
    using turn_runs [OF s(1) _ s(2), of e] ok Rx_step by (fastforce simp: sys_ok_def runs_def)
  have i: "server_inv (also_waiting (adding (calls S)) s')" "rx_ok x s'"
    and subs: "dom (peers (srv S)) \<subseteq> dom (peers s')" "keeps_subs {} (srv S) s'"
    using run(2) by (simp_all add: turn_post_def)
  have "\<forall>t \<in> set (calls S). refs_ok t s'" using refs refs_ok_keeps [OF _ subs] by blast
  then show ?thesis using run(1) Rx_step i receiving_also_inv [OF i(1), of True]
    by (simp add: sys_inv_def startReceive_def refs_ok_def)
qed

interpretation sfu_threads: guarded_machine "sys_step e" "sys_ok e" sys_inv for e
  by unfold_locales (rule sys_step_runs)

end
