(* ===== verification/ThreadsAlone.thy ===== *)
theory ThreadsAlone
  imports Threads
begin

text \<open>
  The steps of \<open>Threads\<close> are those of the program: a call whose sections run without
  interruption is the call of \<open>Service\<close>, and the turns for a datagram are \<open>onPacket\<close>.
\<close>

section \<open>Registered peers keep what is found\<close>

lemma owned_registered: "(k, a) \<in> set (svcPeers s) \<Longrightarrow> owned a s"
  by (force simp: owned_def)

lemma release_registered: "(k, a) \<in> set (svcPeers s) \<Longrightarrow> release (Some a) s = s"
  using owned_registered by (simp add: release_def) blast

lemma svcPeers_release [simp]: "svcPeers (release q s) = svcPeers s"
  by (simp add: release_def destroy_peer_def split: option.split)

lemma drop_refs_registered:
  assumes "(k, a) \<in> set (svcPeers s)" "(l, b) \<in> set (svcPeers s)"
  shows "drop_refs {} (Some a) (Some b) s = s"
  using release_registered [OF assms(1)] release_registered [OF assms(2)]
  by (simp add: drop_refs_def drop_ref_def)

lemma findPeer_in: "findPeer k s = Some a \<Longrightarrow> (k, a) \<in> set (svcPeers s)"
  by (simp add: findPeer_def map_of_SomeD)

lemma in_alist_update: "(k, v) \<in> set (AList.update k v xs)"
  by (induction xs) auto

section \<open>Calls\<close>

lemma sections_answered [simp]: "sections_alone n e (Answered r) s = Some (Answered r, s)"
  by (induction n) simp_all

lemma add_alone:
  "call_alone e (Add_call k) s = map_option (map_prod (Answered \<circ> Added) id) (AddPeer e k s)"
proof -
  let ?a = "nextAddr s"
  let ?s1 = "alloc_peer (new_peer\<lparr>peerId := k\<rparr>) s"
  define s2 where "s2 = release (map_of (svcPeers ?s1) k) (?s1\<lparr>svcPeers := AList.update k ?a (svcPeers ?s1)\<rparr>)"
  have "svcPeers ?s1 = svcPeers s" by (simp add: alloc_peer_def)
  then have reg: "(k, ?a) \<in> set (svcPeers s2)" by (simp add: s2_def in_alist_update)
  have "svcPeers s3 = svcPeers s2" if "pkt_registerPeer ?a s2 = Some s3" for s3
    using that by (auto simp: pkt_registerPeer_def Option.bind_eq_Some_conv)
  then have rel: "release (Some ?a) s3 = s3" if "pkt_registerPeer ?a s2 = Some s3" for s3
    using reg that by (simp add: release_registered [of k ?a])
  have rel2: "release (Some ?a) s2 = s2" by (rule release_registered [OF reg])
  show ?thesis
    by (cases "pkt_registerPeer ?a s2"; cases "svc_pktRouter s2")
      (use rel rel2 in \<open>auto simp: call_alone_def add_store_def add_register_def AddPeer_def answer_add_peer_def
        s2_def [symmetric] pkt_registerPeer_def Let_def eval_nat_numeral Option.bind_eq_Some_conv split: Option.bind_splits\<close>)
qed

lemma subscribe_alone:
  "call_alone e (Sub_call sub pub v) s = map_option (map_prod (Answered \<circ> Subscribed) id) (AddConsumer sub pub v s)"
proof (cases "findPeer sub s"; cases "findPeer pub s")
  fix a b
  assume f: "findPeer sub s = Some a" "findPeer pub s = Some b"
  note reg = findPeer_in [OF f(1)] findPeer_in [OF f(2)]
  have "drop_refs {} (Some a) (Some b) t = t" if "addConsumer a b v s = Some (k, t)" for k t
    by (rule drop_refs_registered) (use reg frame_eqs(6) [OF addConsumer_frame [OF that, of "{}"]] in simp_all)
  then show ?thesis
    using drop_refs_registered [OF reg] f
    by (cases "addConsumer a b v s")
      (auto simp: call_alone_def sub_lookup_def sub_subscribe_def sub_return_def AddConsumer_def addConsumer_def eval_nat_numeral
        split: Option.bind_splits)
qed (auto simp: call_alone_def sub_lookup_def AddConsumer_def eval_nat_numeral drop_refs_def drop_ref_def
    release_registered [OF findPeer_in] split: option.split)

lemma remove_alone:
  "call_alone e (Remove_call k) s = map_option (map_prod (Answered \<circ> Removed) id) (RemovePeer k s)"
  by (auto simp: call_alone_def remove_lookup_def remove_detach_def RemovePeer_def eval_nat_numeral Let_def
      split: option.split Option.bind_splits)

lemma bind_recv_mid_svcPeers: "bind_recv_mid a rm x = Some y \<Longrightarrow> svcPeers (snd y) = svcPeers (snd x)"
  by (auto simp: bind_recv_mid_def Option.bind_eq_Some_conv frame_eqs(6) [OF bindConsumerByMid_frame])

lemma bind_recv_mids_svcPeers: "foldM (bind_recv_mid a) rms x = Some y \<Longrightarrow> svcPeers (snd y) = svcPeers (snd x)"
proof (induction rms arbitrary: x)
  case (Cons rm rms)
  then show ?case by (auto simp: Option.bind_eq_Some_conv dest: bind_recv_mid_svcPeers)
qed simp

lemma offer_bind_alone:
  "sections_alone (length rms + 2) e (Offer_bind p a rms m sdp) s =
     do { (m1, s1) \<leftarrow> foldM (bind_recv_mid a) rms (m, s);
          bound \<leftarrow> getAllBoundSsrcs a s1;
          Some (offer_finish {} p (Some a) (m1 ++ bound) sdp s1) }"
proof (induction rms arbitrary: m s)
  case Nil
  then show ?case by (cases "getAllBoundSsrcs a s") (simp_all add: offer_bind_next_def eval_nat_numeral split: prod.split)
next
  case (Cons rm rms)
  show ?case
    using Cons.IH by (cases "bind_recv_mid a rm (m, s)") (auto simp: offer_bind_next_def)
qed

lemma offer_finish_registered:
  assumes "findPeer k s = Some a" "svcPeers t = svcPeers s"
  shows "offer_finish {} p (Some a) m sdp t = (let (r, g) = generateAnswer sdp (setMidSsrcMap m p) (statics t)
    in (Answered (Answer (map_sum id fst r)), t\<lparr>statics := g\<rparr>))"
  using findPeer_in [OF assms(1)] assms(2)
  by (auto simp: offer_finish_def Let_def split: prod.split intro!: release_registered)

lemma offer_alone:
  "call_alone e (Offer_call k sdp rms) s = map_option (map_prod (Answered \<circ> Answer) id) (SendOffer e k sdp rms s)"
proof (cases "findPeer k s")
  case None
  then show ?thesis
    by (simp add: call_alone_def offer_lookup_def eval_nat_numeral offer_finish_def drop_ref_def SendOffer_def
        offer_bindings_def release_def split: prod.split)
next
  case (Some a)
  note fin = offer_finish_registered [OF Some]
  show ?thesis
  proof (cases "svc_router s")
    case False
    then show ?thesis
      using Some fin [of s]
      by (simp add: call_alone_def offer_lookup_def eval_nat_numeral SendOffer_def offer_bindings_def split: prod.split)
  next
    case True
    have "call_alone e (Offer_call k sdp rms) s = sections_alone (length rms + 2) e (Offer_bind (offer_parser e s) a rms Map.empty sdp) s"
      using Some True by (simp add: call_alone_def offer_lookup_def eval_nat_numeral)
    then show ?thesis
      using fin bind_recv_mids_svcPeers [of a rms "(Map.empty, s)"] Some True
      unfolding offer_bind_alone
      by (fastforce simp: SendOffer_def offer_bindings_def split: Option.bind_splits prod.splits)
  qed
qed

section \<open>The receive path\<close>

text \<open>Enough turns complete the work with the result \<open>r\<close>; \<^const>\<open>None\<close> is undefined behaviour.\<close>

definition completes :: "('s, 'd) env \<Rightarrow> rx_task \<Rightarrow> ('s, 'd) server \<Rightarrow> ('s, 'd) server option \<Rightarrow> bool" where
  "completes e x s r \<longleftrightarrow> (\<exists>n. rx_turns n e x s = map_option (Pair Rx_done) r)"

lemma completes_done: "completes e Rx_done s (Some s)"
  unfolding completes_def by (rule exI [of _ 0]) simp

lemma completes_turn:
  assumes "case rx_turn e x s of None \<Rightarrow> r = None | Some (x', s') \<Rightarrow> completes e x' s' r"
  shows "completes e x s r"
proof (cases "rx_turn e x s")
  case None
  then show ?thesis using assms unfolding completes_def by (intro exI [of _ 1]) simp
next
  case (Some y)
  then obtain x' s' n where "rx_turn e x s = Some (x', s')" "rx_turns n e x' s' = map_option (Pair Rx_done) r"
    using assms by (cases y) (auto simp: completes_def)
  then show ?thesis unfolding completes_def by (intro exI [of _ "Suc n"]) simp
qed

lemma completes_pli: "completes e (Rx_pli a rs) s (foldM (pli_to_publisher (srtpL e) a) rs s)"
proof (induction rs arbitrary: s)
  case Nil
  show ?case by (rule completes_turn) (simp add: completes_done)
next
  case (Cons r rs)
  show ?case by (rule completes_turn) (cases "pli_to_publisher (srtpL e) a r s"; simp add: Cons.IH)
qed

lemma completes_keyed: "completes e (Rx_keyed a) s (sendPLItoAllPeers (srtpL e) a s)"
  by (rule completes_turn) (cases "getAllVideoProducers s"; simp add: sendPLItoAllPeers_def completes_done completes_pli)

lemma completes_forward: "completes e (Rx_forward pkt cs) s (rtp_forward (srtpL e) pkt cs s)"
  unfolding rtp_forward_def
proof (induction cs arbitrary: s)
  case Nil
  show ?case by (rule completes_turn) (simp add: completes_done)
next
  case (Cons c cs)
  show ?case by (rule completes_turn) (cases "rtp_forward_one (srtpL e) pkt c s"; simp add: Cons.IH)
qed

lemma completes_rtp: "completes e (Rx_rtp pkt a) s (onRtpPacket (srtpL e) (g_videoPTs (statics s)) pkt a s)"
  by (rule completes_turn)
    (cases "rtp_targets (srtpL e) (g_videoPTs (statics s)) pkt a s"; auto simp: onRtpPacket_def completes_forward)

lemma completes_feedback:
  assumes "\<And>t. rtcp_found (srtpL e) d p (rtcp_packetLen d p) c s = Some t \<Longrightarrow>
    completes e (Rx_rtcp d a (p + rtcp_packetLen d p)) t (f t)"
  shows "completes e (Rx_feedback d a p c) s (rtcp_found (srtpL e) d p (rtcp_packetLen d p) c s \<bind> f)"
  by (rule completes_turn) (use assms in \<open>simp split: Option.bind_split\<close>)

lemma completes_rtcp_loop:
  fixes s :: "('s, 'd) server"
  shows "completes e (Rx_rtcp d a p) s (router_rtcp_loop (srtpL e) a d p s)"
proof (induction "length d - p" arbitrary: p s rule: less_induct)
  case less
  let ?n = "rtcp_packetLen d p"
  show ?case
  proof (cases "p + 4 \<le> length d \<and> \<not> (?n = 0 \<or> length d < p + ?n)")
    case False
    then show ?thesis
      by (intro completes_turn) (subst router_rtcp_loop.simps, auto simp: completes_done)
  next
    case True
    then have "length d - (p + ?n) < length d - p" using rtcp_packetLen_pos(1) [of d p] by linarith
    note IH = less [OF this]
    have loop: "router_rtcp_loop (srtpL e) a d p s = rtcp_lookup d p ?n s \<bind> (\<lambda>q. (case q of None \<Rightarrow> Some s
        | Some c \<Rightarrow> rtcp_found (srtpL e) d p ?n c s) \<bind> router_rtcp_loop (srtpL e) a d (p + ?n))"
      using True by (subst router_rtcp_loop.simps) (simp add: router_rtcp_case_split)
    have found: "completes e (Rx_feedback d a p c) s
        (rtcp_found (srtpL e) d p ?n c s \<bind> router_rtcp_loop (srtpL e) a d (p + ?n))" for c
      by (rule completes_feedback) (rule IH)
    show ?thesis
      by (rule completes_turn)
        (use True in \<open>cases "rtcp_lookup d p ?n s"; auto simp: loop IH found split: option.split\<close>)
  qed
qed

lemma completes_rtcp: "completes e (Rx_rtcp pkt a 0) s (onRtcpPacket (srtpL e) pkt a s)"
  unfolding onRtcpPacket_def by (rule completes_rtcp_loop)

lemma rx_dtls_rest:
  "case rx_dtls e data ep s of None \<Rightarrow> handleDtls e data ep s = None
   | Some (x', s') \<Rightarrow> completes e x' s' (handleDtls e data ep s)"
  by (auto simp: rx_dtls_def handleDtls_def Let_def completes_done completes_keyed
      split: Option.bind_splits option.splits prod.splits)

lemma rx_srtp_rest:
  "case rx_srtp e data ep s of None \<Rightarrow> handleSrtp e data ep s = None
   | Some (x', s') \<Rightarrow> completes e x' s' (handleSrtp e data ep s)"
  by (auto simp: rx_srtp_def handleSrtp_def dispatch_def Let_def completes_done completes_rtp completes_rtcp
      split: Option.bind_splits option.splits prod.splits plain.splits)

lemma completes_packet: "completes e (Rx_packet data ep) s (onPacket e data ep s)"
proof (rule completes_turn)
  show "case rx_turn e (Rx_packet data ep) s of None \<Rightarrow> onPacket e data ep s = None
    | Some (x', s') \<Rightarrow> completes e x' s' (onPacket e data ep s)"
    using rx_dtls_rest [of e data ep s] rx_srtp_rest [of e data ep s]
    by (cases "classify data") (auto simp: rx_packet_def onPacket_def completes_done split: option.splits prod.splits)
qed

text \<open>
  The fine-grained model and the coarse one agree: the sections of a call that is not
  interrupted have the result and the effect of the call, undefined behaviour included, and
  enough turns of the receive path those of \<open>onPacket\<close>.
\<close>

lemma uninterrupted_is_atomic:
  "call_alone e (Add_call k) s = map_option (map_prod (Answered \<circ> Added) id) (AddPeer e k s) \<and>
   call_alone e (Sub_call sub pub v) s = map_option (map_prod (Answered \<circ> Subscribed) id) (AddConsumer sub pub v s) \<and>
   call_alone e (Offer_call k sdp rms) s = map_option (map_prod (Answered \<circ> Answer) id) (SendOffer e k sdp rms s) \<and>
   call_alone e (Remove_call k) s = map_option (map_prod (Answered \<circ> Removed) id) (RemovePeer k s) \<and>
   (\<exists>n. rx_turns n e (Rx_packet data ep) s = map_option (Pair Rx_done) (onPacket e data ep s))"
  by (intro conjI add_alone subscribe_alone offer_alone remove_alone completes_packet [unfolded completes_def])

end
