(* ===== verification/ServerEvents.thy ===== *)
theory ServerEvents
  imports ServerInv Machine
begin

text \<open>
  The server as a machine: its events are the completions of the receive loop and the calls
  of the signalling service, in any order. An event is expected if a participant that
  follows the protocols can cause it; for expected events the server never runs into
  undefined behaviour.
\<close>

datatype event =
    Datagram "u8 list" endpoint
  | Receive_error
  | Add_peer string
  | Send_offer string string "recv_mid list"
  | Add_consumer string string bool
  | Remove_consumer
  | Remove_peer string

text \<open>Without a pending receive nothing is received.\<close>

fun run_event :: "('s, 'd) env \<Rightarrow> event \<Rightarrow> ('s, 'd) server \<Rightarrow> ('s, 'd) server option" where
  "run_event e (Datagram d ep) s = (if receiving s then onReceive e False d ep s else Some s)"
| "run_event e Receive_error s =
     (if receiving s then onReceive e True [] \<lparr>ep_addr = 0, ep_port = 0\<rparr> s else Some s)"
| "run_event e (Add_peer k) s = map_option snd (AddPeer e k s)"
| "run_event e (Send_offer k sdp rms) s = map_option snd (SendOffer e k sdp rms s)"
| "run_event e (Add_consumer sub pub v) s = map_option snd (AddConsumer sub pub v s)"
| "run_event e Remove_consumer s = Some (snd (RemoveConsumer s))"
| "run_event e (Remove_peer k) s = map_option snd (RemovePeer k s)"

text \<open>
  Expected: a datagram of at most the size UDP allows, which does not decrypt to RTP with
  SSRC 0 or to a receiver report in the name of the server; and \<open>AddPeer\<close> with an id of
  which no peer waits for its endpoint, or only one that was never subscribed.
\<close>

fun event_ok :: "('s, 'd) env \<Rightarrow> event \<Rightarrow> ('s, 'd) server \<Rightarrow> bool" where
  "event_ok e (Datagram d ep) s \<longleftrightarrow>
     (receiving s \<longrightarrow> datagram_ok e (take 65536 d) ep (s\<lparr>receiving := False\<rparr>))"
| "event_ok e (Add_peer k) s \<longleftrightarrow>
     (case map_of (pendingPeers s) k of None \<Rightarrow> True | Some b \<Rightarrow> unused b s)"
| "event_ok e _ s \<longleftrightarrow> True"

definition admissible :: "('s, 'd) env \<Rightarrow> event \<Rightarrow> ('s, 'd) server \<Rightarrow> bool" where
  "admissible e ev s \<longleftrightarrow> libsrtp_sizes (srtpL e) \<and> event_ok e ev s"

lemma runs_map_snd: "runs m (\<lambda>(r, t). Q t) \<Longrightarrow> runs (map_option snd m) Q"
  by (cases m) auto

lemma run_event_runs:
  assumes inv: "server_inv s" and ok: "admissible e ev s"
  shows "runs (run_event e ev s) server_inv"
proof (cases ev)
  case (Datagram d ep)
  then show ?thesis
    using onReceive_runs [OF inv, of e False d ep] inv ok by (simp add: admissible_def)
next
  case Receive_error
  then show ?thesis
    using onReceive_runs [OF inv, of e True "[]" "\<lparr>ep_addr = 0, ep_port = 0\<rparr>"] inv ok
    by (simp add: admissible_def)
next
  case (Add_peer k)
  have "map_of (pendingPeers s) k = Some b \<Longrightarrow> unused b s" for b
    using ok Add_peer by (simp add: admissible_def)
  then show ?thesis using AddPeer_eq [OF inv, of e k] added_inv [OF inv, of k] Add_peer by simp
next
  case (Send_offer k sdp rms)
  then show ?thesis using SendOffer_runs [OF inv, of e k sdp rms] by (simp add: runs_map_snd)
next
  case (Add_consumer sub pub v)
  then show ?thesis using AddConsumer_runs [OF inv, of sub pub v] by (simp add: runs_map_snd)
next
  case Remove_consumer
  then show ?thesis using inv by (simp add: RemoveConsumer_def)
next
  case (Remove_peer k)
  have "runs (RemovePeer k s) (\<lambda>(r, t). server_inv t)"
    by (rule runs_mono [OF RemovePeer_runs [OF inv]]) auto
  then show ?thesis using Remove_peer by (simp add: runs_map_snd)
qed

interpretation sfu_server: guarded_machine "run_event e" "admissible e" server_inv for e
  by unfold_locales (rule run_event_runs)

end
