(* ===== verification/RouterZero.thy ===== *)
theory RouterZero
  imports RouterRtp RouterRemove
begin

text \<open>
  Producers with the SSRC 0, which the invariant of the router excludes. Such a producer is an addition
  to a state that has the invariant: forwarding and the removal of other peers do not see it,
  so they do to the rest of the state what they would do without it.
\<close>

section \<open>A state with one more producer\<close>

definition with_zero ::
  "nat \<Rightarrow> producer \<Rightarrow> nat \<Rightarrow> route_table \<Rightarrow> ('s, 'd, 'z) sfu_scheme \<Rightarrow> ('s, 'd, 'z) sfu_scheme" where
  "with_zero r pr a rt s =
     s\<lparr>prods := (prods s)(r \<mapsto> pr),
       peers := modify a (\<lambda>p. p\<lparr>producers := producers p @ [r]\<rparr>) (peers s), routes := rt\<rparr>"

lemma with_zero_simps [simp]:
  "conss (with_zero r pr a rt s) = conss s" "prods (with_zero r pr a rt s) = (prods s)(r \<mapsto> pr)"
  "peers (with_zero r pr a rt s) x =
     (if x = a then map_option (\<lambda>p. p\<lparr>producers := producers p @ [r]\<rparr>) (peers s x) else peers s x)"
  "sent (with_zero r pr a rt s) = sent s" "routes (with_zero r pr a rt s) = rt"
  by (simp_all add: with_zero_def)

section \<open>Forwarding\<close>

lemma with_zero_stored:
  "(with_zero r pr a rt s)\<lparr>conss := C, peers := modify b (\<lambda>x. x\<lparr>srtp := k\<rparr>) (peers (with_zero r pr a rt s))\<rparr> =
     with_zero r pr a rt (s\<lparr>conss := C, peers := modify b (\<lambda>x. x\<lparr>srtp := k\<rparr>) (peers s)\<rparr>)"
proof -
  have "map_option (\<lambda>x. x\<lparr>srtp := k\<rparr>) (map_option (\<lambda>p. p\<lparr>producers := producers p @ [r]\<rparr>) q) =
      map_option (\<lambda>p. p\<lparr>producers := producers p @ [r]\<rparr>) (map_option (\<lambda>x. x\<lparr>srtp := k\<rparr>) q)" for q
    by (cases q) simp_all
  then show ?thesis
    by (auto simp: with_zero_def fun_eq_iff simp del: map_option_case option.map_comp intro!: sfu.equality)
qed

lemma with_zero_sent:
  "(with_zero r pr a rt s)\<lparr>sent := out, conss := C\<rparr> = with_zero r pr a rt (s\<lparr>sent := out, conss := C\<rparr>)"
  by (simp add: with_zero_def)

lemma forward_with_zero:
  "rtp_forward_one lib pkt c (with_zero r pr a rt s) = map_option (with_zero r pr a rt) (rtp_forward_one lib pkt c s)"
proof (cases "conss s c")
  case (Some cc)
  show ?thesis
  proof (cases "c_subscriber cc \<bind> peers s")
    case None
    then show ?thesis by (cases "c_subscriber cc") (auto simp: rtp_forward_one_def Some)
  next
    case p: (Some p)
    then obtain b where b: "c_subscriber cc = Some b" "peers s b = Some p" by (auto simp: Option.bind_eq_Some_conv)
    let ?w = "with_zero r pr a rt s"
    obtain q where q: "peers ?w b = Some q" "srtp q = srtp p" "remoteEp q = remoteEp p"
      using b(2) by (cases "b = a") auto
    note simps = rtp_forward_one_def Some b q Let_def with_zero_stored with_zero_sent
    show ?thesis
    proof (cases "rewriteRtpHeader pkt cc")
      case None
      then show ?thesis by (cases "srtp p") (simp_all add: simps del: with_zero_simps(3))
    next
      case rw: (Some x)
      obtain out cc' where x: "x = (out, cc')" by (cases x)
      show ?thesis
      proof (cases "srtp p")
        case None
        then show ?thesis by (simp add: simps del: with_zero_simps(3))
      next
        case k: (Some ctx)
        show ?thesis
        proof (cases "protect lib 65536 out ctx")
          case None
          then show ?thesis by (simp add: simps rw x k del: with_zero_simps(3))
        next
          case pr: (Some y)
          obtain ctx' res where y: "y = (ctx', res)" by (cases y)
          show ?thesis by (cases res) (simp_all add: simps rw x k pr y del: with_zero_simps(3))
        qed
      qed
    qed
  qed
qed (simp add: rtp_forward_one_def)

lemma forward_all_with_zero:
  "rtp_forward lib pkt cs (with_zero r pr a rt s) = map_option (with_zero r pr a rt) (rtp_forward lib pkt cs s)"
  unfolding rtp_forward_def
proof (induction cs arbitrary: s)
  case (Cons c cs)
  show ?case by (cases "rtp_forward_one lib pkt c s") (simp_all add: forward_with_zero Cons.IH)
qed simp

section \<open>Removing another peer\<close>

lemma findM_extend:
  assumes "findM P xs = Some res" "\<And>x y. P x = Some y \<Longrightarrow> Q x = Some y"
    and "res = None \<Longrightarrow> findM Q ys = Some None"
  shows "findM Q (xs @ ys) = Some res"
  using assms(1,3)
proof (induction xs)
  case (Cons x xs)
  then obtain y where y: "P x = Some y" by (cases "P x") auto
  from assms(2) [OF this] y Cons show ?case by (cases y) auto
qed simp

lemma findM_found:
  assumes "findM P xs = Some (Some x)"
  shows "P x = Some True"
  using assms by (induction xs) (auto simp: Option.bind_eq_Some_conv split: if_splits)

text \<open>Step 2 does not find a producer with the SSRC 0.\<close>

lemma detach_consumer_with_zero:
  assumes run: "detach_consumer c s = Some t" and pr: "p_originalSsrc pr = 0" and r: "prods s r = None"
  shows "detach_consumer c (with_zero r pr a rt s) = Some (with_zero r pr a rt t) \<and> prods t r = None"
proof -
  obtain cc where cc: "conss s c = Some cc" using run by (cases "conss s c") (simp_all add: detach_consumer_def)
  show ?thesis
  proof (cases "c_publisher cc")
    case None
    then show ?thesis using run r by (auto simp: detach_consumer_def cc with_zero_def)
  next
    case (Some q)
    let ?P = "\<lambda>s r. prods s r \<bind> (\<lambda>p. Some (p_originalSsrc p = c_publisherSsrc cc \<and> p_originalSsrc p \<noteq> 0))"
    let ?w = "with_zero r pr a rt s"
    obtain pq where pq: "peers s q = Some pq" using run by (cases "peers s q") (simp_all add: detach_consumer_def cc Some)
    obtain found where f: "findM (?P s) (producers pq) = Some found"
      using run by (cases "findM (?P s) (producers pq)") (simp_all add: detach_consumer_def cc Some pq)
    obtain pw where pw: "peers ?w q = Some pw" "producers pw = producers pq @ (if q = a then [r] else [])"
      using pq by (cases "q = a") auto
    have "findM (?P ?w) (producers pw) = Some found"
      unfolding pw(2) by (rule findM_extend [OF f]) (use r pr in \<open>auto simp: Option.bind_eq_Some_conv split: if_splits\<close>)
    note run' = run pw(1) this
    show ?thesis
    proof (cases found)
      case None
      then show ?thesis using run' r by (auto simp: detach_consumer_def cc Some pq f with_zero_def simp del: with_zero_simps(3))
    next
      case x: (Some x)
      have "x \<noteq> r" using findM_found [OF f [unfolded x]] r by auto
      then have "modify x g ((prods s)(r \<mapsto> pr)) = (modify x g (prods s))(r \<mapsto> pr)" for g by (auto simp: fun_eq_iff)
      then show ?thesis
        using run' r x \<open>x \<noteq> r\<close>
        by (auto simp: detach_consumer_def cc Some pq f simp del: with_zero_simps(3)) (simp add: with_zero_def)
    qed
  qed
qed

lemma detach_consumers_with_zero:
  assumes "foldM detach_consumer cs s = Some t" "p_originalSsrc pr = 0" "prods s r = None"
  shows "foldM detach_consumer cs (with_zero r pr a rt s) = Some (with_zero r pr a rt t)"
  using assms(1,3)
proof (induction cs arbitrary: s)
  case (Cons c cs)
  then obtain u where u: "detach_consumer c s = Some u" "foldM detach_consumer cs u = Some t"
    by (auto simp: Option.bind_eq_Some_conv)
  from detach_consumer_with_zero [OF u(1) assms(2) Cons.prems(2), of a rt] Cons.IH [OF u(2)]
  show ?case by simp
qed simp

lemma with_zero_detached: "detached D (with_zero r pr a rt s) = with_zero r pr a rt (detached D s)"
  by (auto simp: detached_def with_zero_def out_ssrc_def fun_eq_iff intro!: sfu.equality)

lemma with_zero_unlisted:
  assumes "r \<notin> set rs" "b \<noteq> a"
  shows "(with_zero r pr a rt s)\<lparr>prods := free rs (prods (with_zero r pr a rt s)),
      peers := modify b f (peers (with_zero r pr a rt s))\<rparr> =
    with_zero r pr a rt (s\<lparr>prods := free rs (prods s), peers := modify b f (peers s)\<rparr>)"
  using assms by (auto simp: with_zero_def fun_eq_iff intro!: sfu.equality)

lemma with_zero_cleared:
  assumes "b \<noteq> a"
  shows "(with_zero r pr a rt s)\<lparr>conss := C, peers := modify b f (peers (with_zero r pr a rt s)), allPeers := A,
      routes := rt'\<rparr> = with_zero r pr a rt' (s\<lparr>conss := C, peers := modify b f (peers s), allPeers := A, routes := R\<rparr>)"
  using assms by (auto simp: with_zero_def fun_eq_iff intro!: sfu.equality)

lemma removePeer_with_zero:
  assumes inv: "router_inv s" and b: "peers s b = Some p" "b \<noteq> a"
    and pr: "p_originalSsrc pr = 0" and r: "prods s r = None"
  shows "removePeer b (with_zero r pr a rt s) = Some (with_zero r pr a (route_unbindPeer b rt) (removed b p s))"
proof -
  let ?w = "with_zero r pr a rt" and ?D = "detached (consumers_of s (producers p)) s"
  have rp: "r \<notin> set (producers p)" using inv_peersD(3) [OF inv b(1), of r] r by auto
  then have live: "prods (?w s) x = prods s x" if "x \<in> set (producers p)" for x using that by auto
  then have cons: "consumers_of (?w s) (producers p) = consumers_of s (producers p)" by (simp add: consumers_of_def)
  have step1: "foldM detach_producer (producers p) s = Some ?D"
    using inv_peersD(3) [OF inv b(1)] inv_prodsD(4) [OF inv] by (intro detach_producers) fastforce
  have "foldM detach_producer (producers p) (?w s) = Some (detached (consumers_of (?w s) (producers p)) (?w s))"
    using live inv_peersD(3) [OF inv b(1)] inv_prodsD(4) [OF inv] by (intro detach_producers) fastforce
  then have step1': "foldM detach_producer (producers p) (?w s) = Some (?w ?D)"
    unfolding cons with_zero_detached .
  define h where "h = ?D\<lparr>prods := free (producers p) (prods ?D), peers := modify b (\<lambda>p. p\<lparr>producers := []\<rparr>) (peers ?D)\<rparr>"
  obtain u where u: "foldM detach_consumer (consumers p) h = Some u"
    "removed b p s = u\<lparr>conss := free (consumers p) (conss u), peers := modify b (\<lambda>p. p\<lparr>consumers := []\<rparr>) (peers u),
       allPeers := removeAll b (allPeers u), routes := route_unbindPeer b (routes u)\<rparr>"
    using removePeer_eq [OF inv b(1)] unfolding removePeer_def b(1) step1 bind.bind_lunit Let_def h_def [symmetric]
    by (cases "foldM detach_consumer (consumers p) h") (simp_all add: eq_commute)
  have "prods h r = None" using r by (simp add: h_def)
  note step2 = detach_consumers_with_zero [where a = a and rt = rt, OF u(1) pr this]
  have p': "peers (?w s) b = Some p" using b by simp
  have rest: "allPeers (?w u) = allPeers u" by (simp add: with_zero_def)
  show ?thesis
    unfolding removePeer_def p' bind.bind_lunit Let_def step1' with_zero_unlisted [OF rp b(2)] h_def [symmetric] step2
      rest with_zero_simps(1,5) with_zero_cleared [OF b(2), where R = "route_unbindPeer b (routes u)"] u(2)
    by (simp add: rest)
qed

section \<open>The first packet with the SSRC 0\<close>

text \<open>A state that differs in the next address from one with the invariant.\<close>

lemma later_inv: "router_inv s \<Longrightarrow> router_inv (s\<lparr>nextAddr := Suc (nextAddr s)\<rparr>)"
  by (simp add: router_inv_def inv_defs)

lemma link_zero_conss:
  "map_option cons_shape (conss (with_producer a 0 v s) c) = map_option cons_shape (conss s c)"
  by (cases "conss s c") (auto simp: with_producer_def link_list_def waiting_def cons_shape_def)

lemma with_zero_of:
  assumes g: "same_graph (with_producer a 0 v s) t" and fresh: "prods s (nextAddr s) = None" and p: "peers s a \<noteq> None"
  shows "\<exists>s0. t = with_zero (nextAddr s) ((new_producer a 0 v)\<lparr>p_consumers := filter (waiting s a v) (all_consumers s)\<rparr>)
      a (routes t) s0 \<and> same_graph (s\<lparr>nextAddr := Suc (nextAddr s)\<rparr>) s0 \<and> conss s0 = conss t"
proof -
  let ?r = "nextAddr s" and ?pr = "(new_producer a 0 v)\<lparr>p_consumers := filter (waiting s a v) (all_consumers s)\<rparr>"
  define s0 where "s0 = t\<lparr>prods := prods s, peers := modify a (\<lambda>p. p\<lparr>producers := butlast (producers p)\<rparr>) (peers t), routes := routes s\<rparr>"
  have prods: "prods t = (prods s)(?r \<mapsto> ?pr)"
    using g by (simp add: same_graph_def fun_eq_iff with_producer_prods)
  have shape: "map_option peer_shape (peers t x) = map_option peer_shape (modify a (\<lambda>p. p\<lparr>producers := producers p @ [?r]\<rparr>) (peers s) x)" for x
    using g by (simp add: same_graph_def with_producer_def link_list_def create_producer_def)
  obtain pa where pa: "peers s a = Some pa" using p by blast
  obtain pt where pt: "peers t a = Some pt" "producers pt = producers pa @ [?r]" "consumers pt = consumers pa"
    using shape [of a] pa by (auto simp: peer_shape_def)
  have "t = with_zero ?r ?pr a (routes t) s0"
    using prods pt by (auto simp: with_zero_def s0_def fun_eq_iff intro!: sfu.equality)
  moreover have "same_graph (s\<lparr>nextAddr := Suc (nextAddr s)\<rparr>) s0"
    unfolding same_graph_def
  proof (intro conjI allI)
    show "map_option peer_shape (peers s0 x) = map_option peer_shape (peers (s\<lparr>nextAddr := Suc (nextAddr s)\<rparr>) x)" for x
      using shape [of x] pt pa by (cases "x = a") (simp_all add: s0_def peer_shape_def)
    show "map_option cons_shape (conss s0 c) = map_option cons_shape (conss (s\<lparr>nextAddr := Suc (nextAddr s)\<rparr>) c)" for c
      using g link_zero_conss [of a v s c] by (simp add: same_graph_def s0_def)
  qed (use g in \<open>simp_all add: same_graph_def s0_def with_producer_def link_list_def create_producer_def\<close>)
  ultimately show ?thesis by (auto simp: s0_def)
qed

lemma first_zero_packet:
  assumes inv: "router_inv s" and lib: "libsrtp_sizes lib" and p: "peers s a \<noteq> None"
    and pkt: "rtp_parse pkt = Some hdr" "h_ssrc hdr = 0" "length pkt + 10 \<le> 65536"
  shows "\<exists>rt u. router_inv u \<and> prods u (nextAddr s) = None \<and> same_graph (s\<lparr>nextAddr := Suc (nextAddr s)\<rparr>) u \<and>
    onRtpPacket lib vpts pkt a s = Some (with_zero (nextAddr s)
      ((new_producer a 0 (h_payloadType hdr \<in> vpts))\<lparr>p_consumers := filter (waiting s a (h_payloadType hdr \<in> vpts)) (all_consumers s)\<rparr>)
      a rt u)"
proof -
  let ?v = "h_payloadType hdr \<in> vpts" and ?cs = "filter (waiting s a (h_payloadType hdr \<in> vpts)) (all_consumers s)"
    and ?later = "s\<lparr>nextAddr := Suc (nextAddr s)\<rparr>"
  let ?pr = "(new_producer a 0 ?v)\<lparr>p_consumers := ?cs\<rparr>"
  have none: "p_originalSsrc pr \<noteq> 0" if "prods s r = Some pr" for r pr using inv_prodsD(1) [OF inv that] .
  obtain t where t: "rtp_targets lib vpts pkt a s = Some (?cs, t)" "same_graph (with_producer a 0 ?v s) t"
    using rtp_targets_runs [OF inv lib p pkt(1), of vpts] pkt(2) none by (fastforce simp: runs_def)
  have fresh: "prods s (nextAddr s) = None" using inv_freshD(2) [OF inv, of "nextAddr s"] by simp
  from with_zero_of [OF t(2) fresh p] obtain s0 where
    s0: "t = with_zero (nextAddr s) ?pr a (routes t) s0" "same_graph ?later s0" by blast
  have inv0: "router_inv s0" by (rule same_graph_inv [OF s0(2) later_inv [OF inv]])
  have "conss s0 c \<noteq> None" if "c \<in> set ?cs" for c
    using that same_graph_None(2) [OF s0(2), of c] all_consumers_live [OF inv, of c] by simp
  then obtain u where u: "rtp_forward lib pkt ?cs s0 = Some u" "same_graph s0 u"
    using rtp_forward_runs [OF inv0 lib pkt(3), of ?cs] by (auto simp: runs_def forwarded_def)
  have "onRtpPacket lib vpts pkt a s = Some (with_zero (nextAddr s) ?pr a (routes t) u)"
    using t(1) u(1) forward_all_with_zero [of lib pkt ?cs "nextAddr s" ?pr a "routes t" s0]
    unfolding s0(1) [symmetric] by (simp add: onRtpPacket_def)
  moreover have "same_graph ?later u" using s0(2) u(2) by (rule same_graph_trans)
  moreover from this have "prods u (nextAddr s) = None" using fresh by (simp add: same_graph_def)
  ultimately show ?thesis using same_graph_inv [OF u(2) inv0] by blast
qed

text \<open>A later packet finds the producer with the SSRC 0 and its consumers.\<close>

lemma next_zero_packet:
  assumes inv: "router_inv s" and p: "peers s a \<noteq> None" and pr: "p_originalSsrc pr = 0"
    and pkt: "rtp_parse pkt = Some hdr" "h_ssrc hdr = 0" and r: "prods s r = None"
  shows "rtp_targets lib vpts pkt a (with_zero r pr a rt s) = Some (p_consumers pr, with_zero r pr a rt s)"
proof -
  obtain pa where pa: "peers s a = Some pa" using p by blast
  have "findM (\<lambda>x. prods (with_zero r pr a rt s) x \<bind> (\<lambda>q. Some (p_originalSsrc q = 0))) (rs @ [r]) = Some (Some r)"
    if "set rs \<subseteq> set (producers pa)" for rs
    using that
  proof (induction rs)
    case (Cons x xs)
    then obtain q where "prods s x = Some q" using inv_peersD(3) [OF inv pa, of x] by auto
    with Cons r inv_prodsD(1) [OF inv this] show ?case by auto
  qed (simp add: pr)
  then show ?thesis using pa by (simp add: rtp_targets_def pkt findProducer_def)
qed

end
