(* ===== verification/RouterProps.thy ===== *)
theory RouterProps
  imports RouterZero RouterRtcp RouterBind
begin

text \<open>
  What the router guarantees: the properties of its operations, each with a concrete
  state in which it is applied, and the sequences of operations that break it.
\<close>

section \<open>A concrete router\<close>

definition sample_peer :: "u16 \<Rightarrow> (srtp_policy, unit) peer" where
  "sample_peer port = new_peer\<lparr>remoteEp := \<lparr>ep_addr = 0x7F000001, ep_port = port\<rparr>, srtp := Some zero_tag_ctx\<rparr>"

text \<open>Two peers, 0 and 1; then 1 subscribes to the video of 0 with the consumer at 2.\<close>

definition two_peers :: "(srtp_policy, unit) sfu" where
  "two_peers = alloc_peer (sample_peer 5001) (alloc_peer (sample_peer 5000) (sfu_init (\<lambda>_. 0)))"

definition one_sub :: "(srtp_policy, unit) sfu" where
  "one_sub = snd (the (addConsumer (Suc 0) 0 True two_peers))"

lemma two_peers_inv: "router_inv two_peers"
  unfolding two_peers_def
  by (intro alloc_peer_inv router_inv_init) (simp_all add: sample_peer_def new_peer_def)

lemma two_peers_peers:
  "peers two_peers 0 = Some (sample_peer 5000)" "peers two_peers (Suc 0) = Some (sample_peer 5001)"
  "nextAddr two_peers = 2" "prods two_peers = Map.empty" "conss two_peers = Map.empty"
  "ssrcGen two_peers = (\<lambda>_. 0)" "allPeers two_peers = []" "outSsrcToConsumer two_peers = Map.empty"
  "sent two_peers = []" "routes two_peers = []"
  by (simp_all add: two_peers_def alloc_peer_def sfu_init_def)

lemma uniform_ssrc_0: "uniform_u32 0x40000000 0x7FFFFFFF 0 = 0x40000000"
  by (simp add: uniform_u32_def)

lemma addConsumer_two_peers: "addConsumer (Suc 0) 0 True two_peers = Some (0x40000000, one_sub)"
proof -
  have "addConsumer (Suc 0) 0 True two_peers = Some (uniform_u32 0x40000000 0x7FFFFFFF 0, one_sub)"
    using addConsumer_eq [OF two_peers_inv two_peers_peers(2,1), of True] two_peers_peers
    by (simp add: one_sub_def)
  then show ?thesis by (simp add: uniform_u32_def)
qed

lemma one_sub_inv: "router_inv one_sub"
  using addConsumer_runs [OF two_peers_inv, of "Suc 0" 0 True] two_peers_peers
  by (simp add: addConsumer_two_peers)

lemma one_sub_simps:
  "peers one_sub 0 = Some (sample_peer 5000)"
  "peers one_sub (Suc 0) = Some ((sample_peer 5001)\<lparr>consumers := [2]\<rparr>)"
  "conss one_sub = [2 \<mapsto> new_consumer (Suc 0) 0 True 0x40000000]"
  "prods one_sub = Map.empty" "outSsrcToConsumer one_sub = [0x40000000 \<mapsto> 2]"
  "allPeers one_sub = [Suc 0, 0]" "nextAddr one_sub = 3" "sent one_sub = []" "routes one_sub = []"
proof -
  have eq: "one_sub = install_consumer (Suc 0) 0 True 0x40000000 None 0 two_peers"
    using addConsumer_eq [OF two_peers_inv two_peers_peers(2,1), of True] addConsumer_two_peers
      two_peers_peers
    by (simp add: uniform_ssrc_0 matching_producer_def source_ssrc_def sample_peer_def new_peer_def)
  show "peers one_sub 0 = Some (sample_peer 5000)"
    "peers one_sub (Suc 0) = Some ((sample_peer 5001)\<lparr>consumers := [2]\<rparr>)"
    "conss one_sub = [2 \<mapsto> new_consumer (Suc 0) 0 True 0x40000000]"
    "prods one_sub = Map.empty" "outSsrcToConsumer one_sub = [0x40000000 \<mapsto> 2]"
    "allPeers one_sub = [Suc 0, 0]" "nextAddr one_sub = 3" "sent one_sub = []" "routes one_sub = []"
    by (simp_all add: eq install_consumer_def two_peers_peers Let_def new_consumer_def registerPeer_def
        sample_peer_def new_peer_def)
qed

text \<open>A video packet of the SSRC 7.\<close>

definition sample_rtp :: "u8 list" where
  "sample_rtp = header_bytes \<lparr>h_version = 2, h_padding = False, h_extension = False, h_csrcCount = 0,
     h_marker = True, h_payloadType = 96, h_sequenceNumber = 100, h_timestamp = 9000, h_ssrc = 7\<rparr> @ [1, 2, 3]"

lemma sample_rtp_simps:
  "length sample_rtp = 15" "h_ssrc (header_of sample_rtp) = 7" "h_payloadType (header_of sample_rtp) = 96"
  "rtp_parse sample_rtp = Some (header_of sample_rtp)"
proof -
  show len: "length sample_rtp = 15" by (simp add: sample_rtp_def)
  then show "rtp_parse sample_rtp = Some (header_of sample_rtp)" by (simp add: rtp_parse_header_of)
  have "take 12 sample_rtp = header_bytes \<lparr>h_version = 2, h_padding = False, h_extension = False,
      h_csrcCount = 0, h_marker = True, h_payloadType = 96, h_sequenceNumber = 100,
      h_timestamp = 9000, h_ssrc = 7\<rparr>" by (simp add: sample_rtp_def)
  then have "header_of sample_rtp = \<lparr>h_version = 2, h_padding = False, h_extension = False,
      h_csrcCount = 0, h_marker = True, h_payloadType = 96, h_sequenceNumber = 100,
      h_timestamp = 9000, h_ssrc = 7\<rparr>"
    using header_of_take [of sample_rtp] header_of_bytes len by (simp add: header_valid_def)
  then show "h_ssrc (header_of sample_rtp) = 7" "h_payloadType (header_of sample_rtp) = 96" by simp_all
qed

section \<open>Properties\<close>

text \<open>
  C11. \<open>addConsumer\<close> always returns, with an SSRC in the range reserved for the SFU (so never
  0), keeps the invariant, and installs a live consumer of the right subscriber, publisher
  and kind that the reverse index finds by that SSRC and that waits exactly when the
  publisher has no producer of this kind.
\<close>

theorem addConsumer_subscribes:
  assumes "router_inv s" "peers s sub \<noteq> None" "peers s pub \<noteq> None"
  shows "\<exists>ssrc s' cc. addConsumer sub pub v s = Some (ssrc, s') \<and> router_inv s' \<and>
    0x40000000 \<le> ssrc \<and> ssrc \<le> 0x7FFFFFFF \<and> findConsumerByOutSsrc ssrc s' = Some (nextAddr s) \<and>
    conss s' (nextAddr s) = Some cc \<and> c_subscriber cc = Some sub \<and> c_publisher cc = Some pub \<and>
    c_isVideo cc = v \<and> c_rewrittenSsrc cc = ssrc \<and> c_active cc \<and> c_recvMid cc = '''' \<and>
    (c_publisherSsrc cc = 0 \<longleftrightarrow>
      (\<forall>r pr. prods s r = Some pr \<longrightarrow> p_publisher pr = pub \<longrightarrow> p_isVideo pr \<noteq> v))"
proof -
  obtain p_sub p_pub where p: "peers s sub = Some p_sub" "peers s pub = Some p_pub" using assms by blast
  let ?out = "uniform_u32 0x40000000 0x7FFFFFFF (ssrcGen s (ssrcPos s))"
  let ?t = "matching_producer s pub v"
  let ?s' = "install_consumer sub pub v ?out ?t (source_ssrc s ?t) s"
  have "source_ssrc s ?t = 0 \<longleftrightarrow>
      (\<forall>r pr. prods s r = Some pr \<longrightarrow> p_publisher pr = pub \<longrightarrow> p_isVideo pr \<noteq> v)"
  proof (cases ?t)
    case None
    then show ?thesis using matching_producer_None [OF assms(1) p(2) None] by (simp add: source_ssrc_def)
  next
    case (Some r)
    then show ?thesis
      using matching_producer_Some [OF assms(1) p(2) Some] by (auto simp: source_ssrc_def)
  qed
  then show ?thesis
    using addConsumer_eq [OF assms(1) p] install_consumer_inv [OF assms(1) p refl] uniform_ssrc_range
    by (simp add: findConsumerByOutSsrc_def) (simp add: install_consumer_def Let_def new_consumer_def)
qed

theorem addConsumer_subscribes_witness:
  "\<exists>cc. conss one_sub 2 = Some cc \<and> c_publisherSsrc cc = 0 \<and> c_publisher cc = Some 0"
  using addConsumer_subscribes [OF two_peers_inv, of "Suc 0" 0 True] two_peers_peers
  by (auto simp: addConsumer_two_peers)



section \<open>Peers that leave\<close>

lemma route_unbind_not_found: "route_lookup k (route_unbindPeer a t) \<noteq> Some a"
  by (auto simp: route_lookup_def unbindPeer_filter dest: map_of_SomeD)

text \<open>
  C12. \<open>removePeer\<close> never follows a dangling pointer and keeps the invariant. Afterwards the
  peer owns nothing, no producer, route or registration refers to it, no consumer subscribes
  for it, and the only consumers that still name it as publisher are those that were never
  attached to one of its producers.
\<close>

theorem removePeer_complete:
  assumes inv: "router_inv s" and p: "peers s a = Some p"
  shows "\<exists>s' p'. removePeer a s = Some s' \<and> router_inv s' \<and>
    peers s' a = Some p' \<and> producers p' = [] \<and> consumers p' = [] \<and> a \<notin> set (allPeers s') \<and>
    (\<forall>k. findPeerBySsrc k s' \<noteq> Some a) \<and>
    (\<forall>r pr. prods s' r = Some pr \<longrightarrow> p_publisher pr \<noteq> a) \<and>
    (\<forall>c cc. conss s' c = Some cc \<longrightarrow> c_subscriber cc \<noteq> Some a \<and>
       (c_publisher cc = Some a \<longrightarrow> c_publisherSsrc cc = 0))"
proof -
  let ?t = "removed a p s"
  have inv_t: "router_inv ?t" by (rule removed_inv [OF inv p])
  have no_prod: "p_publisher pr \<noteq> a" if "prods ?t r = Some pr" for r pr
    using that by (auto simp: removed_prods [OF inv p])
  have "c_subscriber cc \<noteq> Some a" if c: "conss ?t c = Some cc" for c cc
    using inv_conssD(1) [OF inv_t c] p by (auto simp: removed_peers)
  moreover have "c_publisherSsrc cc = 0" if c: "conss ?t c = Some cc" "c_publisher cc = Some a" for c cc
    using inv_conssD(3) [OF inv_t c] no_prod by (auto simp: waits_or_linked_def split: if_splits)
  moreover have "peers ?t a = Some (p\<lparr>producers := [], consumers := []\<rparr>)" "a \<notin> set (allPeers ?t)"
    "routes ?t = route_unbindPeer a (routes s)"
    using p by (simp_all add: removed_def)
  ultimately show ?thesis
    using removePeer_eq [OF inv p] inv_t no_prod route_unbind_not_found
    by (auto simp: findPeerBySsrc_def)
qed

theorem removePeer_complete_witness:
  "\<exists>s'. removePeer (Suc 0) one_sub = Some s' \<and> router_inv s'"
  using removePeer_complete [OF one_sub_inv one_sub_simps(2)] by blast

text \<open>
  What \<open>removePeer\<close> leaves alone: every other peer, every producer of another peer
  except that the consumers of the removed peer are taken out of its list, and every
  consumer that neither subscribes for the removed peer nor receives from it.
\<close>

lemma removePeer_keeps_others:
  assumes inv: "router_inv s" and p: "peers s a = Some p" and b: "b \<noteq> a"
    and r: "prods s r = Some pr" "p_publisher pr \<noteq> a"
    and c: "conss s c = Some cc" "c_subscriber cc \<noteq> Some a" "c_publisher cc \<noteq> Some a"
  shows "\<exists>s'. removePeer a s = Some s' \<and> peers s' b = peers s b \<and>
    prods s' r = Some (pr\<lparr>p_consumers := filter (\<lambda>c. c \<notin> set (consumers p)) (p_consumers pr)\<rparr>) \<and>
    conss s' c = Some cc"
proof -
  have "c \<notin> set (consumers p)" using inv_peersD(4) [OF inv p, of c] c(1,2) by auto
  moreover have "c \<notin> consumers_of s (producers p)"
    using consumers_of_iff [OF inv p, of c] inv_prodsD(4) [OF inv, of _ _ c] c(1,3) by fastforce
  ultimately have "conss (removed a p s) c = Some cc" using c(1) by (simp add: removed_conss)
  moreover have "prods (removed a p s) r
      = Some (pr\<lparr>p_consumers := filter (\<lambda>c. c \<notin> set (consumers p)) (p_consumers pr)\<rparr>)"
    using r removed_prods [OF inv p] by blast
  ultimately show ?thesis using removePeer_eq [OF inv p] b by (simp add: removed_peers)
qed

text \<open>A third peer, 3, and a video stream of peer 0 to peer 1 through the producer 4.\<close>

definition one_stream :: "(srtp_policy, unit) sfu" where
  "one_stream = with_producer 0 7 True (alloc_peer (sample_peer 5002) one_sub)"

lemma one_stream_inv: "router_inv one_stream"
  unfolding one_stream_def
proof (rule with_producer_inv)
  show "router_inv (alloc_peer (sample_peer 5002) one_sub)"
    by (rule alloc_peer_inv [OF one_sub_inv]) (simp_all add: sample_peer_def new_peer_def)
qed (simp_all add: alloc_peer_def one_sub_simps)

lemma one_stream_simps:
  "peers one_stream 3 = Some (sample_peer 5002)"
  "prods one_stream 4 = Some ((new_producer 0 7 True)\<lparr>p_consumers := [2]\<rparr>)"
  "conss one_stream 2 = Some ((new_consumer (Suc 0) 0 True 0x40000000)\<lparr>c_publisherSsrc := 7\<rparr>)"
proof -
  let ?s = "alloc_peer (sample_peer 5002) one_sub"
  have cs: "all_consumers ?s = [2]"
    by (simp add: all_consumers_def alloc_peer_def one_sub_simps sample_peer_def new_peer_def)
  have w: "waiting ?s 0 True 2"
    by (simp add: waiting_def alloc_peer_def one_sub_simps new_consumer_def)
  have n: "nextAddr ?s = 4" by (simp add: alloc_peer_def one_sub_simps)
  show "peers one_stream 3 = Some (sample_peer 5002)"
    by (simp add: one_stream_def with_producer_def create_producer_def alloc_peer_def one_sub_simps)
  show "prods one_stream 4 = Some ((new_producer 0 7 True)\<lparr>p_consumers := [2]\<rparr>)"
    by (simp add: one_stream_def with_producer_prods n cs w)
  show "conss one_stream 2 = Some ((new_consumer (Suc 0) 0 True 0x40000000)\<lparr>c_publisherSsrc := 7\<rparr>)"
    using cs w by (simp add: one_stream_def with_producer_def link_list_def)
      (simp add: alloc_peer_def one_sub_simps)
qed

section \<open>Feedback\<close>

text \<open>
  C13. A compound RTCP packet is translated without undefined behaviour, and without any
  change to the object graph, provided no receiver report in it names an outgoing SSRC of
  the router as its sender.
\<close>

theorem onRtcpPacket_safe:
  assumes "router_inv s" "libsrtp_sizes lib"
    and "\<forall>(p, n) \<in> set (subpackets d 0).
      d ! (p + 1) = 201 \<longrightarrow> 8 \<le> n \<longrightarrow> findConsumerByOutSsrc (at32 d (p + 4)) s = None"
  shows "runs (onRtcpPacket lib d from s) (\<lambda>s'. router_inv s' \<and> same_graph s s')"
proof -
  have "no_report_forwarded d s"
    using assms(3) by (simp add: no_report_forwarded_def findConsumerByOutSsrc_def)
  then have "runs (onRtcpPacket lib d from s) (\<lambda>t. same_graph s t \<and> same_reach s t)"
    by (rule onRtcpPacket_runs [OF assms(1,2)])
  then show ?thesis by (rule runs_mono) (use same_graph_inv assms(1) in blast)
qed

lemma subpackets_single:
  assumes "4 \<le> length d" "rtcp_packetLen d 0 = length d"
  shows "subpackets d 0 = [(0, length d)]"
  using assms by (subst subpackets.simps, subst subpackets.simps) simp

lemma subpackets_pli: "subpackets (pli_bytes ss ms) 0 = [(0, 12)]"
proof -
  have "at16 (pli_bytes ss ms) 2 = 2" using pli_bytes_read(3) [of ss ms "[]"] by simp
  then have "rtcp_packetLen (pli_bytes ss ms) 0 = 12" unfolding rtcp_packetLen_def add_0 by simp
  then show ?thesis using subpackets_single [of "pli_bytes ss ms"] by simp
qed

theorem onRtcpPacket_safe_witness:
  "runs (onRtcpPacket zero_tag_lib (pli_bytes 0 0x40000000) 1 one_sub) router_inv"
proof (rule runs_mono [OF onRtcpPacket_safe [OF one_sub_inv zero_tag_lib_sizes]])
  show "\<forall>(p, n) \<in> set (subpackets (pli_bytes 0 0x40000000) 0). pli_bytes 0 0x40000000 ! (p + 1) = 201 \<longrightarrow>
      8 \<le> n \<longrightarrow> findConsumerByOutSsrc (at32 (pli_bytes 0 0x40000000) (p + 4)) one_sub = None"
    using pli_bytes_read(2) [of 0 "0x40000000" "[]"] by (simp add: subpackets_pli)
qed blast

text \<open>
  C26. A NACK for an outgoing SSRC reaches the publisher of that consumer as a NACK for the
  publisher's own SSRC, with the lost-packet numbers exactly as the subscriber sent them;
  the SSRC is that of a live producer of the publisher, or 0 while the consumer waits.
\<close>

theorem nack_translated:
  assumes inv: "router_inv s" and len: "p + 16 \<le> length d"
    and c: "findConsumerByOutSsrc (at32 d (p + 8)) s = Some c" "conss s c = Some cc" "c_publisher cc = Some q"
    and q: "peers s q = Some pe" "srtp pe = Some ctx"
    and enc: "protectRtcp lib 64 (nack_bytes 0 (c_publisherSsrc cc) (at16 d (p + 12)) (at16 d (p + 14))) ctx
      = Some (ctx', Some enc)"
  shows "\<exists>s'. handleNACK lib d p n sub s = Some s' \<and> sent s' = sent s @ [(remoteEp pe, enc)] \<and>
    (c_publisherSsrc cc = 0 \<or> (\<exists>r pr. prods s r = Some pr \<and> p_publisher pr = q \<and>
       p_originalSsrc pr = c_publisherSsrc cc \<and> c \<in> set (p_consumers pr)))"
proof -
  have "c_publisherSsrc cc = 0 \<or> (\<exists>r pr. prods s r = Some pr \<and> p_publisher pr = q \<and>
       p_originalSsrc pr = c_publisherSsrc cc \<and> c \<in> set (p_consumers pr))"
    using inv_conssD(3) [OF inv c(2,3)] by (auto simp: waits_or_linked_def split: if_splits)
  moreover have "c_seqDelta cc = 0" by (rule inv_conssD(4) [OF inv c(2)])
  ultimately show ?thesis
    using len c q enc
    by (simp add: handleNACK_def rd32_def rd16_def Let_def sendProtectedRtcp_def)
qed

text \<open>The sample NACK of subscriber 1 for its outgoing SSRC.\<close>

lemma protectRtcp_zero_tag:
  "length b \<le> 50 \<Longrightarrow> protectRtcp zero_tag_lib 64 b zero_tag_ctx = Some (zero_tag_ctx, Some (b @ replicate 14 0))"
  using zero_tag_ctx_simps
  by (simp add: protectRtcp_def zero_tag_lib_def in_place_def)

theorem nack_translated_witness:
  "\<exists>s'. handleNACK zero_tag_lib (nack_bytes 0 0x40000000 77 3) 0 16 1 one_sub = Some s' \<and>
     sent s' = [(\<lparr>ep_addr = 0x7F000001, ep_port = 5000\<rparr>, nack_bytes 0 0 77 3 @ replicate 14 0)]"
  using nack_translated [OF one_sub_inv, of 0 "nack_bytes 0 0x40000000 77 3" 2
      "new_consumer (Suc 0) 0 True 0x40000000" 0 "sample_peer 5000" zero_tag_ctx zero_tag_lib zero_tag_ctx
      "nack_bytes 0 0 77 3 @ replicate 14 0" 16 1]
    nack_bytes_read [of 0 "0x40000000" 77 3 "[]"] protectRtcp_zero_tag [of "nack_bytes 0 0 77 3"]
  by (simp add: findConsumerByOutSsrc_def one_sub_simps new_consumer_def sample_peer_def)



text \<open>
  A receiver report from any other sender is dropped, whatever stream it reports on:
  nothing is sent and nothing changes. A browser's own SSRC is never an outgoing SSRC of the
  router, so no receiver report of a browser ever reaches a publisher.
\<close>

lemma receiver_report_dropped:
  assumes "p + n \<le> length d" "findConsumerByOutSsrc (at32 d (p + 4)) s = None"
  shows "handleRR lib d p n sub s = Some s"
  using assms handleRR_unknown [of p n d s lib sub] by (simp add: findConsumerByOutSsrc_def)

section \<open>The rewritten header\<close>

lemma rewrite_bytes:
  assumes "12 \<le> length buf"
  shows "rewriteRtpHeader buf c =
    Some (take 8 buf @ be32 (c_rewrittenSsrc c) @ drop 12 buf, rewritten_consumer (header_of buf) c)"
proof -
  let ?h = "header_of buf"
  have hdr: "rtp_parse buf = Some ?h" by (rule rtp_parse_header_of [OF assms])
  have "header_bytes ?h = take 12 buf"
    using header_bytes_of [of "take 12 buf"] header_of_take [OF assms] assms by simp
  then have "take 8 (header_bytes ?h) = take 8 buf" by simp
  moreover have "header_bytes (?h\<lparr>h_ssrc := k\<rparr>) = take 8 (header_bytes ?h) @ be32 k" for k
    by (simp add: header_bytes_def header_byte0_def header_byte1_def)
  ultimately show ?thesis
    using assms by (simp add: rewriteRtpHeader_eq [OF hdr] writeFixedHeader_def)
qed

text \<open>
  C39. \<open>rewriteRtpHeader\<close> is defined for every packet that holds a fixed header and every consumer,
  whatever the consumer has counted before, and replaces exactly the four SSRC bytes: sequence number, timestamp, flags, CSRCs, extension and
  payload go out as they came in, and both offsets it maintains are 0 after every packet.
\<close>

theorem rewrite_replaces_ssrc_only:
  assumes "12 \<le> length buf"
  shows "\<exists>c'. rewriteRtpHeader buf c = Some (take 8 buf @ be32 (c_rewrittenSsrc c) @ drop 12 buf, c') \<and>
    c_seqInitialized c' \<and> c_lastSentSeq c' = at16 buf 2 \<and> c_lastSentTimestamp c' = at32 buf 4 \<and>
    c_seqDelta c' = 0 \<and> c_tsDelta c' = 0"
  using rtp_parse_fields(7,8) [OF assms] by (simp add: rewrite_bytes [OF assms] rewritten_consumer_def)

theorem rewrite_replaces_ssrc_only_witness:
  "\<exists>c'. rewriteRtpHeader sample_rtp (new_consumer 1 0 True 0x40000000) = Some (take 8 sample_rtp @ be32 0x40000000 @ [1, 2, 3], c')"
proof -
  have "drop 12 sample_rtp = [1, 2, 3]" by (simp add: sample_rtp_def)
  then show ?thesis
    using rewrite_replaces_ssrc_only [of sample_rtp "new_consumer 1 0 True 0x40000000"]
    by (auto simp: sample_rtp_simps new_consumer_def)
qed

text \<open>
  Delivery: for an active consumer with a mid whose subscriber has an SRTP context, the
  packet with its SSRC replaced is protected with that context and sent to the subscriber's
  endpoint, and the consumer counts one packet and the length of the whole packet.
\<close>

lemma forward_delivers:
  assumes "conss s c = Some cc" "c_active cc" "c_recvMid cc \<noteq> ''''" "c_subscriber cc = Some sub"
    and "peers s sub = Some p" "srtp p = Some ctx" "12 \<le> length pkt" "length pkt \<le> 65536"
    and "protect lib 65536 (take 8 pkt @ be32 (c_rewrittenSsrc cc) @ drop 12 pkt) ctx = Some (ctx', Some enc)"
  shows "\<exists>s' cc'. rtp_forward_one lib pkt c s = Some s' \<and> sent s' = sent s @ [(remoteEp p, enc)] \<and>
    peers s' sub = Some (p\<lparr>srtp := Some ctx'\<rparr>) \<and> conss s' c = Some cc' \<and>
    c_packetsSent cc' = c_packetsSent cc + 1 \<and> c_octetsSent cc' = c_octetsSent cc + of_nat (length pkt) \<and>
    c_lastSentSeq cc' = at16 pkt 2 \<and> c_lastSentTimestamp cc' = at32 pkt 4"
  using assms rtp_parse_fields(7,8) [OF assms(7)]
  by (simp add: rtp_forward_one_def rewrite_bytes rewritten_consumer_def Let_def)

text \<open>The consumer of \<open>one_sub\<close> once its mid is negotiated.\<close>

definition one_sub_bound :: "(srtp_policy, unit) sfu" where
  "one_sub_bound = one_sub\<lparr>conss := modify 2 (\<lambda>x. x\<lparr>c_recvMid := ''1''\<rparr>) (conss one_sub)\<rparr>"

lemma protect_zero_tag:
  "length b \<le> 1000 \<Longrightarrow> protect zero_tag_lib 65536 b zero_tag_ctx = Some (zero_tag_ctx, Some (b @ replicate 10 0))"
  using zero_tag_ctx_simps by (simp add: protect_def zero_tag_lib_def in_place_def)

lemma forward_delivers_example:
  "\<exists>s'. rtp_forward_one zero_tag_lib sample_rtp 2 one_sub_bound = Some s' \<and>
     sent s' = [(\<lparr>ep_addr = 0x7F000001, ep_port = 5001\<rparr>,
       (take 8 sample_rtp @ be32 0x40000000 @ drop 12 sample_rtp) @ replicate 10 0)]"
  using forward_delivers [of one_sub_bound 2 "(new_consumer (Suc 0) 0 True 0x40000000)\<lparr>c_recvMid := ''1''\<rparr>"
      "Suc 0" "(sample_peer 5001)\<lparr>consumers := [2]\<rparr>" zero_tag_ctx sample_rtp zero_tag_lib zero_tag_ctx
      "(take 8 sample_rtp @ be32 0x40000000 @ drop 12 sample_rtp) @ replicate 10 0"]
    protect_zero_tag [of "take 8 sample_rtp @ be32 0x40000000 @ drop 12 sample_rtp"]
  by (auto simp: one_sub_bound_def one_sub_simps new_consumer_def sample_peer_def new_peer_def sample_rtp_simps)

section \<open>New streams\<close>

text \<open>
  The first packet of a new stream creates one producer whose consumers are exactly those
  that waited for this publisher and kind; none of them waits any longer, and the SSRC is
  bound to the publisher in the route table.
\<close>

lemma new_producer_takes_waiting:
  assumes inv: "router_inv s" and lib: "libsrtp_sizes lib" and "from": "peers s from \<noteq> None" and nz: "ssrc \<noteq> 0"
    and new: "\<forall>r pr. prods s r = Some pr \<longrightarrow> p_publisher pr = from \<longrightarrow> p_originalSsrc pr \<noteq> ssrc"
  shows "\<exists>r s' pr. findOrCreateProducer lib from ssrc v s = Some (r, s') \<and> router_inv s' \<and>
    prods s' r = Some pr \<and> p_publisher pr = from \<and> p_originalSsrc pr = ssrc \<and> p_isVideo pr = v \<and>
    set (p_consumers pr) = {c. waiting s from v c} \<and> (\<forall>c. \<not> waiting s' from v c) \<and>
    routes s' = route_bind ssrc from (routes s)"
proof -
  obtain pf where pf: "peers s from = Some pf" using "from" by blast
  obtain s' where s': "findOrCreateProducer lib from ssrc v s = Some (nextAddr s, s')"
    "same_graph (with_producer from ssrc v s) s'" "routes s' = route_bind ssrc from (routes s)"
    using findOrCreateProducer_new [OF inv lib pf, of ssrc v] new
    by (auto simp: runs_def with_producer_def)
  let ?pr = "(new_producer from ssrc v)\<lparr>p_consumers := filter (waiting s from v) (all_consumers s)\<rparr>"
  have inv': "router_inv s'" using same_graph_inv [OF s'(2) with_producer_inv [OF inv "from" nz new]] .
  have pr: "prods s' (nextAddr s) = Some ?pr"
    using s'(2) by (simp add: same_graph_def with_producer_prods)
  have "c \<in> set (all_consumers s)" if "waiting s from v c" for c
    using that live_in_all_consumers [OF inv] by (auto simp: waiting_def split: option.splits)
  then have "set (p_consumers ?pr) = {c. waiting s from v c}" by auto
  moreover have "\<not> waiting s' from v c" for c
  proof
    assume "waiting s' from v c"
    then obtain cc where "conss s' c = Some cc" "c_publisher cc = Some from" "c_isVideo cc = v"
      "c_publisherSsrc cc = 0" by (auto simp: waiting_def split: option.splits)
    then show False
      using inv_conssD(3) [OF inv', of c cc "from"] pr by (fastforce simp: waits_or_linked_def new_producer_def)
  qed
  ultimately show ?thesis
    using s'(1,3) inv' pr by (simp add: new_producer_def)
qed

lemma new_producer_takes_waiting_example:
  "\<exists>r s' pr. findOrCreateProducer zero_tag_lib 0 7 True one_sub = Some (r, s') \<and>
     prods s' r = Some pr \<and> set (p_consumers pr) = {2}"
proof -
  have "{c. waiting one_sub 0 True c} = {2}"
    by (auto simp: waiting_def one_sub_simps new_consumer_def split: if_splits)
  then show ?thesis
    using new_producer_takes_waiting [OF one_sub_inv zero_tag_lib_sizes, of 0 7 True]
    by (auto simp: one_sub_simps)
qed

section \<open>Sequences that go wrong\<close>

lemma forward_keeps_dead:
  assumes "rtp_forward_one lib pkt x s = Some t" "conss s c = None"
  shows "conss t c = None"
proof -
  obtain cc where x: "conss s x = Some cc"
    using assms(1) by (cases "conss s x") (auto simp: rtp_forward_one_def)
  then have "x \<noteq> c" using assms(2) by auto
  show ?thesis
  proof (cases "\<exists>sub p ctx. c_active cc \<and> c_subscriber cc = Some sub \<and> peers s sub = Some p \<and>
      srtp p = Some ctx \<and> c_recvMid cc \<noteq> '''' \<and> length pkt \<le> 65536")
    case False
    then have "t = s"
      using assms(1) x by (auto simp: rtp_forward_one_def split: if_splits option.splits Option.bind_splits)
    then show ?thesis using assms(2) by simp
  next
    case True
    then obtain sub p ctx where go: "c_active cc" "c_subscriber cc = Some sub" "peers s sub = Some p"
      "srtp p = Some ctx" "c_recvMid cc \<noteq> ''''" "length pkt \<le> 65536" by blast
    obtain out cc' where rw: "rewriteRtpHeader pkt cc = Some (out, cc')"
      using assms(1) x go by (cases "rewriteRtpHeader pkt cc") (auto simp: rtp_forward_one_def)
    obtain ctx' r where pr: "protect lib 65536 out ctx = Some (ctx', r)"
      using assms(1) x go rw by (cases "protect lib 65536 out ctx") (auto simp: rtp_forward_one_def)
    show ?thesis
      using assms x go rw pr \<open>x \<noteq> c\<close>
      by (cases r) (auto simp: rtp_forward_one_def Let_def)
  qed
qed

lemma forward_dead_target:
  assumes "c \<in> set targets" "conss s c = None"
  shows "rtp_forward lib pkt targets s = None"
  using assms
proof (induction targets arbitrary: s)
  case (Cons x xs)
  show ?case
  proof (cases "x = c")
    case True
    then show ?thesis using Cons.prems by (simp add: rtp_forward_def rtp_forward_one_def)
  next
    case False
    then show ?thesis
      using Cons.IH Cons.prems forward_keeps_dead [of lib pkt x s _ c]
      by (cases "rtp_forward_one lib pkt x s") (auto simp: rtp_forward_def)
  qed
qed (simp add: rtp_forward_def)

text \<open>
  \<open>onRtpPacket\<close> copies the consumer pointers under the lock and follows them after
  releasing it: if a subscriber of the stream is removed in between, forwarding follows a
  pointer to a destroyed consumer.
\<close>

lemma removal_during_forwarding_undefined:
  assumes inv: "router_inv s" and lib: "libsrtp_sizes lib" and "from": "peers s from = Some pf"
    and hdr: "rtp_parse pkt = Some hdr" "h_ssrc hdr \<noteq> 0"
    and t: "rtp_targets lib vpts pkt from s = Some (targets, s1)" "c \<in> set targets"
    and c: "conss s c = Some cc" "c_subscriber cc = Some b"
  shows "\<exists>s2. removePeer b s1 = Some s2 \<and> rtp_forward lib pkt targets s2 = None"
proof -
  have s1: "router_inv s1" "same_reach s s1"
    using rtp_targets_inv [OF inv lib "from" hdr, of vpts] t(1) by (simp_all add: runs_def)
  obtain cc1 where cc1: "conss s1 c = Some cc1" "cons_reach cc1 = cons_reach cc"
    using s1(2) c(1) by (metis (no_types, lifting) map_option_eq_Some same_reach_def option.simps(9))
  then have "c_subscriber cc1 = Some b" using c(2) by (simp add: cons_reach_def)
  then obtain p where p: "peers s1 b = Some p" "c \<in> set (consumers p)"
    using inv_conssD(1) [OF s1(1) cc1(1)] by auto
  have "conss (removed b p s1) c = None" using p(2) by (simp add: removed_def)
  then show ?thesis using removePeer_eq [OF s1(1) p(1)] forward_dead_target [OF t(2)] by simp
qed

lemma removal_during_forwarding_undefined_example:
  "\<exists>s1 s2. rtp_targets zero_tag_lib {96} sample_rtp 0 one_sub = Some ([2], s1) \<and>
     removePeer 1 s1 = Some s2 \<and> rtp_forward zero_tag_lib sample_rtp [2] s2 = None"
proof -
  have "filter (waiting one_sub 0 True) (all_consumers one_sub) = [2]"
    by (simp add: all_consumers_def one_sub_simps waiting_def new_consumer_def sample_peer_def new_peer_def)
  then obtain s1 where s1: "rtp_targets zero_tag_lib {96} sample_rtp 0 one_sub = Some ([2], s1)"
    using rtp_targets_runs [OF one_sub_inv zero_tag_lib_sizes _ sample_rtp_simps(4), of 0 "{96}"]
    by (auto simp: one_sub_simps runs_def sample_rtp_simps)
  have "\<exists>s2. removePeer (Suc 0) s1 = Some s2 \<and> rtp_forward zero_tag_lib sample_rtp [2] s2 = None"
    by (rule removal_during_forwarding_undefined [OF one_sub_inv zero_tag_lib_sizes one_sub_simps(1)
          sample_rtp_simps(4) _ s1, where cc = "new_consumer (Suc 0) 0 True 0x40000000"])
      (simp_all add: sample_rtp_simps one_sub_simps new_consumer_def)
  with s1 show ?thesis by auto
qed

text \<open>
  C25. SSRC 0 is not excluded where a producer is created, but it is the mark of a waiting
  consumer, and \<open>removePeer\<close> skips producers with SSRC 0. If a peer sends an RTP packet with the SSRC 0,
  its new producer lists every consumer that waits for that kind of media from it; after the subscriber
  of one of them has been removed the pointer to its consumer is still there, and the
  next packet of the peer with the SSRC 0, whatever else it holds, follows it.
\<close>

theorem ssrc_zero_leaves_dangling_consumer:
  assumes inv: "router_inv s" and lib: "libsrtp_sizes lib" and live: "peers s a \<noteq> None"
    and pkt: "rtp_parse pkt = Some hdr" "h_ssrc hdr = 0" "length pkt + 10 \<le> 65536"
    and c: "conss s c = Some cc" "c_subscriber cc = Some b" "b \<noteq> a"
      "c_publisher cc = Some a" "c_publisherSsrc cc = 0" "c_isVideo cc = (h_payloadType hdr \<in> vpts)"
    and pkt': "rtp_parse pkt' = Some hdr'" "h_ssrc hdr' = 0"
  shows "\<exists>s1 s2. onRtpPacket lib vpts pkt a s = Some s1 \<and> removePeer b s1 = Some s2 \<and>
    onRtpPacket lib vpts' pkt' a s2 = None"
proof -
  let ?v = "h_payloadType hdr \<in> vpts" and ?r = "nextAddr s"
  define pr where "pr = (new_producer a 0 ?v)\<lparr>p_consumers := filter (waiting s a ?v) (all_consumers s)\<rparr>"
  have pr: "p_originalSsrc pr = 0" by (simp add: pr_def new_producer_def)
  have "waiting s a ?v c" using c by (simp add: waiting_def)
  then have listed: "c \<in> set (p_consumers pr)" using live_in_all_consumers [OF inv c(1)] by (simp add: pr_def)
  from first_zero_packet [OF inv lib live pkt, of vpts, folded pr_def] obtain rt u where
    u: "router_inv u" "prods u ?r = None" "same_graph (s\<lparr>nextAddr := Suc (nextAddr s)\<rparr>) u"
    and s1: "onRtpPacket lib vpts pkt a s = Some (with_zero ?r pr a rt u)" by blast
  obtain cu where cu: "conss u c = Some cu" "c_subscriber cu = Some b"
    using same_graph_cons [OF same_graph_sym [OF u(3)], of c cc] c(1,2) by (auto simp: cons_shape_def)
  obtain p where p: "peers u b = Some p" "c \<in> set (consumers p)" using inv_conssD(1) [OF u(1) cu(1)] cu(2) by auto
  let ?t = "removed b p u" and ?rt = "route_unbindPeer b rt"
  have s2: "removePeer b (with_zero ?r pr a rt u) = Some (with_zero ?r pr a ?rt ?t)"
    by (rule removePeer_with_zero [OF u(1) p(1) c(3) pr u(2)])
  have "peers u a \<noteq> None"
    using live same_peersD [OF same_graph_same_peers [OF u(3)], of a] by simp
  then have "peers ?t a \<noteq> None" "prods ?t ?r = None" "conss ?t c = None"
    using u(2) p(2) c(3) by (simp_all add: removed_def)
  then have "onRtpPacket lib vpts' pkt' a (with_zero ?r pr a ?rt ?t) = None"
    using next_zero_packet [OF removed_inv [OF u(1) p(1)] _ pr pkt'] forward_dead_target [OF listed, of "with_zero ?r pr a ?rt ?t"]
    by (simp add: onRtpPacket_def)
  with s1 s2 show ?thesis by blast
qed

text \<open>A video packet whose SSRC field is 0, twice, and the removal of the subscriber in between.\<close>

definition zero_ssrc_rtp :: "u8 list" where
  "zero_ssrc_rtp = [0x80, 96, 0, 1, 0, 0, 0, 1, 0, 0, 0, 0]"

theorem ssrc_zero_leaves_dangling_consumer_witness:
  "\<exists>s1 s2. onRtpPacket zero_tag_lib {96} zero_ssrc_rtp 0 one_sub = Some s1 \<and> removePeer 1 s1 = Some s2 \<and>
     onRtpPacket zero_tag_lib {96} zero_ssrc_rtp 0 s2 = None"
proof -
  have len: "length zero_ssrc_rtp + 10 \<le> 65536" by (simp add: zero_ssrc_rtp_def)
  obtain hdr where hdr: "rtp_parse zero_ssrc_rtp = Some hdr" "h_ssrc hdr = 0" "h_payloadType hdr = 96"
  proof -
    have "map_option (\<lambda>h. (h_ssrc h, h_payloadType h)) (rtp_parse zero_ssrc_rtp) = Some (0, 96)" by code_simp
    then show thesis using that by auto
  qed
  show ?thesis
    using ssrc_zero_leaves_dangling_consumer [OF one_sub_inv zero_tag_lib_sizes _ hdr(1,2) len _ _ _ _ _ _ hdr(1,2), of 0 2
        "new_consumer (Suc 0) 0 True 0x40000000" 1 "{96}" "{96}"]
    by (simp add: one_sub_simps new_consumer_def hdr(3))
qed

section \<open>Mids\<close>

text \<open>
  Binding a mid: the first consumer of the subscriber with the requested publisher and
  kind gets the mid, its outgoing SSRC is returned and the invariant is kept, so that
  \<open>getAllBoundSsrcs\<close> then lists the mid; without such a consumer the result is 0 and
  nothing changes.
\<close>

lemma bind_mid_then_listed:
  assumes inv: "router_inv s" and sub: "peers s sub = Some p" and mid: "mid \<noteq> ''''"
  shows "\<exists>k s'. bindConsumerByMid sub pid v mid s = Some (k, s') \<and> router_inv s' \<and>
    (case List.find (mid_match s pid v) (consumers p) of
       None \<Rightarrow> k = 0 \<and> s' = s
     | Some c \<Rightarrow> (\<exists>cc. conss s c = Some cc \<and> k = c_rewrittenSsrc cc \<and>
         conss s' = (conss s)(c \<mapsto> cc\<lparr>c_recvMid := mid\<rparr>)) \<and>
         (\<exists>m. getAllBoundSsrcs sub s' = Some m \<and> m mid \<noteq> None))"
proof (cases "List.find (mid_match s pid v) (consumers p)")
  case None
  then show ?thesis using bindConsumerByMid_eq [OF inv sub, of pid v mid] inv by simp
next
  case (Some c)
  then obtain cc where c: "c \<in> set (consumers p)" "conss s c = Some cc"
    by (auto dest!: find_Some_in simp: mid_match_def)
  define s' where "s' = s\<lparr>conss := modify c (\<lambda>x. x\<lparr>c_recvMid := mid\<rparr>) (conss s)\<rparr>"
  have inv': "router_inv s'"
    unfolding s'_def by (rule same_graph_inv [OF same_graph_cons_upd inv]) (simp add: cons_shape_def)
  have "peers s' sub = Some p" by (simp add: s'_def sub)
  then have "getAllBoundSsrcs sub s' = Some (map_of (rev (bound_mids s' (consumers p))))"
    by (rule getAllBoundSsrcs_eq [OF inv'])
  moreover have "c_recvMid (the (conss s' c)) = mid" using c(2) by (simp add: s'_def)
  then have "(mid, out_ssrc s' c) \<in> set (bound_mids s' (consumers p))"
    using c(1) mid by (auto simp: bound_mids_def)
  then have "map_of (rev (bound_mids s' (consumers p))) mid \<noteq> None"
    unfolding map_of_eq_None_iff set_map set_rev by (metis fst_conv image_eqI)
  moreover have "conss s' = (conss s)(c \<mapsto> cc\<lparr>c_recvMid := mid\<rparr>)"
    using c(2) by (simp add: s'_def modify_def)
  moreover have "bindConsumerByMid sub pid v mid s = Some (c_rewrittenSsrc cc, s')"
    using bindConsumerByMid_eq [OF inv sub, of pid v mid] Some c(2) by (simp add: s'_def out_ssrc_def)
  ultimately show ?thesis using Some c(2) inv' by simp
qed

lemma bind_mid_then_listed_example:
  "\<exists>k s'. bindConsumerByMid (Suc 0) '''' True ''m1'' one_sub = Some (k, s') \<and> router_inv s'"
  using bind_mid_then_listed [OF one_sub_inv one_sub_simps(2), of "''m1''" "''''" True] by auto

section \<open>The NTP clock\<close>

text \<open>
  The NTP timestamp of a sender report has the seconds since 1900 modulo \<open>2 ^ 32\<close> in its
  upper half and in its lower half the fraction of the second, rounded down, for every clock
  value of \<open>system_clock\<close> after 1970.
\<close>

lemma ntp_timestamp_halves:
  assumes "ns < 2 ^ 63"
  shows "unat (drop_bit 32 (getNtpTimestamp ns)) = (ns div 1000000000 + 2208988800) mod 2 ^ 32 \<and>
    unat (getNtpTimestamp ns AND 0xFFFFFFFF) = ((ns mod 1000000000) * 2 ^ 32) div 1000000000"
proof -
  let ?S = "of_nat (ns div 1000000000) + 2208988800 :: u64"
  let ?F = "push_bit 32 (of_nat (ns mod 1000000000)) div 1000000000 :: u64"
  have "unat (push_bit 32 (of_nat (ns mod 1000000000)) :: u64) = (ns mod 1000000000) * 2 ^ 32"
  proof -
    have "push_bit 32 (of_nat (ns mod 1000000000) :: u64) = of_nat ((ns mod 1000000000) * 2 ^ 32)"
      by (simp add: push_bit_eq_mult)
    moreover have "(ns mod 1000000000) * 2 ^ 32 < 2 ^ 64"
      using mod_less_divisor [of 1000000000 ns] by simp
    ultimately show ?thesis using unat_of_nat_small(3) by metis
  qed
  then have F: "unat ?F = ((ns mod 1000000000) * 2 ^ 32) div 1000000000"
    by (simp add: unat_div)
  also have "\<dots> < 2 ^ 32"
    using mod_less_divisor [of 1000000000 ns] by (simp add: less_mult_imp_div_less)
  finally have small: "unat ?F < 2 ^ 32" .
  then have F_mask: "?F AND mask 32 = ?F"
    by (intro less_mask_eq) (simp add: word_less_nat_alt)
  have hi: "\<not> bit ?F (n + 32)" for n
    using F_mask by (metis bit_and_iff bit_mask_iff not_add_less2)
  have "drop_bit 32 (push_bit 32 ?S OR ?F) = ?S AND mask 32"
    using hi by (intro bit_word_eqI) (auto simp: bit_simps add.commute)
  moreover have "(push_bit 32 ?S OR ?F) AND mask 32 = ?F"
    using F_mask by (intro bit_word_eqI) (auto simp: bit_simps dest!: arg_cong [where f = "\<lambda>w. bit w _"])
  moreover have "unat (?S AND mask 32) = (ns div 1000000000 + 2208988800) mod 2 ^ 32"
  proof -
    have "unat ?S = ns div 1000000000 + 2208988800"
    proof -
      have "?S = of_nat (ns div 1000000000 + 2208988800)" by simp
      moreover have "ns div 1000000000 + 2208988800 < 2 ^ 64" using assms by simp
      ultimately show ?thesis using unat_of_nat_small(3) by metis
    qed
    then show ?thesis
      by (simp only: take_bit_eq_mask [symmetric] unsigned_take_bit_eq) (simp add: take_bit_eq_mod)
  qed
  moreover have "(0xFFFFFFFF :: u64) = mask 32" by (simp add: mask_eq_exp_minus_1)
  ultimately show ?thesis using F by (simp add: getNtpTimestamp_def Let_def)
qed

lemma ntp_timestamp_halves_example:
  "unat (drop_bit 32 (getNtpTimestamp 1500000000)) = 2208988801 \<and>
   unat (getNtpTimestamp 1500000000 AND 0xFFFFFFFF) = 2147483648"
  using ntp_timestamp_halves [of 1500000000] by simp

section \<open>The work a compound packet causes\<close>

lemma subpackets_tile: "p \<le> length d \<Longrightarrow> p + sum_list (map snd (subpackets d p)) \<le> length d"
proof (induction d p rule: subpackets.induct)
  case (1 d p)
  then show ?case by (subst subpackets.simps) auto
qed

text \<open>
  C34. The two loops over a compound RTCP packet end for every input: each is a fold over the
  same sub-packets, which have at least four bytes each and do not overlap, so there are at
  most a quarter as many as the packet has bytes.
\<close>

theorem rtcp_traversal_terminates:
  "onRtcpPacket lib d from s = foldM (\<lambda>(p, n). router_rtcp_case lib from d p n) (subpackets d 0) s \<and>
   handler_onRtcpPacket h d = foldM (\<lambda>(p, n). rtcp_case h d p n) (subpackets d 0) [] \<and>
   4 * length (subpackets d 0) \<le> sum_list (map snd (subpackets d 0)) \<and>
   sum_list (map snd (subpackets d 0)) \<le> length d"
proof (intro conjI)
  have "\<forall>x \<in> set xs. 4 \<le> snd x \<Longrightarrow> 4 * length xs \<le> sum_list (map snd xs)" for xs :: "(nat \<times> nat) list"
    by (induction xs) auto
  moreover have "\<forall>x \<in> set (subpackets d 0). 4 \<le> snd x" using subpackets_bounds by fastforce
  ultimately show "4 * length (subpackets d 0) \<le> sum_list (map snd (subpackets d 0))" .
  show "sum_list (map snd (subpackets d 0)) \<le> length d" using subpackets_tile [of 0 d] by simp
qed (simp_all add: onRtcpPacket_def handler_onRtcpPacket_def rtcp_r.loop_foldM rtcp_h.loop_foldM)

end
