(* ===== verification/SdpProps.thy ===== *)
theory SdpProps
  imports Sdp
begin

text \<open>
  What the offer/answer exchange of \<open>sdp/SdpParser.cpp\<close> guarantees: which payload types the
  parser registers, what a section it has read looks like, and that an answer read back is
  the offer with the directions of RFC 3264 and the server's credentials.
\<close>

section \<open>Lines\<close>

definition no_nl :: "string \<Rightarrow> bool" where
  "no_nl s \<longleftrightarrow> CHR 0x0A \<notin> set s"

lemma no_nl_simps [simp]:
  "no_nl []" "no_nl (c # s) \<longleftrightarrow> c \<noteq> CHR 0x0A \<and> no_nl s" "no_nl (s @ t) \<longleftrightarrow> no_nl s \<and> no_nl t"
  by (auto simp: no_nl_def)

lemma no_nl_subset: "no_nl s \<Longrightarrow> set t \<subseteq> set s \<Longrightarrow> no_nl t"
  by (auto simp: no_nl_def)

lemma getlines_Nil [simp]: "getlines [] = []"
  by (subst getlines.simps) simp

lemma getlines_no_nl: "l \<in> set (getlines s) \<Longrightarrow> no_nl l"
proof (induction s rule: getlines.induct)
  case (1 s)
  then show ?case
    by (subst (asm) getlines.simps) (auto simp: no_nl_def split: if_splits dest: set_takeWhileD)
qed

lemma getlines_no_nl_line: "no_nl l \<Longrightarrow> getlines (l @ CHR 0x0A # s) = l # getlines s"
  by (rule getlines_line) (simp add: no_nl_def)

text \<open>The lines of a text written with CRLF line ends.\<close>

definition with_cr :: "string \<Rightarrow> string" where
  "with_cr l = l @ [CHR 0x0D]"

lemma getlines_crlf:
  "\<forall>l \<in> set ls. no_nl l \<Longrightarrow> getlines (concat (map (\<lambda>l. l @ crlf) ls)) = map with_cr ls"
proof (induction ls)
  case (Cons l ls)
  then have "getlines ((l @ [CHR 0x0D]) @ CHR 0x0A # concat (map (\<lambda>l. l @ crlf) ls))
      = (l @ [CHR 0x0D]) # map with_cr ls"
    by (subst getlines_no_nl_line) auto
  then show ?case by (simp add: with_cr_def crlf_def)
qed simp

definition is_blank :: "char \<Rightarrow> bool" where
  "is_blank c \<longleftrightarrow> c = CHR '' '' \<or> c = CHR 0x09"

lemma clean_line_alt:
  "clean_line line = (let l = (if line \<noteq> [] \<and> last line = CHR 0x0D then butlast line else line);
     t = dropWhile is_blank l in if t = [] then None else Some t)"
  unfolding clean_line_def is_blank_def ..

fun starts_visible :: "string \<Rightarrow> bool" where
  "starts_visible [] \<longleftrightarrow> False"
| "starts_visible (c # s) \<longleftrightarrow> \<not> is_blank c"

lemma clean_with_cr [simp]: "starts_visible l \<Longrightarrow> clean_line (with_cr l) = Some l"
  by (cases l) (simp_all add: clean_line_alt with_cr_def)

lemma clean_lineD:
  assumes "clean_line raw = Some l"
  shows "set l \<subseteq> set raw" "starts_visible l"
proof -
  define r where "r = (if raw \<noteq> [] \<and> last raw = CHR 0x0D then butlast raw else raw)"
  have r: "set r \<subseteq> set raw" by (auto simp: r_def dest: in_set_butlastD)
  have l: "l = dropWhile is_blank r" "l \<noteq> []"
    using assms by (auto simp: clean_line_alt r_def Let_def split: if_splits)
  show "set l \<subseteq> set raw" using r l(1) by (auto dest: set_dropWhileD)
  have "\<not> is_blank (hd l)" using l hd_dropWhile by blast
  then show "starts_visible l" using l(2) by (cases l) auto
qed

lemma clean_line_no_nl: "clean_line raw = Some l \<Longrightarrow> no_nl raw \<Longrightarrow> no_nl l"
  using clean_lineD(1) no_nl_subset by blast

section \<open>The loop over the lines\<close>

lemma offer_loop_append:
  "offer_loop (xs @ ys) p g = (case offer_loop xs p g of
     (Inl e, g') \<Rightarrow> (Inl e, g') | (Inr p', g') \<Rightarrow> offer_loop ys p' g')"
proof (induction xs arbitrary: p g)
  case (Cons raw xs)
  then show ?case
    by (cases "clean_line raw"; cases "offer_line (the (clean_line raw)) p g";
        cases "fst (offer_line (the (clean_line raw)) p g)") simp_all
qed simp

lemma offer_loop_inv:
  assumes "offer_loop ls p g = (Inr p', g')" "I p g" "\<forall>l \<in> set ls. no_nl l"
    and step: "\<And>l p g p' g'. no_nl l \<Longrightarrow> starts_visible l \<Longrightarrow> I p g \<Longrightarrow>
      offer_line l p g = (Inr p', g') \<Longrightarrow> I p' g'"
  shows "I p' g'"
  using assms(1-3)
proof (induction ls arbitrary: p g)
  case (Cons raw ls)
  show ?case
  proof (cases "clean_line raw")
    case None
    then show ?thesis using Cons by simp
  next
    case (Some l)
    then obtain p1 g1 where "offer_line l p g = (Inr p1, g1)" "offer_loop ls p1 g1 = (Inr p', g')"
      using Cons.prems(1) by (auto split: prod.splits sum.splits)
    with Some Cons step show ?thesis
      by (meson clean_line_no_nl clean_lineD(2) list.set_intros)
  qed
qed simp

text \<open>Writing through \<open>current\<close> never changes types and payload lists.\<close>

lemma sections_update_last:
  "sections p \<noteq> [] \<Longrightarrow> map f (sections (update_last h p)) = map f (butlast (sections p)) @ [f (h (last (sections p)))]"
  by (simp add: update_last_def)

text \<open>A line that is mirrored: an attribute of the codecs that does not throw in its section.\<close>

definition codec_ok :: "string \<Rightarrow> string \<Rightarrow> bool" where
  "codec_ok ty l \<longleftrightarrow> prefix ''a=rtcp-fb:'' l \<or> prefix ''a=fmtp:'' l \<or>
     prefix ''a=rtpmap:'' l \<and>
       (\<forall>p g. sec_type (last (sections p)) = ty \<longrightarrow> (\<exists>g'. rtpmap_line l p g = Inr g'))"

lemma rtpmap_line_ok:
  "rtpmap_line l p g = Inr g' \<Longrightarrow> prefix ''a=rtpmap:'' l \<Longrightarrow> codec_ok (sec_type (last (sections p))) l"
  by (auto simp: codec_ok_def rtpmap_line_def Let_def split: if_splits sum.splits prod.splits)

lemma rtpmap_line_sets:
  "rtpmap_line l p g = Inr g' \<Longrightarrow> g_videoPTs g' = g_videoPTs g \<and> g_audioPTs g' = g_audioPTs g"
  by (auto simp: rtpmap_line_def Let_def split: if_splits sum.splits prod.splits)

text \<open>What one line can do.\<close>

lemma section_line_cases:
  assumes "section_line l p g = (Inr p', g')"
  obtains (mid) m where "p' = update_last (sec_mid_update (\<lambda>_. m)) p" "g' = g" "set m \<subseteq> set l"
    | (direction) d where "p' = update_last (sec_direction_update (\<lambda>_. d)) p" "g' = g"
        "d \<in> {''sendrecv'', ''sendonly'', ''recvonly'', ''inactive''}"
    | (codec) "p' = add_codec l p" "codec_ok (sec_type (last (sections p))) l"
        "g_videoPTs g' = g_videoPTs g" "g_audioPTs g' = g_audioPTs g"
    | (other) "p' = p" "g' = g"
proof (cases "extractAttr l ''mid'' = ''''")
  case False
  moreover have "set (extractAttr l ''mid'') \<subseteq> set l"
    by (auto simp: extractAttr_def Let_def dest: in_set_dropD)
  ultimately show ?thesis using assms by (intro mid) (simp_all add: section_line_def)
next
  case nomid: True
  show ?thesis
  proof (cases "l \<in> {''a=sendrecv'', ''a=sendonly'', ''a=recvonly'', ''a=inactive''}")
    case True
    then have "p' = update_last (\<lambda>sec. sec\<lparr>sec_direction := drop 2 l\<rparr>) p" "g' = g"
      using assms nomid by (simp_all add: section_line_def)
    moreover have "drop 2 l \<in> {''sendrecv'', ''sendonly'', ''recvonly'', ''inactive''}"
      using True by auto
    ultimately show ?thesis using direction by blast
  next
    case nodir: False
    note sl = assms [unfolded section_line_def if_not_P [OF not_not [THEN iffD2, OF nomid]] if_not_P [OF nodir]]
    show ?thesis
    proof (cases "prefix ''a=rtpmap:'' l")
      case True
      then obtain g1 where "rtpmap_line l p g = Inr g1" "p' = add_codec l p" "g' = g1"
        using sl by (auto split: sum.splits)
      then show ?thesis using codec rtpmap_line_ok [OF _ True] rtpmap_line_sets by metis
    next
      case False
      then have "(p' = add_codec l p \<and> codec_ok (sec_type (last (sections p))) l \<or> p' = p) \<and> g' = g"
        using sl by (simp add: codec_ok_def split: if_splits)
      then show ?thesis using codec other by blast
    qed
  qed
qed

text \<open>What parsing never touches.\<close>

definition server_of :: "sdp_parser \<Rightarrow> string \<times> int \<times> string \<times> string \<times> string \<times> (string \<rightharpoonup> u32)" where
  "server_of p = (serverIp p, serverPort p, serverUfrag p, serverPwd p, serverFingerprint p, midSsrc p)"

lemma server_of_updates [simp]:
  "server_of (p\<lparr>sections := ss\<rparr>) = server_of p" "server_of (update_last h p) = server_of p"
  "server_of (add_codec l p) = server_of p"
  by (simp_all add: server_of_def update_last_def add_codec_def)

lemma offer_line_cases:
  assumes "offer_line l p g = (Inr p', g')"
  obtains (media) "prefix ''m='' l" "p' = p\<lparr>sections := sections p @ [media_line l]\<rparr>"
        "g' = collect_pts (media_line l) g"
    | (session) "sections p' = sections p" "g' = g" "server_of p' = server_of p"
    | (section_attr) "sections p \<noteq> []" "section_line l p g = (Inr p', g')"
proof (cases "prefix ''m='' l")
  case True
  then show ?thesis using assms media by (simp add: offer_line_def Let_def)
next
  case False
  note r = assms [unfolded offer_line_def if_not_P [OF False]]
  consider "sections p' = sections p \<and> g' = g \<and> server_of p' = server_of p" | "sections p \<noteq> [] \<and> section_line l p g = (Inr p', g')"
    using r by (simp add: Let_def server_of_def split: if_splits) fastforce+
  then show ?thesis using session section_attr by cases blast+
qed

section \<open>Payload types\<close>

definition section_pts :: "string \<Rightarrow> media_section list \<Rightarrow> u8 set" where
  "section_pts ty secs =
     (\<Union>sec \<in> {sec \<in> set secs. sec_type sec = ty}. of_int ` set (read_ints (sec_ptList sec)))"

lemma section_pts_append [simp]:
  "section_pts ty [] = {}" "section_pts ty (xs @ ys) = section_pts ty xs \<union> section_pts ty ys"
  by (auto simp: section_pts_def)

lemma section_pts_one [simp]:
  "section_pts ty [sec] = (if sec_type sec = ty then of_int ` set (read_ints (sec_ptList sec)) else {})"
  by (auto simp: section_pts_def)

lemma section_pts_update_last:
  assumes "sections p \<noteq> []" "\<And>sec. sec_type (h sec) = sec_type sec \<and> sec_ptList (h sec) = sec_ptList sec"
  shows "section_pts ty (sections (update_last h p)) = section_pts ty (sections p)"
proof -
  have "section_pts ty [h sec] = section_pts ty [sec]" for sec
    using assms(2) by simp
  moreover have "sections p = butlast (sections p) @ [last (sections p)]" using assms(1) by simp
  ultimately show ?thesis by (metis section_pts_append(2) update_last_def sdp_parser.simps(1,10)
    sdp_parser.select_convs(1) sdp_parser.update_convs(1) sdp_parser.surjective)
qed

lemma section_pts_collect:
  "g_videoPTs (collect_pts sec g) = g_videoPTs g \<union> section_pts ''video'' [sec]"
  "g_audioPTs (collect_pts sec g) = g_audioPTs g \<union> section_pts ''audio'' [sec]"
  by (auto simp: collect_pts_def Let_def)

lemma offer_line_pts:
  assumes "offer_line l p g = (Inr p', g')"
    and "g_videoPTs g = V \<union> section_pts ''video'' (sections p) \<and>
         g_audioPTs g = A \<union> section_pts ''audio'' (sections p)"
  shows "g_videoPTs g' = V \<union> section_pts ''video'' (sections p') \<and>
         g_audioPTs g' = A \<union> section_pts ''audio'' (sections p')"
  using assms(1)
proof (cases rule: offer_line_cases)
  case media
  then show ?thesis using assms(2) by (simp add: section_pts_collect) blast
next
  case session
  then show ?thesis using assms(2) by simp
next
  case section_attr
  from section_attr(2) show ?thesis
    by (cases rule: section_line_cases)
      (simp_all add: assms(2) add_codec_def section_pts_update_last [OF section_attr(1)])
qed

section \<open>The sections of a parsed offer\<close>

definition sec_wf :: "media_section \<Rightarrow> bool" where
  "sec_wf sec \<longleftrightarrow> no_nl (sec_type sec) \<and> no_nl (sec_mid sec) \<and> no_nl (sec_ptList sec) \<and>
     (\<forall>c \<in> set (sec_type sec). \<not> is_space c) \<and>
     sec_direction sec \<in> {'''', ''sendrecv'', ''sendonly'', ''recvonly'', ''inactive''} \<and>
     (\<forall>l \<in> set (sec_codecLines sec). no_nl l \<and> codec_ok (sec_type sec) l)"

lemma read_word_parts:
  assumes "read_word s = (w, r)"
  shows "set w \<subseteq> set s" "set r \<subseteq> set s" "\<forall>c \<in> set w. \<not> is_space c"
  using assms by (auto simp: read_word_def Let_def dest!: set_takeWhileD set_dropWhileD)

lemma media_line_wf: "no_nl l \<Longrightarrow> sec_wf (media_line l)"
proof -
  assume l: "no_nl l"
  obtain ty r1 where 1: "read_word (drop 2 l) = (ty, r1)" by fastforce
  obtain po r2 where 2: "read_word r1 = (po, r2)" by fastforce
  obtain pr r3 where 3: "read_word r2 = (pr, r3)" by fastforce
  note parts = read_word_parts [OF 1] read_word_parts [OF 2] read_word_parts [OF 3]
  let ?rest = "if r3 \<noteq> [] \<and> hd r3 = CHR '' '' then tl r3 else r3"
  have "set (drop 2 l) \<subseteq> set l" by (rule set_drop_subset)
  moreover have "set ?rest \<subseteq> set r3" by (auto dest: list.set_sel(2))
  ultimately have "set ty \<subseteq> set l" "set ?rest \<subseteq> set l" using parts by blast+
  then have "no_nl ty" "no_nl ?rest" using l no_nl_subset by blast+
  then show ?thesis using parts(3) by (simp add: media_line_def 1 2 3 sec_wf_def)
qed

lemma sections_wf_update_last:
  assumes "sections p \<noteq> []" "\<forall>sec \<in> set (sections p). sec_wf sec" "sec_wf (h (last (sections p)))"
  shows "\<forall>sec \<in> set (sections (update_last h p)). sec_wf sec"
  using assms by (auto simp: update_last_def dest: in_set_butlastD)

lemma offer_line_wf:
  assumes "offer_line l p g = (Inr p', g')" "no_nl l" "\<forall>sec \<in> set (sections p). sec_wf sec"
  shows "\<forall>sec \<in> set (sections p'). sec_wf sec"
  using assms(1)
proof (cases rule: offer_line_cases)
  case media
  then show ?thesis using assms(3) media_line_wf [OF assms(2)] by auto
next
  case session
  then show ?thesis using assms(3) by simp
next
  case section_attr
  have last: "sec_wf (last (sections p))" using section_attr(1) assms(3) by simp
  note upd = sections_wf_update_last [OF section_attr(1) assms(3)]
  from section_attr(2) show ?thesis
  proof (cases rule: section_line_cases)
    case (mid m)
    have "no_nl m" using assms(2) mid(3) by (rule no_nl_subset)
    then show ?thesis using last by (simp only: mid) (rule upd, simp add: sec_wf_def)
  next
    case (direction d)
    then show ?thesis using last by (simp only: direction(1)) (rule upd, simp add: sec_wf_def)
  next
    case codec
    then show ?thesis
      using last assms(2) codec(2)
      by (simp only: codec(1) add_codec_def) (rule upd, auto simp: sec_wf_def)
  next
    case other
    then show ?thesis using assms(3) by simp
  qed
qed

lemma parseOffer_sections_wf:
  assumes "parseOffer sdp p g = (Inr (ok, p'), g')"
  shows "\<forall>sec \<in> set (sections p'). sec_wf sec"
proof -
  have "offer_loop (getlines sdp) (p\<lparr>sections := []\<rparr>) g = (Inr p', g')"
    using assms by (auto simp: parseOffer_def split: prod.splits sum.splits)
  then show ?thesis
    by (rule offer_loop_inv) (use getlines_no_nl offer_line_wf in \<open>auto\<close>)
qed

text \<open>
  After a parse that does not throw, the static payload type sets have gained exactly the
  payload types of the \<open>m=\<close> lines of their kind: nothing is lost, nothing else is added.
\<close>

lemma parse_registers_payload_types:
  assumes "parseOffer sdp p g = (Inr (ok, p'), g')"
  shows "g_videoPTs g' = g_videoPTs g \<union> section_pts ''video'' (sections p') \<and>
    g_audioPTs g' = g_audioPTs g \<union> section_pts ''audio'' (sections p')"
proof -
  have "offer_loop (getlines sdp) (p\<lparr>sections := []\<rparr>) g = (Inr p', g')"
    using assms by (auto simp: parseOffer_def split: prod.splits sum.splits)
  then show ?thesis
    by (rule offer_loop_inv) (use getlines_no_nl offer_line_pts in \<open>auto\<close>)
qed

section \<open>Reading an answer\<close>

text \<open>What the server writes into an answer does not break a line.\<close>

definition server_ok :: "sdp_parser \<Rightarrow> bool" where
  "server_ok q \<longleftrightarrow> no_nl (serverIp q) \<and> no_nl (serverUfrag q) \<and> no_nl (serverPwd q) \<and> no_nl (serverFingerprint q)"

text \<open>The section a browser sees in the answer.\<close>

definition answered :: "media_section \<Rightarrow> media_section" where
  "answered sec = sec\<lparr>sec_direction := answer_direction (offer_direction sec)\<rparr>"

lemma lines_Nil: "offer_loop (map with_cr []) p g = (Inr p, g)"
  by simp

lemma lines_Cons:
  assumes "starts_visible l" "offer_line l p g = (Inr p1, g1)"
    "\<exists>g'. offer_loop (map with_cr ls) p1 g1 = (Inr p', g')"
  shows "\<exists>g'. offer_loop (map with_cr (l # ls)) p g = (Inr p', g')"
  using assms by simp

lemma no_nl_show_nat [simp]: "no_nl (show_nat n)"
proof (induction n rule: show_nat.induct)
  case (1 n)
  have "(char_of (48 + k) :: char) \<noteq> CHR 0x0A" if "k < 10" for k :: nat
  proof
    assume "(char_of (48 + k) :: char) = CHR 0x0A"
    then have "(of_char (char_of (48 + k) :: char) :: nat) = of_char (CHR 0x0A)" by simp
    then show False using that by simp
  qed
  then show ?case using 1 by (subst show_nat.simps) simp
qed

subsection \<open>One line of an answer\<close>

lemma read_word_append:
  "w \<noteq> [] \<Longrightarrow> \<forall>c \<in> set w. \<not> is_space c \<Longrightarrow> is_space d \<Longrightarrow> read_word (w @ d # r) = (w, d # r)"
  by (cases w) (auto simp: read_word_def takeWhile_append dropWhile_append)

lemma read_word_space: "is_space d \<Longrightarrow> read_word (d # r) = read_word r"
  by (simp add: read_word_def)

lemma media_line_answer:
  assumes "ty \<noteq> []" "\<forall>c \<in> set ty. \<not> is_space c"
  shows "media_line (''m='' @ ty @ '' 9 UDP/TLS/RTP/SAVPF '' @ pts)
    = \<lparr>sec_type = ty, sec_mid = '''', sec_direction = '''', sec_ptList = pts, sec_codecLines = []\<rparr>"
proof -
  have sp: "is_space (CHR '' '')" by (simp add: is_space_def)
  have 1: "read_word (ty @ '' 9 UDP/TLS/RTP/SAVPF '' @ pts) = (ty, '' 9 UDP/TLS/RTP/SAVPF '' @ pts)"
    using read_word_append [OF assms sp] by simp
  have 2: "read_word ('' 9 UDP/TLS/RTP/SAVPF '' @ pts) = (''9'', '' UDP/TLS/RTP/SAVPF '' @ pts)"
    using read_word_append [of "''9''" "CHR '' ''" "''UDP/TLS/RTP/SAVPF '' @ pts"]
    by (simp add: read_word_space [OF sp] is_space_def)
  have 3: "read_word ('' UDP/TLS/RTP/SAVPF '' @ pts) = (''UDP/TLS/RTP/SAVPF'', '' '' @ pts)"
    using read_word_append [of "''UDP/TLS/RTP/SAVPF''" "CHR '' ''" pts]
    by (simp add: read_word_space [OF sp] is_space_def)
  have d: "drop 2 (''m='' @ ty @ '' 9 UDP/TLS/RTP/SAVPF '' @ pts) = ty @ '' 9 UDP/TLS/RTP/SAVPF '' @ pts"
    by simp
  show ?thesis unfolding media_line_def d 1 prod.case Let_def 2 3 by simp
qed

lemma line_media:
  assumes "ty \<noteq> []" "\<forall>c \<in> set ty. \<not> is_space c"
  shows "offer_line (''m='' @ ty @ '' 9 UDP/TLS/RTP/SAVPF '' @ pts) p g =
    (let sec = \<lparr>sec_type = ty, sec_mid = '''', sec_direction = '''', sec_ptList = pts, sec_codecLines = []\<rparr>
     in (Inr (p\<lparr>sections := sections p @ [sec]\<rparr>), collect_pts sec g))"
  unfolding offer_line_def media_line_answer [OF assms] by simp

lemma line_creds:
  "u \<noteq> '''' \<Longrightarrow> offer_line (''a=ice-ufrag:'' @ u) p g
     = (Inr (p\<lparr>sdp_iceUfrag := or_default (sdp_iceUfrag p) u\<rparr>), g)"
  "u \<noteq> '''' \<Longrightarrow> offer_line (''a=ice-pwd:'' @ u) p g
     = (Inr (p\<lparr>sdp_icePwd := or_default (sdp_icePwd p) u\<rparr>), g)"
  "offer_line (''a=fingerprint:sha-256 '' @ u) p g
     = (Inr (p\<lparr>sdp_fingerprint := or_default (sdp_fingerprint p) u\<rparr>), g)"
  by (simp_all add: offer_line_def extractAttr_def or_default_def split_blank_def)

lemma line_ignored:
  "offer_line (''c='' @ x) p g = (Inr p, g)"
  "offer_line (''a=candidate:'' @ x) p g = (Inr p, g)"
  "offer_line (''a=rtcp:9 IN IP4 0.0.0.0'') p g = (Inr p, g)"
  "offer_line (''a=setup:passive'') p g = (Inr p, g)"
  "offer_line (''a=rtcp-mux'') p g = (Inr p, g)"
  "offer_line (''a=ssrc:'' @ x) p g = (Inr p, g)"
  "offer_line (''v=0'') p g = (Inr p, g)"
  "offer_line (''o='' @ x) p g = (Inr p, g)"
  "offer_line (''s=NameCon'') p g = (Inr p, g)"
  "offer_line (''t=0 0'') p g = (Inr p, g)"
  "offer_line (''a=group:BUNDLE'' @ x) p g = (Inr p, g)"
  "offer_line (''a=msid-semantic: WMS'') p g = (Inr p, g)"
  "offer_line (''a=ice-lite'') p g = (Inr p, g)"
  by (simp_all add: offer_line_def section_line_def extractAttr_def)

lemma line_mid:
  assumes "sections p = S @ [s]" "sec_mid s = ''''"
  shows "offer_line (''a=mid:'' @ m) p g = (Inr (p\<lparr>sections := S @ [s\<lparr>sec_mid := m\<rparr>]\<rparr>), g)"
proof -
  have "p\<lparr>sections := S @ [s]\<rparr> = p" "s\<lparr>sec_mid := []\<rparr> = s" using assms by simp_all
  then show ?thesis
    using assms by (cases "m = ''''") (simp_all add: offer_line_def section_line_def extractAttr_def update_last_def)
qed

lemma line_direction:
  assumes "sections p = S @ [s]" "d \<in> {''sendrecv'', ''sendonly'', ''recvonly'', ''inactive''}"
  shows "offer_line (''a='' @ d) p g = (Inr (p\<lparr>sections := S @ [s\<lparr>sec_direction := d\<rparr>]\<rparr>), g)"
proof -
  have "''a='' @ d \<in> {''a=sendrecv'', ''a=sendonly'', ''a=recvonly'', ''a=inactive''}"
    and "\<forall>k \<in> {''ice-ufrag'', ''ice-pwd'', ''fingerprint'', ''mid''}. extractAttr (''a='' @ d) k = ''''"
    and "\<not> prefix ''m='' (''a='' @ d)" "drop 2 (''a='' @ d) = d"
    using assms(2) by (elim insertE; simp add: extractAttr_def)+
  then show ?thesis using assms(1)
    by (simp only: offer_line_def section_line_def) (simp add: update_last_def)
qed

lemma line_codec:
  assumes "sections p = S @ [s]" "codec_ok (sec_type s) l"
  shows "\<exists>g'. offer_line l p g
    = (Inr (p\<lparr>sections := S @ [s\<lparr>sec_codecLines := sec_codecLines s @ [l]\<rparr>]\<rparr>), g')"
proof -
  have add: "add_codec l p = p\<lparr>sections := S @ [s\<lparr>sec_codecLines := sec_codecLines s @ [l]\<rparr>]\<rparr>"
    using assms(1) by (simp add: add_codec_def update_last_def)
  have "\<exists>r. l = ''a=rtcp-fb:'' @ r \<or> l = ''a=fmtp:'' @ r \<or> l = ''a=rtpmap:'' @ r"
    using assms(2) unfolding codec_ok_def prefix_def by blast
  then have line: "\<not> prefix ''m='' l"
    "\<forall>k \<in> {''ice-ufrag'', ''ice-pwd'', ''fingerprint'', ''mid''}. extractAttr l k = ''''"
    "l \<notin> {''a=sendrecv'', ''a=sendonly'', ''a=recvonly'', ''a=inactive''}"
    by (elim exE disjE; simp add: extractAttr_def)+
  have ol: "offer_line l p g = section_line l p g"
    using line(1,2) assms(1) by (simp add: offer_line_def)
  show ?thesis
  proof (cases "prefix ''a=rtpmap:'' l")
    case True
    then have "\<not> prefix ''a=rtcp-fb:'' l" "\<not> prefix ''a=fmtp:'' l" by (auto simp: prefix_def)
    then obtain g' where "rtpmap_line l p g = Inr g'"
      using assms unfolding codec_ok_def by (metis last_snoc)
    with True line show ?thesis by (simp add: ol section_line_def add)
  next
    case False
    then have "prefix ''a=rtcp-fb:'' l \<or> prefix ''a=fmtp:'' l" using assms(2) by (simp add: codec_ok_def)
    with False line show ?thesis by (auto simp: ol section_line_def add)
  qed
qed

lemma codec_visible: "codec_ok ty l \<Longrightarrow> starts_visible l"
  by (auto simp: codec_ok_def prefix_def is_blank_def)

lemma lines_codec:
  assumes "\<forall>l \<in> set ls. codec_ok (sec_type s) l" "sections p = S @ [s]"
  shows "\<exists>g'. offer_loop (map with_cr ls) p g
    = (Inr (p\<lparr>sections := S @ [s\<lparr>sec_codecLines := sec_codecLines s @ ls\<rparr>]\<rparr>), g')"
  using assms
proof (induction ls arbitrary: p s g)
  case Nil
  have "p\<lparr>sections := S @ [s]\<rparr> = p" using Nil by simp
  then show ?case by simp
next
  case (Cons l ls)
  let ?s = "s\<lparr>sec_codecLines := sec_codecLines s @ [l]\<rparr>"
  obtain g1 where "offer_line l p g = (Inr (p\<lparr>sections := S @ [?s]\<rparr>), g1)"
    using line_codec Cons.prems by (metis list.set_intros(1))
  moreover have "starts_visible l" using Cons.prems codec_visible by auto
  moreover have "\<exists>g'. offer_loop (map with_cr ls) (p\<lparr>sections := S @ [?s]\<rparr>) g1
      = (Inr (p\<lparr>sections := S @ [s\<lparr>sec_codecLines := sec_codecLines s @ l # ls\<rparr>]\<rparr>), g')"
    using Cons.IH [of ?s "p\<lparr>sections := S @ [?s]\<rparr>" g1] Cons.prems by simp
  ultimately show ?case by simp
qed

text \<open>Lines the parser passes over.\<close>

definition skipped :: "string \<Rightarrow> bool" where
  "skipped l \<longleftrightarrow> starts_visible l \<and> (\<forall>p g. offer_line l p g = (Inr p, g))"

lemma lines_skipped: "\<forall>l \<in> set ls. skipped l \<Longrightarrow> offer_loop (map with_cr ls) p g = (Inr p, g)"
  by (induction ls) (simp_all add: skipped_def)

lemma ssrc_lines_skipped: "l \<in> set (ssrc_lines ssrc) \<Longrightarrow> skipped l"
  using line_ignored(6) by (auto simp: ssrc_lines_def Let_def skipped_def is_blank_def)

lemma header_skipped: "l \<in> set (answer_header q) \<Longrightarrow> skipped l"
proof -
  have "skipped (''o=- 0 0 IN IP4 '' @ x)" for x
    using line_ignored(8) [of "''- 0 0 IN IP4 '' @ x"] by (simp add: skipped_def is_blank_def)
  then show "l \<in> set (answer_header q) \<Longrightarrow> skipped l"
    by (auto simp: answer_header_def skipped_def is_blank_def line_ignored line_ignored [simplified])
qed

subsection \<open>One section of an answer\<close>

text \<open>The credentials a browser takes over from an answer.\<close>

definition with_creds :: "sdp_parser \<Rightarrow> sdp_parser \<Rightarrow> sdp_parser" where
  "with_creds q p = p\<lparr>sdp_iceUfrag := or_default (sdp_iceUfrag p) (or_default (serverUfrag q) ''sfu_default''),
     sdp_icePwd := or_default (sdp_icePwd p) (or_default (serverPwd q) ''default_pwd''),
     sdp_fingerprint := or_default (sdp_fingerprint p) (or_default (serverFingerprint q) ''00:00:00:00:00'')\<rparr>"

lemma or_default_idem [simp]: "or_default (or_default s d) d = or_default s d"
  by (simp add: or_default_def)

lemma or_default_nonempty [simp]: "d \<noteq> '''' \<Longrightarrow> or_default s d \<noteq> ''''"
  by (simp add: or_default_def)

lemma with_creds_idem: "with_creds q (with_creds q p\<lparr>sections := s\<rparr>) = with_creds q p\<lparr>sections := s\<rparr>"
  by (simp add: with_creds_def)

lemma line_mid_last:
  "sections p \<noteq> [] \<Longrightarrow> sec_mid (last (sections p)) = '''' \<Longrightarrow> offer_line (''a=mid:'' @ m) p g
     = (Inr (p\<lparr>sections := butlast (sections p) @ [(last (sections p))\<lparr>sec_mid := m\<rparr>]\<rparr>), g)"
  by (rule line_mid) simp_all

lemma line_direction_last:
  "sections p \<noteq> [] \<Longrightarrow> d \<in> {''sendrecv'', ''sendonly'', ''recvonly'', ''inactive''} \<Longrightarrow>
     offer_line (''a='' @ d) p g
     = (Inr (p\<lparr>sections := butlast (sections p) @ [(last (sections p))\<lparr>sec_direction := d\<rparr>]\<rparr>), g)"
  by (rule line_direction) simp_all

lemma section_ssrc_lines: "l \<in> set (section_ssrc q sec) \<Longrightarrow> \<exists>ssrc. l \<in> set (ssrc_lines ssrc)"
  unfolding section_ssrc_def
  by (cases "offer_direction sec = ''recvonly''"; cases "midSsrc q (sec_mid sec)";
      simp only: refl if_True if_False option.case list.set empty_iff) blast

lemma section_ssrc_skipped: "l \<in> set (section_ssrc q sec) \<Longrightarrow> skipped l"
  using section_ssrc_lines ssrc_lines_skipped by blast

lemma starts_visible_append [simp]: "starts_visible ((c # s) @ t) \<longleftrightarrow> \<not> is_blank c"
  by simp

lemma answer_direction_cases:
  "answer_direction d \<in> {''sendrecv'', ''sendonly'', ''recvonly'', ''inactive''}"
  by (simp add: answer_direction_def)

lemma section_head_read:
  assumes "sec_wf sec" "sec_type sec \<noteq> ''''"
  shows "\<exists>g'. offer_loop (map with_cr (section_head q sec)) p g
    = (Inr ((with_creds q p)\<lparr>sections := sections p @ [(answered sec)\<lparr>sec_codecLines := []\<rparr>]\<rparr>), g')"
proof -
  let ?d = "answer_direction (offer_direction sec)"
  let ?s = "\<lparr>sec_type = sec_type sec, sec_mid = '''', sec_direction = '''',
    sec_ptList = sec_ptList sec, sec_codecLines = []\<rparr>"
  have ty: "\<forall>c \<in> set (sec_type sec). \<not> is_space c" using assms(1) by (simp add: sec_wf_def)
  note media = line_media [OF assms(2) ty, unfolded Let_def]
  have c: "offer_line ''c=IN IP4 0.0.0.0'' p g = (Inr p, g)"
    "offer_line (''a=candidate:1 1 UDP 2130706433 '' @ x) p g = (Inr p, g)" for p g x
    using line_ignored(1) [of "''IN IP4 0.0.0.0''"] line_ignored(2) [of "''1 1 UDP 2130706433 '' @ x"]
    by simp_all
  have creds: "sections (with_creds q p) = sections p" by (simp add: with_creds_def)
  have "offer_loop (map with_cr (section_head q sec)) p g
    = (Inr ((with_creds q p)\<lparr>sections := sections p @ [?s\<lparr>sec_mid := sec_mid sec, sec_direction := ?d\<rparr>]\<rparr>),
       collect_pts ?s g)"
    by (simp add: section_head_def is_blank_def media c line_creds line_ignored(3-5) line_mid_last
        line_direction_last [OF _ answer_direction_cases] with_creds_def del: append.simps(2))
  moreover have "?s\<lparr>sec_mid := sec_mid sec, sec_direction := ?d\<rparr> = (answered sec)\<lparr>sec_codecLines := []\<rparr>"
    by (simp add: answered_def)
  ultimately show ?thesis by metis
qed

lemma section_read:
  assumes "sec_wf sec" "sec_type sec \<noteq> ''''"
  shows "\<exists>g'. offer_loop (map with_cr (answer_section q sec)) p g
    = (Inr ((with_creds q p)\<lparr>sections := sections p @ [answered sec]\<rparr>), g')"
proof -
  let ?s = "(answered sec)\<lparr>sec_codecLines := []\<rparr>"
  let ?p = "(with_creds q p)\<lparr>sections := sections p @ [?s]\<rparr>"
  obtain g1 where 1: "offer_loop (map with_cr (section_head q sec)) p g = (Inr ?p, g1)"
    using section_head_read [OF assms] by blast
  have "\<forall>l \<in> set (sec_codecLines sec). codec_ok (sec_type ?s) l"
    using assms(1) by (simp add: sec_wf_def answered_def)
  then obtain g2 where 2: "offer_loop (map with_cr (sec_codecLines sec)) ?p g1
      = (Inr (?p\<lparr>sections := sections p @ [?s\<lparr>sec_codecLines := sec_codecLines ?s @ sec_codecLines sec\<rparr>]\<rparr>), g2)"
    using lines_codec [of "sec_codecLines sec" ?s ?p "sections p" g1] by auto
  have "?s\<lparr>sec_codecLines := sec_codecLines ?s @ sec_codecLines sec\<rparr> = answered sec"
    by (simp add: answered_def)
  with 2 have "offer_loop (map with_cr (sec_codecLines sec)) ?p g1
      = (Inr ((with_creds q p)\<lparr>sections := sections p @ [answered sec]\<rparr>), g2)"
    by simp
  then show ?thesis
    by (simp add: answer_section_def offer_loop_append 1 lines_skipped [OF ballI [OF section_ssrc_skipped]])
qed

lemma sections_read:
  assumes "\<forall>sec \<in> set secs. sec_wf sec \<and> sec_type sec \<noteq> ''''" "secs \<noteq> []"
  shows "\<exists>g'. offer_loop (map with_cr (concat (map (answer_section q) secs))) p g
    = (Inr ((with_creds q p)\<lparr>sections := sections p @ map answered secs\<rparr>), g')"
  using assms
proof (induction secs arbitrary: p g)
  case (Cons sec secs)
  let ?p = "(with_creds q p)\<lparr>sections := sections p @ [answered sec]\<rparr>"
  obtain g1 where 1: "offer_loop (map with_cr (answer_section q sec)) p g = (Inr ?p, g1)"
    using section_read Cons.prems(1) by (meson list.set_intros(1))
  show ?case
  proof (cases "secs = []")
    case True
    then show ?thesis using 1 by simp
  next
    case False
    then obtain g2 where "offer_loop (map with_cr (concat (map (answer_section q) secs))) ?p g1
        = (Inr ((with_creds q ?p)\<lparr>sections := sections ?p @ map answered secs\<rparr>), g2)"
      using Cons.IH [of ?p g1] Cons.prems(1) by auto
    then show ?thesis using 1 by (simp add: offer_loop_append with_creds_idem)
  qed
qed simp

lemma ssrc_lines_no_nl: "\<forall>l \<in> set (ssrc_lines ssrc). no_nl l"
  by (simp add: ssrc_lines_def Let_def)

lemma answer_lines_no_nl:
  assumes "server_ok q" "\<forall>sec \<in> set (sections q). sec_wf sec" "l \<in> set (answer_lines q)"
  shows "no_nl l"
proof -
  have d: "no_nl (or_default s d)" if "no_nl s" "no_nl d" for s d
    using that by (simp add: or_default_def)
  have port: "no_nl (show_port n)" for n by (simp add: show_port_def)
  have srv: "no_nl (or_default (serverIp q) ''127.0.0.1'')" "no_nl (or_default (serverUfrag q) ''sfu_default'')"
    "no_nl (or_default (serverPwd q) ''default_pwd'')" "no_nl (or_default (serverFingerprint q) ''00:00:00:00:00'')"
    using assms(1) by (simp_all add: server_ok_def d)
  have mids: "no_nl (concat (map (\<lambda>sec. '' '' @ sec_mid sec) ss))" if "\<forall>sec \<in> set ss. sec_wf sec" for ss
    using that by (induction ss) (simp_all add: sec_wf_def)
  have dir: "no_nl (answer_direction x)" for x by (simp add: answer_direction_def)
  have header: "\<forall>l \<in> set (answer_header q). no_nl l"
    using srv mids [OF assms(2)] by (simp add: answer_header_def)
  have "\<forall>l \<in> set (section_head q sec). no_nl l" if "sec_wf sec" for sec
    using that srv port dir by (simp add: section_head_def sec_wf_def)
  moreover have "\<forall>l \<in> set (section_ssrc q sec). no_nl l" for sec
    using section_ssrc_lines ssrc_lines_no_nl by blast
  moreover have "\<forall>l \<in> set (sec_codecLines sec). no_nl l" if "sec_wf sec" for sec
    using that by (simp add: sec_wf_def)
  ultimately have body: "\<forall>sec \<in> set (sections q). \<forall>l \<in> set (answer_section q sec). no_nl l"
    using assms(2) by (simp only: answer_section_def set_append ball_Un) blast
  from assms(3) consider "l \<in> set (answer_header q)" | sec where "sec \<in> set (sections q)" "l \<in> set (answer_section q sec)"
    unfolding answer_lines_def by auto
  then show ?thesis using body header by cases blast+
qed

lemma offer_line_server:
  assumes "offer_line l p g = (Inr p', g')"
  shows "server_of p' = server_of p"
  using assms
proof (cases rule: offer_line_cases)
  case section_attr
  from section_attr(2) show ?thesis by (cases rule: section_line_cases) simp_all
qed simp_all

lemma parseOffer_server:
  assumes "parseOffer sdp p g = (Inr (ok, p'), g')"
  shows "server_of p' = server_of p"
proof -
  have "offer_loop (getlines sdp) (p\<lparr>sections := []\<rparr>) g = (Inr p', g')"
    using assms by (auto simp: parseOffer_def split: prod.splits sum.splits)
  then show ?thesis
    by (rule offer_loop_inv [where I = "\<lambda>p' g'. server_of p' = server_of p"])
      (use getlines_no_nl offer_line_server in \<open>auto\<close>)
qed

lemma answer_text_lines:
  assumes "parseOffer sdp p g = (Inr (ok, q), g1)" "server_ok p"
  shows "getlines (concat (map (\<lambda>l. l @ crlf) (answer_lines q))) = map with_cr (answer_lines q)"
proof -
  have "server_ok q" using assms(2) parseOffer_server [OF assms(1)] by (simp add: server_ok_def server_of_def)
  then show ?thesis
    using answer_lines_no_nl parseOffer_sections_wf [OF assms(1)] by (intro getlines_crlf) blast
qed

lemma answer_lines_read:
  assumes "\<forall>sec \<in> set (sections q). sec_wf sec \<and> sec_type sec \<noteq> ''''" "sections q \<noteq> []"
  shows "\<exists>g'. offer_loop (map with_cr (answer_lines q)) p g
    = (Inr ((with_creds q p)\<lparr>sections := sections p @ map answered (sections q)\<rparr>), g')"
  unfolding answer_lines_def map_append offer_loop_append
  using sections_read [OF assms] by (simp add: lines_skipped header_skipped)

text \<open>
  C32. The answer read back. An offer that is accepted, with a media type in every \<open>m=\<close> line,
  gets an answer that a parser accepts and reads as the sections of the offer in order, with
  their mids, payload lists and codec lines unchanged, each direction mirrored as RFC 3264
  asks, and the server's credentials.
\<close>

theorem answer_read_back:
  assumes "parseOffer offer p g = (Inr (True, q), g1)" "server_ok p"
    and "\<forall>sec \<in> set (sections q). sec_type sec \<noteq> ''''"
  shows "\<exists>ans g2. generateAnswer offer p g = (Inr (ans, q), g1) \<and>
    parseOffer ans parser_new g1 =
      (Inr (True, parser_new\<lparr>sections := map answered (sections q),
         sdp_iceUfrag := or_default (serverUfrag p) ''sfu_default'',
         sdp_icePwd := or_default (serverPwd p) ''default_pwd'',
         sdp_fingerprint := or_default (serverFingerprint p) ''00:00:00:00:00''\<rparr>), g2)"
proof -
  let ?ans = "concat (map (\<lambda>l. l @ crlf) (answer_lines q))"
  have secs: "sections q \<noteq> []" "\<forall>sec \<in> set (sections q). sec_wf sec \<and> sec_type sec \<noteq> ''''"
    using assms(1,3) parseOffer_sections_wf [OF assms(1)]
    by (auto simp: parseOffer_def split: prod.splits sum.splits)
  have "generateAnswer offer p g = (Inr (?ans, q), g1)" using assms(1) by (simp add: generateAnswer_def)
  moreover obtain g2 where "offer_loop (getlines ?ans) (parser_new\<lparr>sections := []\<rparr>) g1
      = (Inr ((with_creds q parser_new)\<lparr>sections := map answered (sections q)\<rparr>), g2)"
    using answer_lines_read [OF secs(2,1), of "parser_new\<lparr>sections := []\<rparr>" g1]
    unfolding answer_text_lines [OF assms(1,2)] by (auto simp: with_creds_def)
  ultimately show ?thesis
    using secs(1) parseOffer_server [OF assms(1)]
    by (auto simp: parseOffer_def with_creds_def server_of_def parser_new_def or_default_def)
qed

text \<open>An offer that sends audio and asks for video.\<close>

definition sample_offer :: string where
  "sample_offer = concat (map (\<lambda>l. l @ crlf)
     [''v=0'', ''m=audio 9 UDP/TLS/RTP/SAVPF 111'', ''a=mid:0'', ''a=ice-ufrag:abcd'',
      ''a=fingerprint:sha-256 AA'', ''a=sendonly'', ''a=rtpmap:111 opus/48000'',
      ''m=video 9 UDP/TLS/RTP/SAVPF 96'', ''a=mid:1'', ''a=recvonly'', ''a=rtpmap:96 VP8/90000''])"

definition sample_parser :: sdp_parser where
  "sample_parser = parser_new\<lparr>midSsrc := [''1'' \<mapsto> 0x40000000]\<rparr>"

definition accepts_sample :: "(int_error + bool \<times> sdp_parser) \<times> sdp_globals \<Rightarrow> bool" where
  "accepts_sample r = (case r of (Inl e, g) \<Rightarrow> False
     | (Inr (ok, q), g) \<Rightarrow> ok \<and> list_all (\<lambda>sec. sec_type sec \<noteq> '''') (sections q)
         \<and> map offer_direction (sections q) = [''sendonly'', ''recvonly'']
         \<and> map sec_type (sections q) = [''audio'', ''video'']
         \<and> map sec_mid (sections q) = [''0'', ''1'']
         \<and> map sec_ptList (sections q) = [''111'', ''96''])"

lemma sample_accepted: "accepts_sample (parseOffer sample_offer sample_parser globals_init)"
  by code_simp

lemma sample_parsed:
  obtains q g where "parseOffer sample_offer sample_parser globals_init = (Inr (True, q), g)"
    "\<forall>sec \<in> set (sections q). sec_type sec \<noteq> ''''"
    "map offer_direction (sections q) = [''sendonly'', ''recvonly'']"
    "map sec_type (sections q) = [''audio'', ''video'']"
    "map sec_mid (sections q) = [''0'', ''1'']" "map sec_ptList (sections q) = [''111'', ''96'']"
  using sample_accepted
  by (auto simp: accepts_sample_def list_all_iff split: prod.splits sum.splits bool.splits)

lemma parse_registers_payload_types_example:
  "\<exists>q g. parseOffer sample_offer sample_parser globals_init = (Inr (True, q), g) \<and>
     g_videoPTs g = section_pts ''video'' (sections q) \<and> g_audioPTs g = section_pts ''audio'' (sections q)"
proof -
  obtain q g where "parseOffer sample_offer sample_parser globals_init = (Inr (True, q), g)"
    by (rule sample_parsed)
  with parse_registers_payload_types [OF this] show ?thesis by (auto simp: globals_init_def)
qed

theorem answer_read_back_witness:
  "\<exists>q g ans p' g'. generateAnswer sample_offer sample_parser globals_init = (Inr (ans, q), g) \<and>
     parseOffer ans parser_new g = (Inr (True, p'), g') \<and>
     map sec_mid (sections p') = [''0'', ''1''] \<and>
     map sec_direction (sections p') = [''recvonly'', ''sendonly''] \<and> sdp_iceUfrag p' = ''sfu_default''"
proof -
  obtain q g where q: "parseOffer sample_offer sample_parser globals_init = (Inr (True, q), g)"
    "\<forall>sec \<in> set (sections q). sec_type sec \<noteq> ''''"
    "map offer_direction (sections q) = [''sendonly'', ''recvonly'']"
    "map sec_mid (sections q) = [''0'', ''1'']"
    by (rule sample_parsed)
  have "server_ok sample_parser" by (simp add: server_ok_def sample_parser_def parser_new_def)
  from answer_read_back [OF q(1) this q(2)] obtain ans g2 where
    a: "generateAnswer sample_offer sample_parser globals_init = (Inr (ans, q), g)"
    "parseOffer ans parser_new g = (Inr (True, parser_new\<lparr>sections := map answered (sections q),
       sdp_iceUfrag := or_default (serverUfrag sample_parser) ''sfu_default'',
       sdp_icePwd := or_default (serverPwd sample_parser) ''default_pwd'',
       sdp_fingerprint := or_default (serverFingerprint sample_parser) ''00:00:00:00:00''\<rparr>), g2)"
    by blast
  have "map (\<lambda>sec. answer_direction (offer_direction sec)) (sections q)
      = map answer_direction (map offer_direction (sections q))" by simp
  then have "map (sec_direction \<circ> answered) (sections q) = [''recvonly'', ''sendonly'']"
    using q(3) by (simp add: answered_def answer_direction_def comp_def)
  moreover have "map (sec_mid \<circ> answered) (sections q) = [''0'', ''1'']"
    using q(4) by (simp add: answered_def comp_def)
  ultimately show ?thesis
    using a by (auto simp: or_default_def sample_parser_def parser_new_def)
qed

lemma codec_not_ssrc: "codec_ok ty l \<Longrightarrow> \<not> prefix ''a=ssrc:'' l"
  by (auto simp: codec_ok_def prefix_def)

lemma prefix_with_cr: "prefix ''a=ssrc:'' (with_cr l) \<longleftrightarrow> prefix ''a=ssrc:'' l"
  by (auto simp: with_cr_def)

lemma ssrc_of_section:
  assumes "sec_wf sec"
  shows "filter (prefix ''a=ssrc:'') (answer_section q sec) = section_ssrc q sec"
proof -
  have dir: "\<not> prefix ''ssrc:'' (answer_direction d)" for d
    by (simp add: answer_direction_def)
  have "filter (prefix ''a=ssrc:'') (section_head q sec) = []"
    by (simp add: section_head_def dir)
  moreover have "filter (prefix ''a=ssrc:'') (sec_codecLines sec) = []"
    using assms codec_not_ssrc by (auto simp: sec_wf_def filter_empty_conv)
  moreover have "\<forall>l \<in> set (ssrc_lines ssrc). prefix ''a=ssrc:'' l" for ssrc
    by (simp add: ssrc_lines_def Let_def)
  then have "filter (prefix ''a=ssrc:'') (section_ssrc q sec) = section_ssrc q sec"
    using section_ssrc_lines by (intro filter_True) blast
  ultimately show ?thesis by (simp add: answer_section_def)
qed

text \<open>
  An answer announces a server SSRC for exactly those sections that only want to receive and
  whose mid is bound, in the order of the offer: the \<open>a=ssrc\<close> lines of the text are the four
  lines of each such section and nothing else.
\<close>

lemma answer_ssrc_lines:
  assumes "generateAnswer offer p g = (Inr (ans, q), g1)" "ans \<noteq> ''''" "server_ok p"
  shows "filter (prefix ''a=ssrc:'') (getlines ans) =
    concat (map (\<lambda>sec. if offer_direction sec = ''recvonly''
        then (case midSsrc p (sec_mid sec) of None \<Rightarrow> [] | Some ssrc \<Rightarrow> map with_cr (ssrc_lines ssrc))
        else []) (sections q))"
proof -
  obtain ok where q: "parseOffer offer p g = (Inr (ok, q), g1)"
    and ans: "ans = (if ok then concat (map (\<lambda>l. l @ crlf) (answer_lines q)) else '''')"
    using assms(1) by (auto simp: generateAnswer_def split: prod.splits sum.splits)
  have m: "midSsrc q = midSsrc p" using parseOffer_server [OF q] by (simp add: server_of_def)
  have "filter (prefix ''a=ssrc:'') (answer_header q) = []"
    by (simp add: answer_header_def)
  moreover have "filter (prefix ''a=ssrc:'') (concat (map (answer_section q) ss)) = concat (map (section_ssrc q) ss)"
    if "\<forall>sec \<in> set ss. sec_wf sec" for ss
    using that by (induction ss) (simp_all add: ssrc_of_section)
  ultimately have "filter (prefix ''a=ssrc:'') (answer_lines q) = concat (map (section_ssrc q) (sections q))"
    using parseOffer_sections_wf [OF q] by (simp add: answer_lines_def)
  moreover have "getlines ans = map with_cr (answer_lines q)"
    using answer_text_lines [OF q assms(3)] ans assms(2) by (simp split: if_splits)
  ultimately show ?thesis
    by (simp add: filter_map prefix_with_cr comp_def map_concat section_ssrc_def m
        if_distrib option.case_distrib [of "map with_cr"] cong: if_cong option.case_cong)
qed

section \<open>Failure\<close>

text \<open>What precedes the first blank.\<close>

definition first_word :: "string \<Rightarrow> string" where
  "first_word s = takeWhile (\<lambda>c. c \<noteq> CHR '' '') s"

lemma rtpmap_line_throws:
  assumes "rtpmap_line line p g = Inl e"
  shows "stoi (first_word (drop 9 line)) = Inl e"
proof -
  define rv where "rv = drop 9 line"
  have pt: "fst (case split_blank rv of None \<Rightarrow> (rv, '''') | Some x \<Rightarrow> x) = first_word rv"
  proof (cases "CHR '' '' \<in> set rv")
    case True
    then show ?thesis by (simp add: split_blank_def first_word_def)
  next
    case False
    then have "first_word rv = rv" unfolding first_word_def takeWhile_eq_all_conv by blast
    with False show ?thesis by (simp add: split_blank_def)
  qed
  obtain pt' codec where x: "(case split_blank rv of None \<Rightarrow> (rv, '''') | Some x \<Rightarrow> x) = (pt', codec)"
    by fastforce
  have "stoi pt' = Inl e"
    using assms unfolding rtpmap_line_def rv_def [symmetric] Let_def x
    by (auto split: if_splits sum.splits)
  then show ?thesis using pt x by (simp add: rv_def)
qed

lemma offer_line_throws:
  assumes "offer_line line p g = (Inl e, g')"
  shows "prefix ''a=rtpmap:'' line \<and> stoi (first_word (drop 9 line)) = Inl e"
proof -
  have "section_line line p g = (Inl e, g')"
    using assms unfolding offer_line_def
    by (simp only: Let_def prod.inject sum.distinct simp_thms split: if_split_asm)
  then have "prefix ''a=rtpmap:'' line \<and> (case rtpmap_line line p g of
      Inl e \<Rightarrow> (Inl e, g) | Inr g1 \<Rightarrow> (Inr (add_codec line p), g1)) = (Inl e, g')"
    unfolding section_line_def
    by (simp only: prod.inject sum.distinct simp_thms split: if_split_asm)
  then show ?thesis using rtpmap_line_throws by (auto split: sum.splits)
qed

lemma offer_loop_throws:
  "offer_loop ls p g = (Inl e, g') \<Longrightarrow> \<exists>raw \<in> set ls. \<exists>line. clean_line raw = Some line \<and>
     prefix ''a=rtpmap:'' line \<and> stoi (first_word (drop 9 line)) = Inl e"
proof (induction ls arbitrary: p g)
  case (Cons raw ls)
  show ?case
  proof (cases "clean_line raw")
    case None
    then show ?thesis using Cons by auto
  next
    case (Some line)
    obtain r g1 where l: "offer_line line p g = (r, g1)" by fastforce
    show ?thesis
    proof (cases r)
      case (Inl e')
      then show ?thesis using Some l Cons.prems offer_line_throws by auto
    next
      case (Inr p1)
      then show ?thesis using Some l Cons by auto
    qed
  qed
qed simp

text \<open>
  The only exception that leaves the parser is that of \<open>std::stoi\<close>: the offer then
  contains an \<open>a=rtpmap\<close> line whose payload type is not a decimal number of the range of
  \<open>int\<close>, and the exception is the one of that number.
\<close>

lemma parse_throws_on_payload_type:
  assumes "parseOffer sdp p g = (Inl e, g')"
  shows "\<exists>raw \<in> set (getlines sdp). \<exists>line. clean_line raw = Some line \<and>
    prefix ''a=rtpmap:'' line \<and> stoi (first_word (drop 9 line)) = Inl e"
proof -
  have "offer_loop (getlines sdp) (p\<lparr>sections := []\<rparr>) g = (Inl e, g')"
    using assms by (auto simp: parseOffer_def split: prod.splits sum.splits)
  then show ?thesis by (rule offer_loop_throws)
qed

definition bad_offer :: string where
  "bad_offer = concat (map (\<lambda>l. l @ crlf)
     [''m=video 9 UDP/TLS/RTP/SAVPF 96'', ''a=rtpmap:x VP8/90000''])"

lemma parse_throws_on_payload_type_example:
  "fst (parseOffer bad_offer parser_new globals_init) = Inl Invalid_argument \<and>
   (\<exists>raw \<in> set (getlines bad_offer). \<exists>line. clean_line raw = Some line \<and> prefix ''a=rtpmap:'' line)"
proof -
  have "case parseOffer bad_offer parser_new globals_init of
      (Inl e, g) \<Rightarrow> e = Invalid_argument | (Inr r, g) \<Rightarrow> False"
    by code_simp
  then obtain g where bad: "parseOffer bad_offer parser_new globals_init = (Inl Invalid_argument, g)"
    by (auto split: prod.splits sum.splits)
  from parse_throws_on_payload_type [OF this] bad show ?thesis by auto
qed

end
