(* ===== verification/ServerProps.thy ===== *)
theory ServerProps
  imports ServerEvents RouterProps SdpProps
begin

text \<open>
  What the server guarantees, from its start and for every order of events, and the
  sequences of calls that break it.
\<close>

section \<open>A concrete server\<close>

definition sample_env :: "(srtp_policy, unit) env" where
  "sample_env = \<lparr>srtpL = zero_tag_lib, dtlsL = one_shot_lib, stunL = toy_stun_lib, beginOf = (\<lambda>_. 0),
     certFingerprint = cert_fingerprint (replicate 32 0), envPublicIp = None, cfgPublicIp = ''''\<rparr>"

definition sample_server :: "(srtp_policy, unit) server" where
  "sample_server = setupComponents (\<lambda>_. 0) 0 (\<lambda>_. 0)"

lemma sample_env_sizes: "libsrtp_sizes (srtpL sample_env)"
  by (simp add: sample_env_def zero_tag_lib_sizes)

lemma sample_server_simps:
  "peers sample_server = Map.empty" "conss sample_server = Map.empty" "nextAddr sample_server = 0"
  "pendingPeers sample_server = []" "peerMap sample_server = []" "svcPeers sample_server = []"
  "svc_router sample_server" "receiving sample_server" "allPeers sample_server = []" "ssrcGen sample_server = (\<lambda>_. 0)"
  "statics sample_server = globals_init" "prods sample_server = Map.empty" "pr_router sample_server"
  by (simp_all add: sample_server_def setupComponents_def server_new_def setPacketRouter_def Let_def
      setServiceIce_def setServiceRouter_def startReceive_def setRouter_def setIceServer_def sfu.defs sfu_init_def)

lemma sample_server_inv: "server_inv sample_server"
  unfolding sample_server_def by (rule server_inv_init)

section \<open>No undefined behaviour\<close>

text \<open>
  C1. From the start on, whatever datagrams arrive and whatever calls the signalling service
  makes, in any order, the server never reads or writes outside a buffer and never follows
  a pointer to a destroyed peer, producer or consumer, provided each event is expected: no
  participant sends RTP with SSRC 0 or a receiver report in the name of the server, and no
  peer is added again while a subscribed peer of the same id waits for its endpoint.
\<close>

theorem server_never_undefined:
  assumes "reachable (run_event e) (admissible e) (setupComponents iceGen pos gen) s"
    and "libsrtp_sizes (srtpL e)" "event_ok e ev s"
  shows "\<exists>t. run_event e ev s = Some t \<and> server_inv t"
  using sfu_server.progress [OF assms(1) server_inv_init, of ev] assms(2,3)
  by (auto simp: admissible_def runs_def)

theorem server_never_undefined_witness:
  "\<exists>t. run_event sample_env (Add_peer ''alice'') sample_server = Some t \<and> server_inv t"
proof (rule server_never_undefined [OF _ sample_env_sizes])
  show "reachable (run_event sample_env) (admissible sample_env) (setupComponents (\<lambda>_. 0) 0 (\<lambda>_. 0)) sample_server"
    unfolding sample_server_def by (rule reachable.start)
  show "event_ok sample_env (Add_peer ''alice'') sample_server"
    by (simp add: sample_server_simps)
qed

section \<open>What AddPeer can destroy\<close>

lemma added_keeps_consumer:
  assumes inv: "server_inv s" and c: "conss s c = Some cc" "c_subscriber cc = Some a"
    and a: "map_of (pendingPeers s) k \<noteq> Some a"
  shows "conss (added k s) c = Some cc"
proof (cases "map_of (pendingPeers s) k")
  case None
  then show ?thesis using c by (simp add: added_def)
next
  case (Some b)
  have "c \<notin> set (consumers p)" if "peers s b = Some p" for p
    using inv_peersD(4) [of s b p c] that inv c a Some by (auto simp: server_inv_def)
  then show ?thesis
    using replaced_not_registered(3,4) [OF inv Some] c Some
    by (auto simp: added_def destroy_peer_def free_def Let_def)
qed

text \<open>The search of \<open>bindConsumerByMid\<close> follows the publisher of the first consumer of that kind.\<close>

lemma bind_dangling:
  assumes "peers s a = Some p" "consumers p = c # cs" "conss s c = Some cc"
    "c_publisher cc = Some b" "peers s b = None" "c_isVideo cc = v"
  shows "bindConsumerByMid a pid v mid s = None"
  using assms by (simp add: bindConsumerByMid_def)

text \<open>
  C9. The proviso on \<open>AddPeer\<close> is needed. Adding a peer again while its first object waits
  for an endpoint replaces that object and destroys it, although the consumers subscribed
  to it still name it as their publisher; then the next offer of a subscriber follows the
  dangling pointer. Removing the peer before it is added again does not help, for it stays
  among the waiting peers and in its subscribers' consumers.
\<close>

theorem readded_peer_use_after_free:
  assumes inv: "server_inv s" and router: "svc_router s" and b: "map_of (pendingPeers s) k = Some b"
    and j: "findPeer j s = Some a" "j \<noteq> k" "peers s a = Some p" "consumers p = c # cs"
    and c: "conss s c = Some cc" "c_publisher cc = Some b" "c_isVideo cc = rm_isVideo rm"
  shows "\<exists>t. run_event e (Add_peer k) s = Some t \<and> run_event e (Send_offer j sdp (rm # rms)) t = None"
proof -
  let ?t = "added k s"
  have r: "router_inv s" using inv by (simp add: server_inv_def)
  obtain pb where pb: "peers s b = Some pb" "peerId pb = k"
    using ids_invD(1) [of s "(k, b)"] inv b by (auto simp: server_inv_def map_of_SomeD)
  then have ab: "a \<noteq> b" using registered_live [OF inv j(1)] j(2) by auto
  have a: "peers ?t a = Some p" using added_peers(2) [OF inv, of a k] j(3) ab b by simp
  have dead: "peers ?t b = None"
    using added_dom [OF inv, of k] b replaced_not_registered(3) [OF inv b] by (auto simp: dom_def)
  have "c_subscriber cc = Some a" using inv_peersD(4) [OF r j(3), of c] j(4) c(1) by auto
  then have c': "conss ?t c = Some cc" using added_keeps_consumer [OF inv c(1)] b ab by simp
  have "bind_recv_mid a rm (Map.empty, ?t) = None"
    using bind_dangling [OF a j(4) c' c(2) dead c(3)] by (simp add: bind_recv_mid_def)
  moreover have "findPeer j ?t = Some a" using j(1,2) by (simp add: findPeer_def update_conv')
  ultimately have "SendOffer e j sdp (rm # rms) ?t = None"
    using router by (simp add: SendOffer_def offer_bindings_def)
  then show ?thesis using AddPeer_eq [OF inv, of e k] by simp
qed

text \<open>Bob subscribes to Alice's video; neither has connected yet.\<close>

definition bob_waits :: "(srtp_policy, unit) server" where
  "bob_waits = snd (the (AddConsumer ''bob'' ''alice'' True (added ''bob'' (added ''alice'' sample_server))))"

lemma added_fresh:
  assumes "map_of (pendingPeers s) k = None"
  shows "added k s = with_new_peer k s" "nextAddr (added k s) = Suc (nextAddr s)"
    "ssrcGen (added k s) = ssrcGen s"
  using assms by (simp_all add: added_def with_new_peer_def alloc_peer_def)

lemma bob_waits:
  "AddConsumer ''bob'' ''alice'' True (added ''bob'' (added ''alice'' sample_server)) = Some (Inr 0x40000000, bob_waits)"
  "server_inv bob_waits" "svc_router bob_waits" "pendingPeers bob_waits = [(''alice'', 0), (''bob'', 1)]"
  "findPeer ''bob'' bob_waits = Some 1" "peers bob_waits 1 = Some (new_peer\<lparr>peerId := ''bob'', consumers := [2]\<rparr>)"
  "conss bob_waits 2 = Some (new_consumer 1 0 True 0x40000000)"
  "peers bob_waits 0 = Some (new_peer\<lparr>peerId := ''alice''\<rparr>)" "statics bob_waits = globals_init"
  "prods bob_waits = Map.empty" "allPeers bob_waits = [1, 0]" "nextAddr bob_waits = 3" "pr_router bob_waits"
  "findPeer ''alice'' bob_waits = Some 0"
proof -
  let ?s1 = "added ''alice'' sample_server"
  let ?s = "added ''bob'' ?s1"
  have i1: "server_inv ?s1" by (rule added_inv [OF sample_server_inv]) (simp add: sample_server_simps)
  have i: "server_inv ?s" by (rule added_inv [OF i1]) (simp add: sample_server_simps)
  note s1 = added_fresh [of sample_server "''alice''", unfolded sample_server_simps, simplified]
  have "map_of (pendingPeers ?s1) ''bob'' = None" by (simp add: sample_server_simps)
  note s = added_fresh [OF this]
  have p: "peers ?s 0 = Some (new_peer\<lparr>peerId := ''alice''\<rparr>)" "peers ?s 1 = Some (new_peer\<lparr>peerId := ''bob''\<rparr>)"
    using s s1 by (simp_all add: sample_server_simps)
  have eq: "addConsumer 1 0 True ?s = Some (0x40000000, install_consumer 1 0 True 0x40000000 None 0 ?s)"
    using addConsumer_eq [of ?s, OF _ p(2,1), of True] i s s1
    by (simp add: server_inv_def matching_producer_def source_ssrc_def p new_peer_def sample_server_simps uniform_ssrc_0)
  have reg: "findPeer ''bob'' ?s = Some 1" "findPeer ''alice'' ?s = Some 0" "svc_router ?s"
    using s1 by (simp_all add: findPeer_def sample_server_simps)
  show call: "AddConsumer ''bob'' ''alice'' True ?s = Some (Inr 0x40000000, bob_waits)"
    and st: "server_inv bob_waits"
    using eq reg AddConsumer_runs [OF i, of "''bob''" "''alice''" True] by (simp_all add: bob_waits_def AddConsumer_def)
  have b: "bob_waits = install_consumer 1 0 True 0x40000000 None 0 ?s"
    using eq reg by (simp add: bob_waits_def AddConsumer_def)
  show "svc_router bob_waits" "pendingPeers bob_waits = [(''alice'', 0), (''bob'', 1)]"
    "findPeer ''bob'' bob_waits = Some 1" "peers bob_waits 1 = Some (new_peer\<lparr>peerId := ''bob'', consumers := [2]\<rparr>)"
    "conss bob_waits 2 = Some (new_consumer 1 0 True 0x40000000)"
    "peers bob_waits 0 = Some (new_peer\<lparr>peerId := ''alice''\<rparr>)" "statics bob_waits = globals_init"
    "prods bob_waits = Map.empty" "allPeers bob_waits = [1, 0]" "nextAddr bob_waits = 3" "pr_router bob_waits"
    "findPeer ''alice'' bob_waits = Some 0"
    using reg p s s1
    by (simp_all add: b install_consumer_def Let_def sample_server_simps findPeer_def new_peer_def new_consumer_def
        with_new_peer_def alloc_peer_def registerPeer_def)
qed

theorem readded_peer_use_after_free_witness:
  "\<exists>t. run_event sample_env (Add_peer ''alice'') bob_waits = Some t \<and>
     run_event sample_env (Send_offer ''bob'' '''' [\<lparr>rm_publisher = ''alice'', rm_isVideo = True, rm_mid = ''1''\<rparr>]) t = None"
  by (rule readded_peer_use_after_free [OF bob_waits(2,3) _ bob_waits(5) _ bob_waits(6) _ bob_waits(7)])
    (simp_all add: bob_waits(4) new_consumer_def)

section \<open>Peers and endpoints\<close>

lemma reachable_server_inv:
  "reachable (run_event e) (admissible e) (setupComponents ig pos gen) s \<Longrightarrow> server_inv s"
  by (rule sfu_server.reachable_inv [OF _ server_inv_init])

text \<open>
  C14. In every reachable state an endpoint identifies its peer: the peer bound to it is alive,
  sends there and is bound to no other endpoint, it waits for none, its DTLS session answers
  to that endpoint, and it has SRTP keys only if its handshake is done.
\<close>

theorem endpoints_identify_peers:
  assumes reach: "reachable (run_event e) (admissible e) (setupComponents ig pos gen) s"
    and bound: "map_of (peerMap s) ep = Some a"
  shows "\<exists>p. peers s a = Some p \<and> remoteEp p = ep \<and> {ep'. (ep', a) \<in> set (peerMap s)} = {ep} \<and>
    a \<notin> snd ` set (pendingPeers s) \<and>
    (case dtls p of None \<Rightarrow> srtp p = None
     | Some c \<Rightarrow> dtls_sendCb c = Some ep \<and> (srtp p = None \<or> handshakeDone c))"
proof -
  have inv: "server_inv s" using reach by (rule reachable_server_inv)
  have ep: "(ep, a) \<in> set (peerMap s)" using bound by (rule map_of_SomeD)
  obtain p where p: "peers s a = Some p" "remoteEp p = ep" "ready p"
    "\<forall>c. dtls p = Some c \<longrightarrow> dtls_sendCb c = Some ep"
    using ids_invD(2) [of s "(ep, a)"] inv ep by (auto simp: server_inv_def)
  have "{ep'. (ep', a) \<in> set (peerMap s)} = {ep}"
    using bound_once(1) [of s _ ep a] ep inv by (auto simp: server_inv_def)
  moreover have "a \<notin> snd ` set (pendingPeers s)" using bound_not_pending [OF inv ep] by blast
  ultimately show ?thesis
    using p by (intro exI [of _ p]) (auto simp: ready_def split: option.split)
qed

text \<open>A first datagram from a new endpoint, too short to be a packet of any protocol.\<close>

definition stray :: event where
  "stray = Datagram [128] \<lparr>ep_addr = 1, ep_port = 2\<rparr>"

lemma classify_stray: "classify [128] = Srtp"
  by (simp add: classify_def)

lemma onPacket_no_keys:
  assumes "classify data = Srtp" "data \<noteq> []" "getOrCreatePeer e ep s = Some (a, s1)"
    "peers s1 a = Some p" "srtp p = None"
  shows "onPacket e data ep s = Some s1"
  using assms by (simp add: onPacket_def handleSrtp_def Suc_le_eq)

lemma handed_over_no_keys:
  assumes "getOrCreatePeer e ep s = Some (a, s1)" "peers s1 a = Some p" "srtp p = None"
  shows "handed_over e data ep s = None"
  using assms by (simp add: handed_over_def)

lemma stray_ok:
  assumes inv: "server_inv s" and new: "map_of (peerMap s) \<lparr>ep_addr = 1, ep_port = 2\<rparr> = None"
    and one: "pendingPeers s = [(k, a)]"
  shows "event_ok e stray s"
proof -
  obtain p where p: "peers s a = Some p" "dtls p = None" "ready p"
    using ids_invD(1) [of s "(k, a)"] inv one by (auto simp: server_inv_def)
  then show ?thesis
    using one new by (simp add: stray_def datagram_ok_def handed_over_def getOrCreatePeer_def take_begin_def ready_def)
qed

text \<open>
  C17. An endpoint is bound to a waiting peer before it has proved anything: one unauthenticated
  datagram from anywhere, a single byte is enough, takes the place of the participant that was
  announced, and when that one connects it becomes a new peer without a name, which no call
  of the signalling service can reach.
\<close>

theorem stray_datagram_takes_peer:
  assumes inv: "server_inv s" and data: "classify data = Srtp" "data \<noteq> []"
    and new: "map_of (peerMap s) ep = None" and one: "pendingPeers s = [(k, a)]"
    and other: "map_of (peerMap s) ep' = None" "ep' \<noteq> ep"
  shows "\<exists>t. onPacket e data ep s = Some t \<and> map_of (peerMap t) ep = Some a \<and>
    (\<exists>b u q. getOrCreatePeer e ep' t = Some (b, u) \<and> b \<noteq> a \<and> peers u b = Some q \<and> peerId q = '''' \<and>
      b \<notin> snd ` set (svcPeers u))"
proof -
  obtain p where p: "peers s a = Some p" "dtls p = None" "ready p"
    using ids_invD(1) [of s "(k, a)"] inv one by (auto simp: server_inv_def)
  let ?t = "bind_endpoint ep a p (s\<lparr>pendingPeers := []\<rparr>)"
  have t: "getOrCreatePeer e ep s = Some (a, ?t)"
    using getOrCreatePeer_pending [OF new, of e "(k, a)" "[]"] p(1) one by (simp add: take_begin_def)
  have pkt: "onPacket e data ep s = Some ?t"
    by (rule onPacket_no_keys [OF data t, of "p\<lparr>remoteEp := ep\<rparr>"])
      (use p in \<open>simp_all add: bind_endpoint_def ready_def\<close>)
  have free: "peers s (nextAddr s) = None" using inv inv_freshD(1) [of s "nextAddr s"] by (simp add: server_inv_def)
  have fresh: "nextAddr s \<notin> snd ` set (svcPeers s)"
    using fresh_not_owned(2) [OF _ free] inv by (simp add: server_inv_def)
  have "getOrCreatePeer e ep' ?t = Some (nextAddr s, bind_endpoint ep' (nextAddr s) new_peer (alloc_peer new_peer ?t))"
    using getOrCreatePeer_new [of ?t ep' e] other by (simp add: bind_endpoint_def)
  moreover have "map_of (peerMap ?t) ep = Some a" using new by (simp add: bind_endpoint_def map_add_def)
  ultimately show ?thesis
    using pkt fresh free p(1) by (fastforce simp: bind_endpoint_def alloc_peer_def new_peer_def)
qed

text \<open>Alice is announced; then the stray datagram arrives.\<close>

definition alice_waits :: "(srtp_policy, unit) server" where
  "alice_waits = added ''alice'' sample_server"

lemma alice_waits:
  "server_inv alice_waits" "peerMap alice_waits = []" "pendingPeers alice_waits = [(''alice'', 0)]"
  "receiving alice_waits"
  "reachable (run_event sample_env) (admissible sample_env) (setupComponents (\<lambda>_. 0) 0 (\<lambda>_. 0)) alice_waits"
proof -
  show "server_inv alice_waits"
    unfolding alice_waits_def by (rule added_inv [OF sample_server_inv]) (simp add: sample_server_simps)
  show "peerMap alice_waits = []" "pendingPeers alice_waits = [(''alice'', 0)]"
    by (simp_all add: alice_waits_def sample_server_simps)
  show "receiving alice_waits"
    by (simp add: alice_waits_def added_fresh with_new_peer_def alloc_peer_def sample_server_simps)
  show "reachable (run_event sample_env) (admissible sample_env) (setupComponents (\<lambda>_. 0) 0 (\<lambda>_. 0)) alice_waits"
    unfolding alice_waits_def sample_server_def [symmetric]
    by (rule reachable.event [OF reachable.start, where ev = "Add_peer ''alice''"])
      (simp_all add: admissible_def sample_env_sizes AddPeer_eq [OF sample_server_inv] sample_server_simps)
qed

theorem stray_datagram_takes_peer_witness:
  "\<exists>t b u q. onPacket sample_env [128] \<lparr>ep_addr = 1, ep_port = 2\<rparr> alice_waits = Some t \<and>
     map_of (peerMap t) \<lparr>ep_addr = 1, ep_port = 2\<rparr> = Some 0 \<and>
     getOrCreatePeer sample_env \<lparr>ep_addr = 7, ep_port = 8\<rparr> t = Some (b, u) \<and> peers u b = Some q \<and> peerId q = ''''"
  using stray_datagram_takes_peer [OF alice_waits(1) classify_stray, of "\<lparr>ep_addr = 1, ep_port = 2\<rparr>"
      "''alice''" 0 "\<lparr>ep_addr = 7, ep_port = 8\<rparr>" sample_env] alice_waits(2,3)
  by auto

text \<open>The state after the stray datagram.\<close>

definition after_stray :: "(srtp_policy, unit) server" where
  "after_stray = the (run_event sample_env stray alice_waits)"

lemma after_stray:
  "run_event sample_env stray alice_waits = Some after_stray"
  "map_of (peerMap after_stray) \<lparr>ep_addr = 1, ep_port = 2\<rparr> = Some 0"
  "reachable (run_event sample_env) (admissible sample_env) (setupComponents (\<lambda>_. 0) 0 (\<lambda>_. 0)) after_stray"
proof -
  have ok: "admissible sample_env stray alice_waits"
    unfolding admissible_def by (intro conjI sample_env_sizes stray_ok [OF alice_waits(1) _ alice_waits(3)])
      (simp add: alice_waits(2))
  show run: "run_event sample_env stray alice_waits = Some after_stray"
    using run_event_runs [OF alice_waits(1) ok] by (auto simp: after_stray_def runs_def)
  show "reachable (run_event sample_env) (admissible sample_env) (setupComponents (\<lambda>_. 0) 0 (\<lambda>_. 0)) after_stray"
    by (rule reachable.event [OF alice_waits(5) ok run])
  obtain p where p: "peers alice_waits 0 = Some p" "dtls p = None" "ready p"
    using ids_invD(1) [of alice_waits "(''alice'', 0)"] alice_waits(1,3) by (auto simp: server_inv_def)
  then have "\<exists>t. run_event sample_env stray alice_waits = Some t \<and>
      map_of (peerMap t) \<lparr>ep_addr = 1, ep_port = 2\<rparr> = Some 0"
    using alice_waits(2-4)
    by (auto simp: stray_def onReceive_def onPacket_def classify_stray handleSrtp_def getOrCreatePeer_def
        take_begin_def ready_def startReceive_def)
  then show "map_of (peerMap after_stray) \<lparr>ep_addr = 1, ep_port = 2\<rparr> = Some 0" using run by auto
qed

theorem endpoints_identify_peers_witness:
  "\<exists>p. peers after_stray 0 = Some p \<and> remoteEp p = \<lparr>ep_addr = 1, ep_port = 2\<rparr> \<and>
     0 \<notin> snd ` set (pendingPeers after_stray)"
  using endpoints_identify_peers [OF after_stray(3,2)] by auto

section \<open>No media before the handshake\<close>

text \<open>
  In every reachable state a media datagram from an endpoint whose DTLS handshake is not
  done is dropped: nothing is sent, no producer or consumer is created or changed and no
  SSRC is routed, whatever its bytes are.
\<close>

lemma media_dropped:
  assumes reach: "reachable (run_event e) (admissible e) (setupComponents ig pos gen) s"
    and data: "classify data = Srtp"
    and early: "\<not> (\<exists>a p c. map_of (peerMap s) ep = Some a \<and> peers s a = Some p \<and> dtls p = Some c \<and> handshakeDone c)"
  shows "\<exists>t. onPacket e data ep s = Some t \<and> sent t = sent s \<and> prods t = prods s \<and> conss t = conss s \<and>
    routes t = routes s \<and> outSsrcToConsumer t = outSsrcToConsumer s"
proof (cases "data = []")
  case True
  then show ?thesis by (simp add: onPacket_def)
next
  case False
  have inv: "server_inv s" using reach by (rule reachable_server_inv)
  obtain a t where t: "getOrCreatePeer e ep s = Some (a, t)" "server_inv t" "(ep, a) \<in> set (peerMap t)" "quiet s t"
    using getOrCreatePeer_runs [OF inv, of e ep] by (auto simp: runs_def)
  obtain p where p: "peers t a = Some p" "ready p"
    using ids_invD(2) [of t "(ep, a)"] t(2,3) by (auto simp: server_inv_def)
  have "srtp p = None"
  proof (cases "map_of (peerMap s) ep")
    case None
    show ?thesis
    proof (cases "pendingPeers s = []")
      case True
      then show ?thesis using t(1) p(1) getOrCreatePeer_new [OF None True, of e]
        by (auto simp: bind_endpoint_def new_peer_def)
    next
      case nonempty: False
      obtain x rest where tb: "take_begin (beginOf e) (pendingPeers s) = (x, rest)" by fastforce
      have "x \<in> set (pendingPeers s)" using take_begin_perm [OF nonempty tb] by (metis set_mset_mset union_single_eq_member)
      then obtain q where q: "peers s (snd x) = Some q" "dtls q = None" "ready q"
        using ids_invD(1) [of s x] inv by (auto simp: server_inv_def)
      then show ?thesis
        using t(1) p(1) getOrCreatePeer_pending [OF None nonempty tb q(1)] by (auto simp: bind_endpoint_def ready_def)
    qed
  next
    case (Some b)
    then show ?thesis using early t(1) p by (auto simp: getOrCreatePeer_known ready_def)
  qed
  then have "onPacket e data ep s = Some t" by (rule onPacket_no_keys [OF data False t(1) p(1)])
  then show ?thesis using t(4) by (simp add: quiet_def)
qed

section \<open>The receive loop\<close>

text \<open>What no call of the signalling service changes.\<close>

definition wire :: "('s, 'd) server \<Rightarrow> datagram list \<times> (endpoint \<times> nat) list \<times> bool" where
  "wire s = (sent s, peerMap s, receiving s)"

lemma wire_destroy: "wire (destroy_peer a s) = wire s"
  by (simp add: wire_def destroy_peer_def split: option.split)

lemma wire_release: "wire (release q s) = wire s"
  by (simp add: release_def wire_destroy split: option.split)

lemma wire_added: "wire (added k s) = wire s"
proof -
  have "wire (with_new_peer k s) = wire s" by (simp add: wire_def with_new_peer_def alloc_peer_def)
  then show ?thesis by (simp add: added_def Let_def wire_destroy split: option.split)
qed

lemma wire_frame: "frame A s t \<Longrightarrow> sent t = sent s \<Longrightarrow> wire t = wire s"
  by (simp add: wire_def frame_eqs)

lemma sent_addConsumer: "addConsumer a b v s = Some (k, t) \<Longrightarrow> sent t = sent s"
  by (auto simp: addConsumer_def insert_consumer_def link_consumer_def Let_def Option.bind_eq_Some_conv split: option.splits)

lemma sent_bindConsumerByMid: "bindConsumerByMid a pid v mid s = Some (k, t) \<Longrightarrow> sent t = sent s"
  by (auto simp: bindConsumerByMid_def Option.bind_eq_Some_conv split: option.splits)

lemma wire_bind_recv_mid:
  assumes "bind_recv_mid a rm x = Some y"
  shows "wire (snd y) = wire (snd x)"
proof -
  obtain k t where t: "bindConsumerByMid a (rm_publisher rm) (rm_isVideo rm) (rm_mid rm) (snd x) = Some (k, t)"
    "snd y = t"
    using assms by (auto simp: bind_recv_mid_def Option.bind_eq_Some_conv)
  then show ?thesis
    using wire_frame [OF bindConsumerByMid_frame [OF t(1)] sent_bindConsumerByMid [OF t(1)]] by simp
qed

lemma wire_offer_bindings:
  fixes s t :: "('s, 'd) server"
  assumes "offer_bindings k rms s = Some (m, t)"
  shows "wire t = wire s"
proof -
  have "wire (snd y) = wire (snd x)" if "foldM (bind_recv_mid a) rms x = Some y"
    for a rms and x y :: "(string \<rightharpoonup> u32) \<times> ('s, 'd) server"
    using that
  proof (induction rms arbitrary: x)
    case (Cons rm rms)
    then show ?case by (auto simp: Option.bind_eq_Some_conv dest: wire_bind_recv_mid)
  qed simp
  then show ?thesis
    using assms by (fastforce simp: offer_bindings_def Option.bind_eq_Some_conv split: option.splits if_splits)
qed

lemma wire_call:
  assumes inv: "server_inv s" and run: "run_event e ev s = Some t"
    and call: "\<And>d ep. ev \<noteq> Datagram d ep" "ev \<noteq> Receive_error"
  shows "wire t = wire s"
proof (cases ev)
  case (Add_peer k)
  then show ?thesis using run AddPeer_eq [OF inv, of e k] wire_added [of k s] by simp
next
  case (Send_offer k sdp rms)
  then obtain m u where u: "offer_bindings k rms s = Some (m, u)"
    using run by (cases "offer_bindings k rms s") (auto simp: SendOffer_def)
  have "wire t = wire u"
    using run u Send_offer by (auto simp: SendOffer_def wire_def split: prod.splits)
  then show ?thesis using wire_offer_bindings [OF u] by simp
next
  case (Add_consumer a b v)
  then show ?thesis
    using run by (auto simp: AddConsumer_def Option.bind_eq_Some_conv split: option.splits if_splits
        intro!: wire_frame [OF addConsumer_frame sent_addConsumer])
next
  case Remove_consumer
  then show ?thesis using run by (simp add: RemoveConsumer_def)
next
  case (Remove_peer k)
  show ?thesis
  proof (cases "findPeer k s")
    case None
    then show ?thesis using run Remove_peer by (simp add: RemovePeer_def)
  next
    case (Some a)
    let ?s = "s\<lparr>svcPeers := AList.delete k (svcPeers s)\<rparr>"
    obtain p where p: "peers ?s a = Some p" using registered_live [OF inv Some] by auto
    have "router_inv ?s" using unregister_inv [OF inv] by (simp add: server_inv_def)
    then have "t = release (Some a) (if svc_router ?s then removed a p ?s else ?s)"
      using run Remove_peer Some removePeer_eq [OF _ p] by (auto simp: RemovePeer_def)
    then show ?thesis by (simp add: wire_release) (simp add: wire_def removed_def)
  qed
qed (use call in auto)

lemma receiving_event:
  assumes "server_inv s" "run_event e ev s = Some t"
  shows "receiving t \<longleftrightarrow> receiving s \<and> ev \<noteq> Receive_error" "\<not> receiving s \<Longrightarrow> wire t = wire s"
proof -
  have "(receiving t \<longleftrightarrow> receiving s \<and> ev \<noteq> Receive_error) \<and> (\<not> receiving s \<longrightarrow> wire t = wire s)"
  proof (cases ev)
    case (Datagram d ep)
    then show ?thesis
      using assms(2) by (auto simp: onReceive_def startReceive_def Option.bind_eq_Some_conv split: if_splits)
  next
    case Receive_error
    then show ?thesis using assms(2) by (auto simp: onReceive_def split: if_splits)
  qed (use wire_call [OF assms] in \<open>simp_all add: wire_def\<close>)
  then show "receiving t \<longleftrightarrow> receiving s \<and> ev \<noteq> Receive_error" "\<not> receiving s \<Longrightarrow> wire t = wire s" by blast+
qed

text \<open>
  C19. As long as no receive fails the server goes on receiving after every event; one receive
  error, of whatever kind, ends that for good: from then on no event makes the server send
  a datagram or bind an endpoint, although it still answers the signalling service.
\<close>

theorem receive_loop_runs_until_error:
  assumes reach: "reachable (run_event e) (admissible e) (setupComponents ig pos gen) s"
    and evs: "expected (run_event e) (admissible e) evs s"
  shows "\<exists>t. foldM (run_event e) evs s = Some t \<and>
    (receiving t \<longleftrightarrow> receiving s \<and> Receive_error \<notin> set evs) \<and>
    (receiving s \<or> sent t = sent s \<and> peerMap t = peerMap s)"
  using reachable_server_inv [OF reach] evs
proof (induction evs arbitrary: s)
  case (Cons ev evs)
  obtain u where u: "run_event e ev s = Some u" "server_inv u"
    using run_event_runs [OF Cons.prems(1), of e ev] Cons.prems(2) by (auto simp: runs_def)
  obtain t where t: "foldM (run_event e) evs u = Some t"
    "receiving t \<longleftrightarrow> receiving u \<and> Receive_error \<notin> set evs"
    "receiving u \<or> sent t = sent u \<and> peerMap t = peerMap u"
    using Cons.IH [OF u(2)] Cons.prems(2) u(1) by auto
  note ev = receiving_event [OF Cons.prems(1) u(1)]
  show ?case using u(1) t ev by (auto simp: wire_def)
qed simp

theorem receive_loop_runs_until_error_witness:
  "\<exists>t. foldM (run_event sample_env) [stray, Receive_error] alice_waits = Some t \<and> \<not> receiving t"
proof -
  have "admissible sample_env stray alice_waits"
    unfolding admissible_def by (intro conjI sample_env_sizes stray_ok [OF alice_waits(1) _ alice_waits(3)])
      (simp add: alice_waits(2))
  then have "expected (run_event sample_env) (admissible sample_env) [stray, Receive_error] alice_waits"
    by (simp add: admissible_def)
  from receive_loop_runs_until_error [OF alice_waits(5) this] show ?thesis by auto
qed

section \<open>Endpoints are never forgotten\<close>

text \<open>The endpoint of a datagram that looks like DTLS or SRTP; a list extended by what is new.\<close>

fun heard :: "event \<Rightarrow> endpoint list" where
  "heard (Datagram d ep) = (if d \<noteq> [] \<and> (classify (take 65536 d) = Dtls \<or> classify (take 65536 d) = Srtp) then [ep] else [])"
| "heard _ = []"

fun remember :: "'a list \<Rightarrow> 'a list \<Rightarrow> 'a list" where
  "remember known [] = known"
| "remember known (x # xs) = remember (if x \<in> set known then known else known @ [x]) xs"

lemma remember_append: "remember known (xs @ ys) = remember (remember known xs) ys"
  by (induction known xs rule: remember.induct) simp_all

lemma getOrCreatePeer_remembers:
  assumes "getOrCreatePeer e ep s = Some (a, t)"
  shows "map fst (peerMap t) = remember (map fst (peerMap s)) [ep]"
proof (cases "map_of (peerMap s) ep")
  case None
  then have "ep \<notin> fst ` set (peerMap s)" by (simp add: map_of_eq_None_iff)
  moreover have "peerMap t = AList.update ep a (peerMap s)"
    using assms None by (auto simp: getOrCreatePeer_def alloc_peer_def Let_def Option.bind_eq_Some_conv split: if_splits prod.splits)
  ultimately show ?thesis using map_fst_update [OF None, of a] by simp
next
  case (Some b)
  then have "ep \<in> fst ` set (peerMap s)" by (metis map_of_eq_None_iff option.distinct(1))
  then show ?thesis using assms Some by (simp add: getOrCreatePeer_def)
qed

lemma pli_frame: "pli_to_publisher lib a r s = Some t \<Longrightarrow> frame {} s t"
  by (auto simp: pli_to_publisher_def Option.bind_eq_Some_conv intro: sendProtectedRtcp_frame split: if_splits)

lemma sendPLItoAllPeers_peerMap: "sendPLItoAllPeers lib a s = Some t \<Longrightarrow> peerMap t = peerMap s"
  by (auto simp: sendPLItoAllPeers_def Option.bind_eq_Some_conv split: if_splits
      dest!: foldM_frame [where A = "{}", rotated] intro: frame_eqs(1) pli_frame)

lemma dispatch_peerMap: "dispatch lib pl a s = Some t \<Longrightarrow> peerMap t = peerMap s"
  using frame_eqs(1) [OF onRtpPacket_frame] frame_eqs(1) [OF onRtcpPacket_frame]
  by (auto simp: dispatch_def split: if_splits plain.splits)

lemma decrypt_peerMap: "decrypt lib data a ctx s = Some (pl, t) \<Longrightarrow> peerMap t = peerMap s"
  by (auto simp: decrypt_def Let_def Option.bind_eq_Some_conv split: if_splits option.splits)

lemma handleDtls_remembers:
  assumes "handleDtls e data ep s = Some t"
  shows "map fst (peerMap t) = remember (map fst (peerMap s)) [ep]"
proof -
  obtain a s1 where s1: "getOrCreatePeer e ep s = Some (a, s1)"
    using assms by (auto simp: handleDtls_def Option.bind_eq_Some_conv)
  then obtain p where p: "peers s1 a = Some p"
    using assms by (auto simp: handleDtls_def Option.bind_eq_Some_conv)
  obtain c' out r where hp: "handlePacket (dtlsL e) data (session_of (dtlsL e) ep p) = (c', out, r)"
    by (cases "handlePacket (dtlsL e) data (session_of (dtlsL e) ep p)")
  obtain ok c where init: "srtp_init (srtpL e) (exportSrtpKeys (dtlsL e) c') srtp_new = (ok, c)" by fastforce
  have "peerMap t = peerMap s1"
    using assms by (auto simp: handleDtls_def Let_def s1 p hp init dest!: sendPLItoAllPeers_peerMap split: if_splits)
  then show ?thesis using getOrCreatePeer_remembers [OF s1] by simp
qed

lemma handleSrtp_remembers:
  assumes "handleSrtp e data ep s = Some t"
  shows "map fst (peerMap t) = remember (map fst (peerMap s)) [ep]"
proof -
  obtain a s1 where s1: "getOrCreatePeer e ep s = Some (a, s1)"
    using assms by (auto simp: handleSrtp_def Option.bind_eq_Some_conv)
  have "peerMap t = peerMap s1"
    using assms s1 by (auto simp: handleSrtp_def Option.bind_eq_Some_conv
        dest!: dispatch_peerMap decrypt_peerMap split: option.splits)
  then show ?thesis using getOrCreatePeer_remembers [OF s1] by simp
qed

lemma event_remembers:
  assumes inv: "server_inv s" and run: "run_event e ev s = Some t" and on: "receiving s" "ev \<noteq> Receive_error"
  shows "map fst (peerMap t) = remember (map fst (peerMap s)) (heard ev)"
proof (cases ev)
  case (Datagram d ep)
  let ?s = "s\<lparr>receiving := False\<rparr>" and ?d = "take 65536 d"
  obtain u where u: "onPacket e ?d ep ?s = Some u" "t = startReceive u"
    using run on(1) Datagram by (auto simp: onReceive_def Option.bind_eq_Some_conv)
  have "length ?d < 1 \<longleftrightarrow> d = []" by (cases d) simp_all
  then have "map fst (peerMap u) = remember (map fst (peerMap ?s)) (heard ev)"
    using u(1) handleDtls_remembers [of e ?d ep ?s u] handleSrtp_remembers [of e ?d ep ?s u]
    by (cases "classify ?d") (auto simp: onPacket_def Datagram handleStun_def split: if_splits option.splits)
  then show ?thesis using u(2) by (simp add: startReceive_def)
qed (use wire_call [OF inv run] on(2) in \<open>simp_all add: wire_def\<close>)

text \<open>
  C21. Nothing is ever taken out of the map of endpoints: as long as the server receives, the endpoints it
  knows are those it knew and, in the order of their first datagram, all that have sent anything that
  looks like DTLS or SRTP, whoever they are and whether or not they belong to a participant; each
  keeps a peer alive.
\<close>

theorem endpoints_never_forgotten:
  assumes reach: "reachable (run_event e) (admissible e) (setupComponents ig pos gen) s" and on: "receiving s"
    and evs: "expected (run_event e) (admissible e) evs s" "Receive_error \<notin> set evs"
  shows "\<exists>t. foldM (run_event e) evs s = Some t \<and>
    map fst (peerMap t) = remember (map fst (peerMap s)) (concat (map heard evs)) \<and>
    (\<forall>x \<in> set (peerMap t). \<exists>p. peers t (snd x) = Some p \<and> remoteEp p = fst x)"
  using reachable_server_inv [OF reach] on evs
proof (induction evs arbitrary: s)
  case Nil
  then show ?case using bound_live by fastforce
next
  case (Cons ev evs)
  obtain u where u: "run_event e ev s = Some u" "server_inv u"
    using run_event_runs [OF Cons.prems(1), of e ev] Cons.prems(3) by (auto simp: runs_def)
  have "receiving u" "Receive_error \<notin> set evs" "ev \<noteq> Receive_error"
    using receiving_event(1) [OF Cons.prems(1) u(1)] Cons.prems(2,4) by auto
  with Cons.IH [OF u(2)] Cons.prems(3) u(1) obtain t where "foldM (run_event e) evs u = Some t"
    "map fst (peerMap t) = remember (map fst (peerMap u)) (concat (map heard evs))"
    "\<forall>x \<in> set (peerMap t). \<exists>p. peers t (snd x) = Some p \<and> remoteEp p = fst x" by auto
  then show ?case
    using u(1) event_remembers [OF Cons.prems(1) u(1) Cons.prems(2) \<open>ev \<noteq> Receive_error\<close>]
    by (simp add: remember_append)
qed

theorem endpoints_never_forgotten_witness:
  "\<exists>t. foldM (run_event sample_env) [stray] alice_waits = Some t \<and>
     map fst (peerMap t) = [\<lparr>ep_addr = 1, ep_port = 2\<rparr>]"
proof -
  have "expected (run_event sample_env) (admissible sample_env) [stray] alice_waits"
    using stray_ok [OF alice_waits(1) _ alice_waits(3)] alice_waits(2) by (simp add: admissible_def sample_env_sizes)
  from endpoints_never_forgotten [OF alice_waits(5,4) this]
  show ?thesis by (auto simp: stray_def classify_stray alice_waits(2,4))
qed

section \<open>Pointers are typed\<close>

text \<open>
  C18. In every reachable state the heaps are well typed: a pointer stored in a live object leads
  to a live object of the right kind that points back to its owner. Producers and consumers
  are owned by exactly the peer that publishes or subscribes, a producer's consumers are of
  its publisher, kind and SSRC, and the reverse index, the route table and all
  maps lead to live objects: an SSRC is routed to a peer that publishes a stream with it.
\<close>

theorem reachable_heap_typed:
  assumes reach: "reachable (run_event e) (admissible e) (setupComponents ig pos gen) s"
  shows "(\<forall>a p. peers s a = Some p \<longrightarrow>
      (\<forall>r \<in> set (producers p). \<exists>pr. prods s r = Some pr \<and> p_publisher pr = a) \<and>
      (\<forall>c \<in> set (consumers p). \<exists>cc. conss s c = Some cc \<and> c_subscriber cc = Some a)) \<and>
    (\<forall>r pr. prods s r = Some pr \<longrightarrow>
      (\<exists>p. peers s (p_publisher pr) = Some p \<and> r \<in> set (producers p)) \<and>
      (\<forall>c \<in> set (p_consumers pr). \<exists>cc. conss s c = Some cc \<and> c_publisher cc = Some (p_publisher pr) \<and>
         c_publisherSsrc cc = p_originalSsrc pr \<and> c_isVideo cc = p_isVideo pr)) \<and>
    (\<forall>c cc. conss s c = Some cc \<longrightarrow>
      (\<exists>a p. c_subscriber cc = Some a \<and> peers s a = Some p \<and> c \<in> set (consumers p)) \<and>
      (c_publisher cc = None \<or> (\<exists>q p. c_publisher cc = Some q \<and> peers s q = Some p))) \<and>
    (\<forall>k c. findConsumerByOutSsrc k s = Some c \<longrightarrow> (\<exists>cc. conss s c = Some cc \<and> c_rewrittenSsrc cc = k)) \<and>
    (\<forall>k a. findPeerBySsrc k s = Some a \<longrightarrow> (\<exists>p r pr. peers s a = Some p \<and> r \<in> set (producers p) \<and>
      prods s r = Some pr \<and> p_publisher pr = a \<and> p_originalSsrc pr = k)) \<and>
    snd ` set (routes s) \<union> set (allPeers s) \<union> snd ` set (svcPeers s) \<union> snd ` set (peerMap s) \<union> snd ` set (pendingPeers s)
      \<subseteq> dom (peers s)"
proof -
  have inv: "server_inv s" using reach by (rule reachable_server_inv)
  then have r: "router_inv s" and m: "maps_inv s" by (simp_all add: server_inv_def)
  have "set (allPeers s) \<subseteq> dom (peers s)" using inv_allD(2) [OF r] by blast
  moreover have "snd ` set (peerMap s) \<union> snd ` set (pendingPeers s) \<subseteq> dom (peers s)"
    using m unfolding maps_inv_def owner_addrs_def by auto
  moreover have "(c_publisher cc = None \<or> (\<exists>q p. c_publisher cc = Some q \<and> peers s q = Some p))"
    if "conss s c = Some cc" for c cc
    using inv_conssD(2) [OF r that] by (cases "c_publisher cc") auto
  moreover have route: "\<exists>p r pr. peers s a = Some p \<and> r \<in> set (producers p) \<and> prods s r = Some pr \<and>
      p_publisher pr = a \<and> p_originalSsrc pr = k" if k: "findPeerBySsrc k s = Some a" for k a
  proof -
    obtain x pr where x: "prods s x = Some pr" "p_publisher pr = a" "p_originalSsrc pr = k"
      using inv_routesD(2) [OF r k] by (auto simp: publishes_def)
    then show ?thesis using inv_prodsD(3) [OF r x(1)] by blast
  qed
  moreover have "snd ` set (routes s) \<subseteq> dom (peers s)"
  proof
    fix a assume "a \<in> snd ` set (routes s)"
    then obtain k where "(k, a) \<in> set (routes s)" by force
    then have "findPeerBySsrc k s = Some a"
      using inv_routesD(1) [OF r] by (simp add: findPeerBySsrc_def route_lookup_def route_invar_def)
    then show "a \<in> dom (peers s)" using route by blast
  qed
  ultimately show ?thesis
    using inv_peersD(3,4) [OF r] inv_prodsD(3,4) [OF r] inv_conssD(1) [OF r] inv_outD [OF r] maps_inv_svc [OF m]
    by (simp add: findConsumerByOutSsrc_def)
qed

theorem reachable_heap_typed_witness:
  "snd ` set (peerMap after_stray) \<subseteq> dom (peers after_stray)"
  using reachable_heap_typed [OF after_stray(3)] by simp

section \<open>Demultiplexing\<close>

text \<open>
  The ranges of RFC 7983 for the first byte, of the three protocols the server speaks.
\<close>

definition rfc7983 :: "u8 \<Rightarrow> protocol" where
  "rfc7983 b = (if b \<le> 3 then Stun else if 20 \<le> b \<and> b \<le> 63 then Dtls
     else if 128 \<le> b \<and> b \<le> 191 then Srtp else Unknown)"

definition stun_header :: "u8 list \<Rightarrow> bool" where
  "stun_header d \<longleftrightarrow> 20 \<le> length d \<and> d ! 0 = 0 \<and> d ! 1 \<le> 3 \<and> at32 d 4 = 0x2112A442"

text \<open>
  C33. \<open>onPacket\<close> tells the protocols apart as RFC 7983 does, except in these cases exactly: a first
  byte of 64 is taken for DTLS, one of 192 or more for SRTP, and of the messages in the STUN
  range only those with first byte 0, a second byte of at most 3 and the magic cookie are
  accepted; the others are dropped. The STUN test excludes the other two, so the order of
  the tests does not matter.
\<close>

theorem demux_agrees_with_rfc7983:
  assumes "data \<noteq> []"
  shows "(classify data = rfc7983 (data ! 0) \<longleftrightarrow>
      data ! 0 \<noteq> 64 \<and> data ! 0 < 192 \<and> (3 < data ! 0 \<or> stun_header data)) \<and>
    \<not> (stun_header data \<and> (20 \<le> data ! 0 \<or> 128 \<le> data ! 0)) \<and>
    (onPacket e data ep s = (case classify data of Stun \<Rightarrow> Some (handleStun e data ep s)
       | Dtls \<Rightarrow> handleDtls e data ep s | Srtp \<Rightarrow> handleSrtp e data ep s | Unknown \<Rightarrow> Some s))"
proof -
  define b where "b = data ! 0"
  have c: "classify data = (if stun_header data then Stun else if 20 \<le> b \<and> b \<le> 64 then Dtls
      else if 128 \<le> b then Srtp else Unknown)"
    by (simp add: classify_def stun_header_def b_def)
  have z: "b = 0" if "stun_header data" using that by (simp add: stun_header_def b_def)
  have "classify data = rfc7983 b \<longleftrightarrow> b \<noteq> 64 \<and> b < 192 \<and> (3 < b \<or> stun_header data)"
    using z unfolding c rfc7983_def word_le_nat_alt word_less_nat_alt word_unat_eq_iff
    by (cases "stun_header data") auto
  moreover have "\<not> (stun_header data \<and> (20 \<le> b \<or> 128 \<le> b))" using z by auto
  moreover have "\<not> length data < 1" using assms by (simp add: Suc_le_eq)
  ultimately show ?thesis unfolding onPacket_def b_def by simp
qed

theorem demux_agrees_with_rfc7983_witness:
  "classify [22, 254, 253] = rfc7983 22 \<and> classify [200] \<noteq> rfc7983 200"
  using demux_agrees_with_rfc7983 [of "[22, 254, 253]" sample_env _ sample_server]
    demux_agrees_with_rfc7983 [of "[200]" sample_env _ sample_server]
  by simp

end
