(* ===== verification/Races.thy ===== *)
theory Races
  imports ThreadsInv ThreadsAlone ServerProps
begin

text \<open>
  The server under all interleavings of its threads: it stays within the language as long as no
  removal meets a packet or a subscription that is about to return, and the interleavings that go
  wrong.
\<close>

section \<open>No undefined behaviour\<close>

text \<open>The process after its start: no call yet, the receive path waits.\<close>

definition at_start :: "('s, 'd) server \<Rightarrow> ('s, 'd) system" where
  "at_start s = \<lparr>srv = s, calls = [], rx = Rx_idle\<rparr>"

lemma at_start_inv: "server_inv s \<Longrightarrow> sys_inv (at_start s)"
  by (simp add: sys_inv_def at_start_def)


text \<open>Two calls, the second stored before the first is registered.\<close>

definition two_adds :: "sys_event list" where
  "two_adds = [New_call (Add_call ''alice''), New_call (Add_call ''bob''), Call_step 0, Call_step 1]"


section \<open>A removal that meets a packet\<close>

text \<open>The receive path has copied a pointer to a producer of \<open>b\<close>, or to a consumer of \<open>b\<close>.\<close>

fun follows :: "rx_task \<Rightarrow> nat \<Rightarrow> ('s, 'd) server \<Rightarrow> bool" where
  "follows (Rx_pli a rs) b s \<longleftrightarrow> (\<exists>r \<in> set rs. \<exists>pr. prods s r = Some pr \<and> p_publisher pr = b)"
| "follows (Rx_forward pkt cs) b s \<longleftrightarrow> (\<exists>c \<in> set cs. \<exists>cc. conss s c = Some cc \<and> c_subscriber cc = Some b)"
| "follows (Rx_feedback d a p c) b s \<longleftrightarrow> (\<exists>cc. conss s c = Some cc \<and> c_subscriber cc = Some b)"
| "follows _ b s \<longleftrightarrow> False"

text \<open>How many pointers it still holds; one of them is dangling.\<close>

fun pointers_left :: "rx_task \<Rightarrow> nat" where
  "pointers_left (Rx_pli a rs) = length rs"
| "pointers_left (Rx_forward pkt cs) = length cs"
| "pointers_left (Rx_feedback d a p c) = 1"
| "pointers_left _ = 0"

fun dangling :: "rx_task \<Rightarrow> ('s, 'd) server \<Rightarrow> bool" where
  "dangling (Rx_pli a rs) s \<longleftrightarrow> (\<exists>r \<in> set rs. prods s r = None)"
| "dangling (Rx_forward pkt cs) s \<longleftrightarrow> (\<exists>c \<in> set cs. conss s c = None)"
| "dangling (Rx_feedback d a p c) s \<longleftrightarrow> conss s c = None"
| "dangling _ s \<longleftrightarrow> False"

lemma drop_ref_dead:
  "prods s r = None \<Longrightarrow> prods (drop_ref H q s) r = None" "conss s c = None \<Longrightarrow> conss (drop_ref H q s) c = None"
  by (simp_all add: drop_ref_def release_def destroy_peer_def free_def split: option.split)

lemma pli_keeps_prods: "pli_to_publisher lib a x s = Some t \<Longrightarrow> prods t = prods s"
  by (auto simp: pli_to_publisher_def sendProtectedRtcp_def Let_def Option.bind_eq_Some_conv
      split: if_splits option.splits)

lemma pli_round_meets_dead:
  assumes "rx S = Rx_pli a rs" "r \<in> set rs" "prods (srv S) r = None"
  shows "foldM (sys_step e) (replicate (length rs) Rx_step) S = None"
  using assms
proof (induction rs arbitrary: S)
  case (Cons x xs)
  show ?case
  proof (cases "pli_to_publisher (srtpL e) a x (srv S)")
    case (Some t)
    then have "x \<noteq> r" using Cons.prems(3) by (auto simp: pli_to_publisher_def)
    then show ?thesis
      using Cons.IH [of "S\<lparr>srv := t, rx := Rx_pli a xs\<rparr>"] Cons.prems Some pli_keeps_prods [OF Some] by simp
  qed (use Cons.prems(1) in simp)
qed simp

lemma forwarding_meets_dead:
  assumes "rx S = Rx_forward pkt cs" "c \<in> set cs" "conss (srv S) c = None"
  shows "foldM (sys_step e) (replicate (length cs) Rx_step) S = None"
  using assms
proof (induction cs arbitrary: S)
  case (Cons x xs)
  show ?case
  proof (cases "rtp_forward_one (srtpL e) pkt x (srv S)")
    case (Some t)
    then have "x \<noteq> c" using Cons.prems(3) by (auto simp: rtp_forward_one_def)
    then show ?thesis
      using Cons.IH [of "S\<lparr>srv := t, rx := Rx_forward pkt xs\<rparr>"] Cons.prems Some forward_keeps_dead [OF Some] by simp
  qed (use Cons.prems(1) in simp)
qed simp

lemma turns_meet_dead:
  assumes "dangling (rx S) (srv S)"
  shows "foldM (sys_step e) (replicate (pointers_left (rx S)) Rx_step) S = None"
proof (cases "rx S")
  case (Rx_pli a rs)
  then show ?thesis using assms pli_round_meets_dead [OF Rx_pli, of _ e] by auto
next
  case (Rx_forward pkt cs)
  then show ?thesis using assms forwarding_meets_dead [OF Rx_forward, of _ e] by auto
qed (use assms in \<open>simp_all add: rtcp_found_def\<close>)

text \<open>
  C22. The receive path copies pointers under the router's lock and follows them after it: the
  producers of a round of keyframe requests (\<open>sendPLItoAllPeers\<close>), the targets of a media packet
  (\<open>onRtpPacket\<close>), the consumer a feedback message names (\<open>handlePLI\<close>, \<open>handleNACK\<close>, \<open>handleRR\<close>). If in between
  the last section of a \<open>RemovePeer\<close> detaches the peer one of them belongs to, the receive path follows
  a pointer to a destroyed object.
\<close>

theorem removal_meets_packet:
  assumes inv: "router_inv (srv S)" "svc_router (srv S)"
    and i: "i < length (calls S)" "calls S ! i = Remove_found b"
    and held: "follows (rx S) b (srv S)"
  shows "\<exists>T. sys_step e (Call_step i) S = Some T \<and> rx T = rx S \<and>
    foldM (sys_step e) (replicate (pointers_left (rx S)) Rx_step) T = None"
proof -
  have "(\<exists>r pr. prods (srv S) r = Some pr \<and> p_publisher pr = b) \<or> (\<exists>c cc. conss (srv S) c = Some cc \<and> c_subscriber cc = Some b)"
    using held by (cases "rx S") auto
  then obtain p where p: "peers (srv S) b = Some p"
    using inv_prodsD(3) [OF inv(1)] inv_conssD(1) [OF inv(1)] by fastforce
  define s where "s = drop_ref (held_by_others i (calls S)) (Some b) (removed b p (srv S))"
  define T where "T = S\<lparr>srv := s, calls := (calls S)[i := Answered (Removed True)]\<rparr>"
  have "prods s r = None" if "prods (srv S) r = Some pr" "p_publisher pr = b" for r pr
    unfolding s_def by (rule drop_ref_dead(1))
      (use removed_prods [OF inv(1) p, of r] that in \<open>cases "prods (removed b p (srv S)) r"; auto\<close>)
  moreover have "conss s c = None" if c: "conss (srv S) c = Some cc" "c_subscriber cc = Some b" for c cc
  proof -
    have "c \<in> set (consumers p)" using inv_conssD(1) [OF inv(1) c(1)] c(2) p by auto
    then show ?thesis unfolding s_def by (intro drop_ref_dead(2)) (simp add: removed_def)
  qed
  ultimately have "dangling (rx T) (srv T)" using held by (cases "rx S"; simp add: T_def; blast)
  moreover have "sys_step e (Call_step i) S = Some T"
    using i inv(2) removePeer_eq [OF inv(1) p] by (simp add: T_def s_def remove_detach_def)
  ultimately show ?thesis using turns_meet_dead [of T e] by (auto simp: T_def)
qed

text \<open>Alice sends video and leaves; Bob, who waits for it, completes his handshake.\<close>

definition alice_leaves :: "(srtp_policy, unit) system" where
  "alice_leaves = \<lparr>srv = with_producer 0 7 True bob_waits, calls = [Remove_found 0], rx = Rx_keyed 1\<rparr>"

theorem removal_meets_packet_witness:
  "\<exists>S T. sys_step sample_env Rx_step alice_leaves = Some S \<and> sys_step sample_env (Call_step 0) S = Some T \<and>
     rx T = Rx_pli 1 [3] \<and> foldM (sys_step sample_env) [Rx_step] T = None"
proof -
  let ?s = "srv alice_leaves"
  have inv: "router_inv ?s"
    unfolding alice_leaves_def system.simps
    by (rule with_producer_inv) (use bob_waits in \<open>simp_all add: server_inv_def\<close>)
  have same: "allPeers ?s = [1, 0]" "pr_router ?s" "svc_router ?s"
    by (simp_all add: alice_leaves_def with_producer_def create_producer_def link_list_def bob_waits)
  have prods: "prods ?s r = (if r = 3 then Some ((new_producer 0 7 True)\<lparr>p_consumers := [2]\<rparr>) else None)" for r
    by (simp add: alice_leaves_def with_producer_prods bob_waits bob_waits(6) [unfolded One_nat_def] all_consumers_def
        waiting_def new_consumer_def new_peer_def)
  have peers: "peers ?s 0 = Some (new_peer\<lparr>peerId := ''alice'', producers := [3]\<rparr>)"
    "peers ?s 1 = Some (new_peer\<lparr>peerId := ''bob'', consumers := [2]\<rparr>)"
    by (simp_all add: alice_leaves_def with_producer_def create_producer_def link_list_def bob_waits
        bob_waits(6) [unfolded One_nat_def] new_peer_def)
  have "getAllVideoProducers ?s = Some [3]"
    using peers by (simp add: getAllVideoProducers_def same prods new_peer_def new_producer_def)
  then have "sys_step sample_env Rx_step alice_leaves = Some (alice_leaves\<lparr>rx := Rx_pli 1 [3]\<rparr>)"
    using same(2) by (simp add: alice_leaves_def)
  then show ?thesis
    using removal_meets_packet [of "alice_leaves\<lparr>rx := Rx_pli 1 [3]\<rparr>" 0 0 sample_env] inv same(3) prods [of 3]
    by (simp add: alice_leaves_def new_producer_def)
qed

section \<open>A subscription that outlives its peer\<close>

lemma removed_unfindable:
  assumes inv: "server_inv (also_waiting I s)" and k: "findPeer k s = Some a"
  shows "findPeer j (s\<lparr>svcPeers := AList.delete k (svcPeers s)\<rparr>) \<noteq> Some a"
proof
  assume "findPeer j (s\<lparr>svcPeers := AList.delete k (svcPeers s)\<rparr>) = Some a"
  then have j: "map_of (svcPeers s) j = Some a" "j \<noteq> k"
    by (auto simp: findPeer_def delete_conv' split: if_splits)
  have "peerId p = x" if "map_of (svcPeers s) x = Some a" "peers s a = Some p" for x p
    using registered_live [OF inv, of x a] that by (auto simp: findPeer_def)
  moreover have "peers s a \<noteq> None" using registered_live [OF inv, of k a] k by (auto simp: findPeer_def)
  ultimately show False using j k by (auto simp: findPeer_def)
qed

text \<open>
  C23. \<open>AddConsumer\<close> looks its peers up and then subscribes, \<open>RemovePeer\<close> takes a peer out of the
  map and then out of the router; no lock spans the two. If the whole \<open>RemovePeer\<close> of the subscriber
  falls between, both calls report success and the router is left with a subscription of a peer
  that no later call can name, so that no later call removes it.
\<close>

theorem subscription_outlives_peer:
  assumes inv: "sys_inv S" "svc_router (srv S)"
    and i: "i < length (calls S)" "calls S ! i = Sub_ready a b v"
    and j: "j < length (calls S)" "calls S ! j = Remove_call k" "findPeer k (srv S) = Some a"
  shows "\<exists>T ssrc c cc. foldM (sys_step e) [Call_step j, Call_step j, Call_step i, Call_step i] S = Some T \<and>
    calls T ! j = Answered (Removed True) \<and> calls T ! i = Answered (Subscribed (Inr ssrc)) \<and>
    conss (srv T) c = Some cc \<and> c_subscriber cc = Some a \<and> c_publisher cc = Some b \<and> c_active cc \<and>
    (\<forall>k'. findPeer k' (srv T) \<noteq> Some a)"
proof -
  let ?s = "srv S" and ?I = "adding (calls S)"
  define s1 where "s1 = ?s\<lparr>svcPeers := AList.delete k (svcPeers ?s)\<rparr>"
  define C1 where "C1 = (calls S)[j := Remove_found a]"
  define C2 where "C2 = (calls S)[j := Answered (Removed True)]"
  have ij: "i \<noteq> j" using i(2) j(2) by auto
  have w: "server_inv (also_waiting ?I ?s)" using inv(1) by (simp add: sys_inv_def)
  have add: "adding C2 = ?I" unfolding C2_def by (rule adding_update) (simp add: j(2))
  have "also_waiting ?I s1 = (also_waiting ?I ?s)\<lparr>svcPeers := AList.delete k (svcPeers (also_waiting ?I ?s))\<rparr>"
    by (simp add: s1_def also_waiting_def)
  then have w1: "server_inv (also_waiting ?I s1)" using unregister_inv [OF w, of k] j(3) by (simp add: findPeer_def)
  have "refs_ok (calls S ! i) ?s" using inv(1) nth_mem [OF i(1)] unfolding sys_inv_def by blast
  then have "{a, b} \<subseteq> dom (peers ?s)" by (simp add: i(2))
  then have live: "{a, b} \<subseteq> dom (peers s1)" by (simp add: s1_def)
  obtain s2 where s2: "removePeer a s1 = Some s2" "router_inv s2"
    using removePeer_runs [OF also_router_inv [OF w1], of a] live by (auto simp: runs_def)
  note f2 = removePeer_frame [OF s2(1), of "{}"]
  have w2: "server_inv (also_waiting (adding C2) s2)" unfolding add by (rule frame_also_inv [OF f2 w1 s2(2)]) simp
  have live2: "{a, b} \<subseteq> dom (peers s2)" using live frame_dom [OF f2] by simp
  have len: "i < length C2" "C2 ! i = Sub_ready a b v" using i ij by (simp_all add: C2_def)
  have w2': "server_inv (also_waiting (adding (take i C2 @ drop (Suc i) C2)) s2)"
    using others_waiting(1) [OF w2 len(1)] len(2) by simp
  define H where "H = held_by_others i C2"
  from sub_subscribe_eq [OF w2' live2, of v] obtain t cc where
    t: "sub_subscribe a b v s2 = Some (Sub_linked a b (nextAddr s2), t)" "frame {} s2 t"
    and wt: "server_inv (also_waiting (adding (take i C2 @ drop (Suc i) C2)) t)"
    and cc: "conss t (nextAddr s2) = Some cc" "c_subscriber cc = Some a" "c_publisher cc = Some b" "c_active cc"
    by blast
  define out where "out = c_rewrittenSsrc cc"
  have "refs_ok (Sub_linked a b (nextAddr s2)) t" using live2 cc(1,2) frame_dom [OF t(2)] by (simp add: refs_ok_def)
  from sub_return_eq [OF wt others_waiting(2) [OF w2 len(1)] this]
  have ret: "sub_return H a b (nextAddr s2) t = Some (Answered (Subscribed (Inr out)), t)"
    using cc(1) by (auto simp: H_def out_def)
  define T where "T = S\<lparr>srv := t, calls := C2[i := Answered (Subscribed (Inr out))]\<rparr>"
  have same: "held_by_others i (C2[i := x]) = H" for x by (simp add: held_by_others_def H_def)
  have "a \<in> held_by_others j C1"
    by (rule held_by_othersI [of _ _ i]) (use i ij in \<open>simp_all add: C1_def\<close>)
  moreover have "svc_router s1" using inv(2) by (simp add: s1_def)
  ultimately have "remove_detach (held_by_others j C1) a s1 = Some (Answered (Removed True), s2)"
    using s2(1) by (simp add: remove_detach_def drop_ref_def)
  then have run: "foldM (sys_step e) [Call_step j, Call_step j, Call_step i, Call_step i] S = Some T"
    using j t(1) ret same len by (simp add: remove_lookup_def s1_def [symmetric] C1_def [symmetric])
      (simp add: C1_def C2_def [symmetric] T_def)
  have "findPeer k' t \<noteq> Some a" for k'
    using removed_unfindable [OF w j(3), of k'] frame_eqs(6) [OF f2] frame_eqs(6) [OF t(2)]
    by (simp add: findPeer_def s1_def)
  moreover have "calls T ! j = Answered (Removed True)" "calls T ! i = Answered (Subscribed (Inr out))"
    using i j ij by (simp_all add: T_def C2_def)
  ultimately show ?thesis using run cc by (intro exI [of _ T] exI [of _ out] exI [of _ "nextAddr s2"] exI [of _ cc]) (simp add: T_def)
qed

text \<open>Bob has two browser tabs: one subscribes to Alice while the other leaves.\<close>

definition bob_leaves :: "(srtp_policy, unit) system" where
  "bob_leaves = \<lparr>srv = bob_waits, calls = [Sub_ready 1 0 True, Remove_call ''bob''], rx = Rx_idle\<rparr>"

theorem subscription_outlives_peer_witness:
  "\<exists>T c cc. foldM (sys_step sample_env) [Call_step 1, Call_step 1, Call_step 0, Call_step 0] bob_leaves = Some T \<and>
     conss (srv T) c = Some cc \<and> c_subscriber cc = Some 1 \<and> findPeer ''bob'' (srv T) \<noteq> Some 1"
proof -
  have "sys_inv bob_leaves"
    using bob_waits(2,6,8) by (auto simp: sys_inv_def bob_leaves_def)
  from subscription_outlives_peer [OF this, of 0 1 0 True 1 "''bob''" sample_env]
  show ?thesis using bob_waits(3,5) by (simp add: bob_leaves_def) blast
qed

section \<open>A removal that meets a subscription\<close>

text \<open>
  C3. \<open>addConsumer\<close> returns the SSRC it reads from the new consumer after the router's lock has been
  given back. If the whole \<open>RemovePeer\<close> of the subscriber falls between the two, it reports success
  and destroys that consumer, and the subscription goes on by reading from freed memory.
\<close>

theorem removal_meets_subscription:
  assumes inv: "sys_inv S" "svc_router (srv S)"
    and i: "i < length (calls S)" "calls S ! i = Sub_ready a b v"
    and j: "j < length (calls S)" "calls S ! j = Remove_call k" "findPeer k (srv S) = Some a"
  shows "\<exists>T c. foldM (sys_step e) [Call_step i, Call_step j, Call_step j] S = Some T \<and>
    calls T ! i = Sub_linked a b c \<and> calls T ! j = Answered (Removed True) \<and>
    conss (srv T) c = None \<and> sys_step e (Call_step i) T = None"
proof -
  let ?s = "srv S" and ?I = "adding (take i (calls S) @ drop (Suc i) (calls S))" and ?c = "nextAddr (srv S)"
  have ij: "i \<noteq> j" using i(2) j(2) by auto
  have w: "server_inv (also_waiting (adding (calls S)) ?s)" using inv(1) by (simp add: sys_inv_def)
  have w': "server_inv (also_waiting ?I ?s)" using others_waiting(1) [OF w i(1)] by (simp add: i(2))
  have "refs_ok (calls S ! i) ?s" using inv(1) nth_mem [OF i(1)] unfolding sys_inv_def by blast
  then have live: "{a, b} \<subseteq> dom (peers ?s)" by (simp add: i(2))
  from sub_subscribe_eq [OF w' live, of v] obtain t cc where
    t: "sub_subscribe a b v ?s = Some (Sub_linked a b ?c, t)" "server_inv (also_waiting ?I t)" "frame {} ?s t"
    and cc: "conss t ?c = Some cc" "c_subscriber cc = Some a"
    by blast
  define t1 where "t1 = t\<lparr>svcPeers := AList.delete k (svcPeers t)\<rparr>"
  have found: "findPeer k t = Some a" "svc_router t1"
    using j(3) inv(2) frame_eqs [OF t(3)] by (simp_all add: findPeer_def t1_def)
  have "also_waiting ?I t1 = (also_waiting ?I t)\<lparr>svcPeers := AList.delete k (svcPeers (also_waiting ?I t))\<rparr>"
    by (simp add: t1_def also_waiting_def)
  then have "server_inv (also_waiting ?I t1)" using unregister_inv [OF t(2), of k] found(1) by (simp add: findPeer_def)
  note r1 = also_router_inv [OF this]
  obtain p where p: "peers t1 a = Some p" using live frame_dom [OF t(3)] by (auto simp: t1_def)
  have cc1: "conss t1 ?c = Some cc" using cc(1) by (simp add: t1_def)
  have "?c \<in> set (consumers p)" using inv_conssD(1) [OF r1 cc1] cc(2) p by auto
  then have gone: "conss (removed a p t1) ?c = None" by (simp add: removed_def)
  define C1 where "C1 = (calls S)[i := Sub_linked a b ?c, j := Remove_found a]"
  define T where "T = S\<lparr>srv := removed a p t1, calls := (calls S)[i := Sub_linked a b ?c, j := Answered (Removed True)]\<rparr>"
  have "a \<in> held_by_others j C1"
    by (rule held_by_othersI [of _ _ i]) (use i ij in \<open>simp_all add: C1_def\<close>)
  then have "remove_detach (held_by_others j C1) a t1 = Some (Answered (Removed True), removed a p t1)"
    using removePeer_eq [OF r1 p] found(2) by (simp add: remove_detach_def drop_ref_def)
  then have "foldM (sys_step e) [Call_step i, Call_step j, Call_step j] S = Some T"
    using i j ij t(1) found(1)
    by (simp add: remove_lookup_def t1_def [symmetric] C1_def [symmetric]) (simp add: C1_def T_def)
  moreover have "calls T ! i = Sub_linked a b ?c" "calls T ! j = Answered (Removed True)" "conss (srv T) ?c = None"
    using i j ij gone by (simp_all add: T_def)
  moreover from this have "sys_step e (Call_step i) T = None" by (simp add: sub_return_def)
  ultimately show ?thesis by blast
qed

text \<open>The same two tabs of Bob: the subscription is made when the removal comes.\<close>

theorem removal_meets_subscription_witness:
  "\<exists>T c. foldM (sys_step sample_env) [Call_step 0, Call_step 1, Call_step 1] bob_leaves = Some T \<and>
     calls T ! 0 = Sub_linked 1 0 c \<and> sys_step sample_env (Call_step 0) T = None"
proof -
  have "sys_inv bob_leaves"
    using bob_waits(2,6,8) by (auto simp: sys_inv_def bob_leaves_def)
  from removal_meets_subscription [OF this, of 0 1 0 True 1 "''bob''" sample_env]
  show ?thesis using bob_waits(3,5) by (simp add: bob_leaves_def) blast
qed

section \<open>Two registrations that cross\<close>

text \<open>
  C24. \<open>AddPeer\<close> stores a peer under the service's lock and announces it to the packet router under
  another. If two calls with the same id, of which no peer is known, interleave, the service is left
  with the peer of one of them and the packet router waits for an endpoint of the other: media
  sections, subscriptions and the transport of this participant belong to different objects.
\<close>

theorem crossed_registrations:
  assumes inv: "sys_inv S"
    and new: "findPeer k (srv S) = None" "k \<notin> fst ` set (pendingPeers (srv S))"
    and i: "i < length (calls S)" "calls S ! i = Add_call k"
    and j: "j < length (calls S)" "calls S ! j = Add_call k" "i \<noteq> j"
  shows "\<exists>T a b. foldM (sys_step e) [Call_step i, Call_step j, Call_step j, Call_step i] S = Some T \<and>
    (\<exists>r. calls T ! i = Answered (Added r)) \<and> (\<exists>r. calls T ! j = Answered (Added r)) \<and>
    findPeer k (srv T) = Some b \<and> map_of (pendingPeers (srv T)) k = Some a \<and> a \<noteq> b"
proof -
  let ?s = "srv S" and ?n = "nextAddr (srv S)"
  have pkt: "svc_pktRouter ?s" using inv by (simp add: sys_inv_def server_inv_def)
  define s1 where "s1 = (alloc_peer (new_peer\<lparr>peerId := k\<rparr>) ?s)\<lparr>svcPeers := AList.update k ?n (svcPeers ?s)\<rparr>"
  define s2 where "s2 = (alloc_peer (new_peer\<lparr>peerId := k\<rparr>) s1)\<lparr>svcPeers := AList.update k (Suc ?n) (svcPeers s1)\<rparr>"
  define s3 where "s3 = s2\<lparr>pendingPeers := AList.update k (Suc ?n) (pendingPeers s2)\<rparr>"
  define s4 where "s4 = s3\<lparr>pendingPeers := AList.update k ?n (pendingPeers s3)\<rparr>"
  have simps: "map_of (svcPeers s1) k = Some ?n" "map_of (svcPeers s2) k = Some (Suc ?n)"
    "svcPeers s3 = svcPeers s2" "svcPeers s4 = svcPeers s2" "map_of (pendingPeers s2) k = None"
    "map_of (pendingPeers s3) k = Some (Suc ?n)" "map_of (pendingPeers s4) k = Some ?n"
    "svc_pktRouter s2" "svc_pktRouter s3"
    using new pkt by (simp_all add: s1_def s2_def s3_def s4_def alloc_peer_def update_conv' map_of_eq_None_iff)
  have p: "peers s2 (Suc ?n) = Some (new_peer\<lparr>peerId := k\<rparr>)" "peers s3 ?n = Some (new_peer\<lparr>peerId := k\<rparr>)"
    by (simp_all add: s1_def s2_def s3_def alloc_peer_def)
  have own: "owned (Suc ?n) s3" "owned (Suc ?n) s4" "owned ?n s4"
    using simps(2-4,7) by (force simp: owned_def dest: map_of_SomeD)+
  have add: "add_store H k ?s = (Add_register k ?n, s1)" for H
    using new(1) by (simp add: add_store_def Let_def s1_def findPeer_def alloc_peer_def drop_ref_def)
  have add2: "add_store H k s1 = (Add_register k (Suc ?n), s2)" if "?n \<in> H" for H
    using that simps(1) by (simp add: add_store_def Let_def s2_def alloc_peer_def drop_ref_def)
      (simp add: s1_def alloc_peer_def)
  have reg: "add_register e H (Suc ?n) s2 = Some (Answered (Added (answer_add_peer e s3)), s3)" for H
    using simps(5,8) p(1) own(1) by (simp add: add_register_def s3_def [symmetric] drop_ref_def release_def)
  have reg2: "add_register e H ?n s3 = Some (Answered (Added (answer_add_peer e s4)), s4)" for H
    using simps(6,9) p(2) own(2,3) by (simp add: add_register_def s4_def [symmetric] drop_ref_def release_def)
  have held: "?n \<in> held_by_others j ((calls S)[i := Add_register k ?n])"
    by (rule held_by_othersI [of _ _ i]) (use i j in simp_all)
  define T where "T = S\<lparr>srv := s4,
    calls := ((calls S)[j := Answered (Added (answer_add_peer e s3))])[i := Answered (Added (answer_add_peer e s4))]\<rparr>"
  have "foldM (sys_step e) [Call_step i, Call_step j, Call_step j, Call_step i] S = Some T"
    using i j held by (simp add: add add2 reg reg2 list_update_swap T_def)
  moreover have "calls T ! i = Answered (Added (answer_add_peer e s4))" "calls T ! j = Answered (Added (answer_add_peer e s3))"
    "findPeer k (srv T) = Some (Suc ?n)" "map_of (pendingPeers (srv T)) k = Some ?n"
    using i j simps by (simp_all add: T_def findPeer_def)
  moreover have "?n \<noteq> Suc ?n" by simp
  ultimately show ?thesis by blast
qed

text \<open>A client that repeats its \<open>AddPeer\<close> before the answer is there.\<close>

definition alice_twice :: "(srtp_policy, unit) system" where
  "alice_twice = \<lparr>srv = sample_server, calls = [Add_call ''alice'', Add_call ''alice''], rx = Rx_idle\<rparr>"

theorem crossed_registrations_witness:
  "\<exists>T a b. foldM (sys_step sample_env) [Call_step 0, Call_step 1, Call_step 1, Call_step 0] alice_twice = Some T \<and>
     findPeer ''alice'' (srv T) = Some b \<and> map_of (pendingPeers (srv T)) ''alice'' = Some a \<and> a \<noteq> b"
proof -
  have "sys_inv alice_twice" by (simp add: sys_inv_def alice_twice_def sample_server_inv)
  from crossed_registrations [OF this, of "''alice''" 0 1 sample_env]
  show ?thesis by (simp add: alice_twice_def findPeer_def sample_server_simps) blast
qed

end
