(* ===== verification/Config.thy ===== *)
theory Config
  imports Sdp "HOL-Library.Word"
begin

text \<open>
  \<open>config/ConfigMgr.h\<close> and \<open>.cpp\<close>: the INI reader and its lookup; what
  \<open>utils/Logger.cpp\<close> reads from it. The text of the file is a
  parameter, \<^const>\<open>None\<close> if it cannot be opened; a \<open>std::map\<close> is a partial function.
\<close>

type_synonym section_info = "string \<rightharpoonup> string"
type_synonym config = "string \<rightharpoonup> section_info"

section \<open>Reading\<close>

definition blank_char :: "char \<Rightarrow> bool" where
  "blank_char c \<longleftrightarrow> c \<in> {CHR '' '', CHR 0x09, CHR 0x0D}"

definition is_comment :: "char \<Rightarrow> bool" where
  "is_comment c \<longleftrightarrow> c \<in> {CHR ''#'', CHR '';''}"

text \<open>Blanks at both ends go first, then the comment; blanks before the comment stay.\<close>

definition trim :: "string \<Rightarrow> string" where
  "trim s = (let t = dropWhile blank_char s; u = rev (dropWhile blank_char (rev t))
     in takeWhile (\<lambda>c. \<not> is_comment c) u)"

definition unquote :: "string \<Rightarrow> string" where
  "unquote val =
     (if 2 \<le> length val \<and> ((hd val = CHR 0x22 \<and> last val = CHR 0x22) \<or> (hd val = CHR 0x27 \<and> last val = CHR 0x27))
      then butlast (tl val) else val)"

definition put :: "string \<Rightarrow> string \<Rightarrow> string \<Rightarrow> config \<Rightarrow> config" where
  "put sec key val cfg = cfg(sec \<mapsto> (case cfg sec of None \<Rightarrow> Map.empty | Some m \<Rightarrow> m)(key \<mapsto> val))"

text \<open>The part of the loop body from the split at the equals sign; \<open>cur\<close> is the current section.\<close>

definition key_line :: "string \<Rightarrow> string \<Rightarrow> config \<Rightarrow> config" where
  "key_line line cur cfg =
     (if CHR ''='' \<notin> set line then cfg
      else let key = trim (takeWhile (\<lambda>c. c \<noteq> CHR ''='') line);
               val = unquote (trim (tl (dropWhile (\<lambda>c. c \<noteq> CHR ''='') line)))
        in if cur \<noteq> [] \<and> key \<noteq> [] then put cur key val cfg else cfg)"

fun load_line :: "string \<Rightarrow> string \<times> config \<Rightarrow> string \<times> config" where
  "load_line raw (cur, cfg) =
     (let line = trim raw in
      if line = [] then (cur, cfg)
      else if hd line = CHR ''['' \<and> last line = CHR '']'' then (butlast (tl line), cfg)
      else (cur, key_line line cur cfg))"

definition Load :: "string option \<Rightarrow> config \<Rightarrow> config" where
  "Load file cfg = (case file of None \<Rightarrow> cfg
     | Some text \<Rightarrow> snd (fold load_line (getlines text) ([], cfg)))"

section \<open>Lookup\<close>

definition section_get :: "section_info \<Rightarrow> string \<Rightarrow> string" where
  "section_get m key = (case m key of None \<Rightarrow> [] | Some v \<Rightarrow> v)"

definition config_get :: "config \<Rightarrow> string \<Rightarrow> section_info" where
  "config_get cfg sec = (case cfg sec of None \<Rightarrow> Map.empty | Some m \<Rightarrow> m)"

section \<open>What is read from it\<close>

text \<open>\<open>Logger::init\<close> after the file is loaded.\<close>

datatype log_level = Debug | Info | Warn | Err

definition strip_quotes :: "string \<Rightarrow> string" where
  "strip_quotes s = (if 2 \<le> length s \<and> hd s = CHR 0x22 \<and> last s = CHR 0x22 then butlast (tl s) else s)"

definition level_of :: "string \<Rightarrow> log_level" where
  "level_of s = (if s = ''debug'' then Debug else if s = ''info'' then Info else if s = ''warn'' then Warn
     else if s = ''error'' then Err else Info)"

text \<open>The \<open>try\<close> block: size in MB, backups, age; the first exception ends it.\<close>

definition log_number :: "section_info \<Rightarrow> string \<Rightarrow> int \<Rightarrow> int_error + int" where
  "log_number m key dflt = (if section_get m key \<noteq> [] then stoi (section_get m key) else Inr dflt)"

definition log_numbers :: "section_info \<Rightarrow> int \<times> int \<times> int" where
  "log_numbers m =
     (case log_number m ''log_max_size_mb'' 10 of Inl e \<Rightarrow> (10, 5, 30)
      | Inr mb \<Rightarrow> (case log_number m ''log_max_backups'' 5 of Inl e \<Rightarrow> (mb, 5, 30)
          | Inr backups \<Rightarrow> (case log_number m ''log_max_age_days'' 30 of Inl e \<Rightarrow> (mb, backups, 30)
              | Inr age \<Rightarrow> (mb, backups, age))))"

text \<open>\<open>a * b\<close> on \<open>int\<close>; a product that does not fit is undefined.\<close>

definition int_mul :: "int \<Rightarrow> int \<Rightarrow> int option" where
  "int_mul a b = (if - (2 ^ 31) \<le> a * b \<and> a * b < 2 ^ 31 then Some (a * b) else None)"

record log_setup =
  file_sink :: "(string \<times> int \<times> int) option"
  log_level :: log_level

definition log_init :: "config \<Rightarrow> log_setup option" where
  "log_init cfg = do {
     let m = config_get cfg ''log'';
     let logFile = strip_quotes (section_get m ''log_file'');
     let levelStr = strip_quotes (if section_get m ''log_level'' = [] then ''info'' else section_get m ''log_level'');
     let (maxSize, maxBackups, maxAge) = log_numbers m;
     file \<leftarrow> (if logFile \<noteq> [] then do {
         kb \<leftarrow> int_mul maxSize 1024;
         bytes \<leftarrow> int_mul kb 1024;
         Some (Some (logFile, bytes, maxBackups))
       } else Some None);
     Some \<lparr>file_sink = file, log_level = level_of levelStr\<rparr>
   }"

section \<open>Writing a configuration and reading it back\<close>

text \<open>The text of an INI file in the layout of the one that comes with the program.\<close>

definition render_entry :: "string \<times> string \<Rightarrow> string" where
  "render_entry kv = fst kv @ '' = '' @ [CHR 0x22] @ snd kv @ [CHR 0x22, CHR 0x0A]"

definition render_section :: "string \<times> (string \<times> string) list \<Rightarrow> string" where
  "render_section s = ''['' @ fst s @ '']'' @ [CHR 0x0A] @ concat (map render_entry (snd s))"

definition render :: "(string \<times> (string \<times> string) list) list \<Rightarrow> string" where
  "render ss = concat (map render_section ss)"

text \<open>Names and values without comment signs and line ends; keys start and end visibly.\<close>

definition plain_text :: "string \<Rightarrow> bool" where
  "plain_text s \<longleftrightarrow> (\<forall>c \<in> set s. \<not> is_comment c \<and> c \<noteq> CHR 0x0A)"

definition key_text :: "string \<Rightarrow> bool" where
  "key_text k \<longleftrightarrow> plain_text k \<and> k \<noteq> [] \<and> \<not> blank_char (hd k) \<and> \<not> blank_char (last k) \<and> CHR ''='' \<notin> set k"

definition renderable :: "(string \<times> (string \<times> string) list) list \<Rightarrow> bool" where
  "renderable ss \<longleftrightarrow> (\<forall>s \<in> set ss. plain_text (fst s) \<and> fst s \<noteq> [] \<and>
     (\<forall>kv \<in> set (snd s). key_text (fst kv) \<and> plain_text (snd kv)))"

lemma dropWhile_id: "s = [] \<or> \<not> P (hd s) \<Longrightarrow> dropWhile P s = s"
  by (cases s) auto

lemma trim_plain:
  assumes "plain_text s" "s = [] \<or> \<not> blank_char (hd s) \<and> \<not> blank_char (last s)"
  shows "trim s = s"
proof -
  have "dropWhile blank_char s = s" "dropWhile blank_char (rev s) = rev s"
    using assms(2) by (auto intro!: dropWhile_id simp: hd_rev)
  moreover have "takeWhile (\<lambda>c. \<not> is_comment c) s = s"
    unfolding takeWhile_eq_all_conv using assms(1) by (simp add: plain_text_def)
  ultimately show ?thesis by (simp add: trim_def)
qed

lemma trim_blank_end:
  assumes "plain_text s" "s \<noteq> []" "\<not> blank_char (hd s)" "\<not> blank_char (last s)" "blank_char b"
  shows "trim (s @ [b]) = s" "trim (b # s) = s"
proof -
  have "dropWhile blank_char (s @ [b]) = s @ [b]" by (rule dropWhile_id) (use assms(2,3) in simp)
  moreover have "dropWhile blank_char (rev s) = rev s" using assms(4) by (intro dropWhile_id) (simp add: hd_rev)
  moreover have "takeWhile (\<lambda>c. \<not> is_comment c) s = s"
    unfolding takeWhile_eq_all_conv using assms(1) by (simp add: plain_text_def)
  ultimately show "trim (s @ [b]) = s" using assms(5) by (simp add: trim_def)
  show "trim (b # s) = s" using trim_plain [OF assms(1)] assms(3-5) by (simp add: trim_def)
qed

lemma load_header:
  assumes "plain_text sec"
  shows "load_line (''['' @ sec @ '']'') (cur, cfg) = (sec, cfg)"
proof -
  have "trim (''['' @ sec @ '']'') = ''['' @ sec @ '']''"
    using assms by (intro trim_plain) (auto simp: plain_text_def is_comment_def blank_char_def)
  then show ?thesis by (simp add: butlast_append)
qed

lemma load_entry:
  assumes k: "key_text k" and v: "plain_text v" and cur: "cur \<noteq> []"
  shows "load_line (k @ '' = '' @ [CHR 0x22] @ v @ [CHR 0x22]) (cur, cfg) = (cur, put cur k v cfg)"
proof -
  let ?l = "k @ '' = '' @ [CHR 0x22] @ v @ [CHR 0x22]"
  have k': "plain_text k" "k \<noteq> []" "\<not> blank_char (hd k)" "\<not> blank_char (last k)" "CHR ''='' \<notin> set k"
    using k by (simp_all add: key_text_def)
  have t: "trim ?l = ?l"
    using k' v by (intro trim_plain) (auto simp: plain_text_def is_comment_def blank_char_def)
  have parts: "takeWhile (\<lambda>c. c \<noteq> CHR ''='') ?l = k @ [CHR '' '']"
    "dropWhile (\<lambda>c. c \<noteq> CHR ''='') ?l = ''= '' @ [CHR 0x22] @ v @ [CHR 0x22]"
    using k'(5) by (subst takeWhile_append2 dropWhile_append2; auto)+
  have "trim (k @ [CHR '' '']) = k" using trim_blank_end(1) [OF k'(1-4)] by (simp add: blank_char_def)
  moreover have "trim (CHR '' '' # [CHR 0x22] @ v @ [CHR 0x22]) = [CHR 0x22] @ v @ [CHR 0x22]"
    by (rule trim_blank_end(2)) (use v in \<open>auto simp: plain_text_def is_comment_def blank_char_def\<close>)
  moreover have "unquote ([CHR 0x22] @ v @ [CHR 0x22]) = v" by (simp add: unquote_def)
  ultimately have "key_line ?l cur cfg = put cur k v cfg"
    using cur k'(2) unfolding key_line_def parts by simp
  then show ?thesis using t by simp
qed

lemma load_entries:
  assumes "sec \<noteq> []" "\<forall>kv \<in> set kvs. key_text (fst kv) \<and> plain_text (snd kv)"
  shows "fold load_line (getlines (concat (map render_entry kvs) @ rest)) (sec, cfg) =
    fold load_line (getlines rest) (sec, fold (\<lambda>kv. put sec (fst kv) (snd kv)) kvs cfg)"
  using assms(2)
proof (induction kvs arbitrary: cfg)
  case (Cons kv kvs)
  let ?l = "fst kv @ '' = '' @ [CHR 0x22] @ snd kv @ [CHR 0x22]"
  have "CHR 0x0A \<notin> set ?l" using Cons.prems by (auto simp: key_text_def plain_text_def)
  then have "getlines (concat (map render_entry (kv # kvs)) @ rest) =
      ?l # getlines (concat (map render_entry kvs) @ rest)"
    using getlines_line [of ?l "concat (map render_entry kvs) @ rest"] by (simp add: render_entry_def)
  then show ?case using Cons load_entry [OF _ _ assms(1), of "fst kv" "snd kv" cfg] by simp
qed simp

lemma load_rendered:
  assumes "renderable ss"
  shows "Load (Some (render ss)) cfg =
    fold (\<lambda>s. fold (\<lambda>kv. put (fst s) (fst kv) (snd kv)) (snd s)) ss cfg"
proof -
  have "snd (fold load_line (getlines (render ss)) (cur, cfg)) =
      fold (\<lambda>s. fold (\<lambda>kv. put (fst s) (fst kv) (snd kv)) (snd s)) ss cfg" for cur
    using assms
  proof (induction ss arbitrary: cur cfg)
    case Nil
    then show ?case by (simp add: render_def getlines.simps)
  next
    case (Cons s ss)
    have s: "plain_text (fst s)" "fst s \<noteq> []" "\<forall>kv \<in> set (snd s). key_text (fst kv) \<and> plain_text (snd kv)"
      and ss: "renderable ss" using Cons.prems by (simp_all add: renderable_def)
    have "CHR 0x0A \<notin> set (''['' @ fst s @ '']'')" using s(1) by (auto simp: plain_text_def)
    from getlines_line [OF this, of "concat (map render_entry (snd s)) @ render ss"]
    have "getlines (render (s # ss)) =
        (''['' @ fst s @ '']'') # getlines (concat (map render_entry (snd s)) @ render ss)"
      by (simp add: render_def render_section_def)
    then show ?case
      using load_header [OF s(1), of cur cfg] load_entries [OF s(2,3)] Cons.IH [OF ss] by simp
  qed
  then show ?thesis by (simp add: Load_def)
qed

text \<open>
  C35. A configuration that is written as an INI file and loaded comes back: every entry of every
  section ends up under its section and key with its value, later entries replacing earlier
  ones, on top of what was loaded before. Values are quoted and may contain blanks, quotes,
  brackets and equals signs; no text contains a comment sign or a line end.
\<close>

theorem config_written_then_loaded:
  assumes "renderable ss"
  shows "Load (Some (render ss)) cfg =
    fold (\<lambda>s. fold (\<lambda>kv. put (fst s) (fst kv) (snd kv)) (snd s)) ss cfg"
  using assms by (rule load_rendered)

theorem config_written_then_loaded_witness:
  "section_get (config_get (Load (Some (render [(''server'', [(''grpc_port'', ''50051''), (''udp_port_start'', ''10000'')])]))
     Map.empty) ''server'') ''udp_port_start'' = ''10000''"
  using config_written_then_loaded [of "[(''server'', [(''grpc_port'', ''50051''), (''udp_port_start'', ''10000'')])]" Map.empty]
  by (simp add: renderable_def plain_text_def key_text_def is_comment_def blank_char_def section_get_def config_get_def put_def)

section \<open>Where the reader surprises\<close>

text \<open>
  Comments are cut off only after the blanks, so a blank and a comment behind a section
  header hide the header: the entries that follow go to the section before it. And a comment
  sign inside quotes cuts the value off, leaving the opening quote in it.
\<close>

lemma comments_break_headers_and_values:
  assumes sec: "plain_text sec" "CHR ''='' \<notin> set sec" and b: "blank_char b" and h: "is_comment h"
    and c: "c = [] \<or> \<not> blank_char (last c)"
    and k: "key_text k" "hd k \<noteq> CHR ''[''" and cur: "cur \<noteq> []"
    and v: "plain_text v" "v = [] \<or> \<not> blank_char (last v) \<and> last v \<noteq> CHR 0x22"
  shows "load_line (''['' @ sec @ '']'' @ [b, h] @ c) (cur, cfg) = (cur, cfg) \<and>
    load_line (k @ '' = '' @ [CHR 0x22] @ v @ [h] @ w @ [CHR 0x22]) (cur, cfg) = (cur, put cur k (CHR 0x22 # v) cfg)"
proof
  have nb: "\<not> is_comment b" "\<not> blank_char h" using b h by (auto simp: blank_char_def is_comment_def)
  let ?l = "''['' @ sec @ '']'' @ [b, h] @ c"
  have "dropWhile blank_char (rev ?l) = rev ?l" using c nb by (intro dropWhile_id) (auto simp: hd_rev hd_append)
  moreover have "takeWhile (\<lambda>c. \<not> is_comment c) ((''['' @ sec @ '']'' @ [b]) @ [h] @ c) = ''['' @ sec @ '']'' @ [b]"
    using sec(1) h nb(1) by (subst takeWhile_append2) (auto simp: plain_text_def is_comment_def)
  ultimately have "trim ?l = ''['' @ sec @ '']'' @ [b]" by (simp add: trim_def blank_char_def)
  moreover have "b \<noteq> CHR '']''" "b \<noteq> CHR ''=''" using b by (auto simp: blank_char_def)
  ultimately show "load_line ?l (cur, cfg) = (cur, cfg)" using sec(2) by (simp add: key_line_def)
next
  have k': "plain_text k" "k \<noteq> []" "\<not> blank_char (hd k)" "\<not> blank_char (last k)" "CHR ''='' \<notin> set k"
    using k(1) by (simp_all add: key_text_def)
  let ?q = "[CHR 0x22] @ v"
  let ?l = "k @ '' = '' @ ?q @ [h] @ w @ [CHR 0x22]"
  have "dropWhile blank_char ?l = ?l" "dropWhile blank_char (rev ?l) = rev ?l"
    using k' by (auto intro!: dropWhile_id simp: blank_char_def)
  moreover have "takeWhile (\<lambda>c. \<not> is_comment c) ((k @ '' = '' @ ?q) @ [h] @ w @ [CHR 0x22]) = k @ '' = '' @ ?q"
    using k'(1) v(1) h by (subst takeWhile_append2) (auto simp: plain_text_def is_comment_def)
  ultimately have t: "trim ?l = k @ '' = '' @ ?q" by (simp add: trim_def)
  have parts: "takeWhile (\<lambda>c. c \<noteq> CHR ''='') (k @ '' = '' @ ?q) = k @ [CHR '' '']"
    "dropWhile (\<lambda>c. c \<noteq> CHR ''='') (k @ '' = '' @ ?q) = ''= '' @ ?q"
    using k'(5) by (subst takeWhile_append2 dropWhile_append2; auto)+
  have "trim (k @ [CHR '' '']) = k" using trim_blank_end(1) [OF k'(1-4)] by (simp add: blank_char_def)
  moreover have "trim (CHR '' '' # ?q) = ?q"
    by (rule trim_blank_end(2)) (use v in \<open>auto simp: plain_text_def is_comment_def blank_char_def\<close>)
  moreover have "unquote ?q = ?q" using v(2) by (auto simp: unquote_def)
  ultimately have "key_line (k @ '' = '' @ ?q) cur cfg = (put cur k ?q cfg)"
    using cur k'(2) unfolding key_line_def parts by simp
  then show "load_line (k @ '' = '' @ [CHR 0x22] @ v @ [h] @ w @ [CHR 0x22]) (cur, cfg) = (cur, put cur k (CHR 0x22 # v) cfg)"
    using t k(2) k'(2) by simp
qed

lemma comments_break_headers_and_values_example:
  "load_line ''[log] # logging'' (''server'', Map.empty) = (''server'', Map.empty) \<and>
   load_line (''secret = '' @ [CHR 0x22] @ ''a#b'' @ [CHR 0x22]) (''jwt'', Map.empty) =
     (''jwt'', put ''jwt'' ''secret'' (CHR 0x22 # ''a'') Map.empty)"
  using comments_break_headers_and_values [of "''log''" "CHR '' ''" "CHR ''#''" "'' logging''" "''secret''" "''server''" "''a''" Map.empty "''b''"]
    comments_break_headers_and_values [of "''log''" "CHR '' ''" "CHR ''#''" "'' logging''" "''secret''" "''jwt''" "''a''" Map.empty "''b''"]
  by (simp add: plain_text_def key_text_def is_comment_def blank_char_def)

text \<open>
  \<open>Logger::init\<close> computes the size of the log file within \<open>int\<close> exactly if no file is named or
  the size is from -2048 to 2047 MB.
\<close>

lemma log_init_overflows:
  "log_init cfg = None \<longleftrightarrow> strip_quotes (section_get (config_get cfg ''log'') ''log_file'') \<noteq> [] \<and>
     (case log_numbers (config_get cfg ''log'') of (mb, b, a) \<Rightarrow> mb < - 2048 \<or> 2047 < mb)"
proof -
  obtain mb b a where n: "log_numbers (config_get cfg ''log'') = (mb, b, a)" by (cases "log_numbers (config_get cfg ''log'')")
  have "int_mul mb 1024 \<bind> (\<lambda>kb. int_mul kb 1024) = None \<longleftrightarrow> mb < - 2048 \<or> 2047 < mb"
    by (auto simp: int_mul_def)
  then show ?thesis
    by (auto simp: log_init_def n Let_def split: option.splits Option.bind_splits)
qed

end
