(* ===== verification/Udp.thy ===== *)
theory Udp
  imports Dtls
begin

text \<open>
  \<open>transport/UdpServer.h\<close> and \<open>.cpp\<close>: the socket, from the constructor to the destructor. The
  receive loop is in \<open>Server\<close>. \<open>sendTo\<close> only starts an operation of Boost.Asio, which is not
  code of the repository: the models of its callers append the datagram to \<open>sent\<close>.
\<close>

record udp_server =
  us_port :: u16
  us_open :: bool

text \<open>The socket opens and binds in the constructor, which throws if that fails.\<close>

definition UdpServer_new :: "(u16 \<Rightarrow> bool) \<Rightarrow> u16 \<Rightarrow> udp_server option" where
  "UdpServer_new binds port =
     (if binds port
      then Some \<lparr>us_port = port, us_open = True\<rparr>
      else None)"

definition UdpServer_close :: "udp_server \<Rightarrow> udp_server" where
  "UdpServer_close u = u\<lparr>us_open := False\<rparr>"

definition getPort :: "udp_server \<Rightarrow> u16" where
  "getPort u = us_port u"

end
