(* ===== verification/Startup.thy ===== *)
theory Startup
  imports Service Config Udp
begin

text \<open>
  From \<open>main.cpp\<close> to the running server: \<open>core/MediaServer.h\<close> and \<open>.cpp\<close>, \<open>grpc/GrpcServer.h\<close> and
  \<open>.cpp\<close>. What the outside decides (the files, whether ports can be bound, whether the log
  file can be opened) and the libraries are parameters. An exception is an \<open>Inl\<close>; a signed
  overflow is \<^const>\<open>None\<close>.
\<close>

section \<open>The outside\<close>

datatype signal = SIGINT | SIGTERM

text \<open>
  The \<open>io_context\<close> of Boost.Asio as far as signals go: making a \<open>signal_set\<close>, waiting on it,
  destroying it; one thing that happens inside (a signal arrives, a thread polls), with the
  error flags of the waits that complete by it; whether no wait is outstanding.
\<close>

record 'i asio_lib =
  io_context_new :: 'i
  signal_set_new :: "signal list \<Rightarrow> 'i \<Rightarrow> nat \<times> 'i"
  signal_set_wait :: "nat \<Rightarrow> 'i \<Rightarrow> 'i"
  signal_set_destroy :: "nat \<Rightarrow> 'i \<Rightarrow> 'i"
  io_happens :: "nat \<Rightarrow> 'i \<Rightarrow> 'i \<times> bool list"
  no_waits :: "'i \<Rightarrow> bool"

record ('s, 'd, 'k, 'x, 'c, 'i) sys =
  libs :: "('s, 'd) env"
  tlsL :: "('k, 'x, 'c) tls_lib"
  asioL :: "'i asio_lib"
  file_text :: "string \<Rightarrow> string option"
  log_opens :: "string \<Rightarrow> int \<Rightarrow> int \<Rightarrow> bool"
  grpc_builds :: "string \<Rightarrow> bool"
  udp_binds :: "u16 \<Rightarrow> bool"
  ice_gen :: "nat \<Rightarrow> u32"
  ice_pos :: nat
  ssrc_gen :: "nat \<Rightarrow> u32"

datatype start_error = Bad_number int_error | Log_not_opened | Port_not_bound

section \<open>The gRPC server\<close>

text \<open>\<^const>\<open>None\<close> is the null pointer \<open>BuildAndStart\<close> returns when it cannot listen.\<close>

datatype grpc_state = Serving | Shut_down

record grpc_server =
  listenAddr :: string
  grpc_server :: "grpc_state option"

definition GrpcServer_new :: "(string \<Rightarrow> bool) \<Rightarrow> string \<Rightarrow> int \<Rightarrow> grpc_server" where
  "GrpcServer_new builds addr port =
     (let listen = addr @ '':'' @ show_port port
      in \<lparr>listenAddr = listen, grpc_server = (if builds listen then Some Serving else None)\<rparr>)"

text \<open>\<open>run\<close> blocks in \<open>Wait\<close> until the server is shut down; without a server it returns.\<close>

definition GrpcServer_run_returns :: "grpc_server \<Rightarrow> bool" where
  "GrpcServer_run_returns g \<longleftrightarrow> grpc_server g \<noteq> Some Serving"

definition GrpcServer_stop :: "grpc_server \<Rightarrow> grpc_server" where
  "GrpcServer_stop g = (if grpc_server g \<noteq> None then g\<lparr>grpc_server := Some Shut_down\<rparr> else g)"

text \<open>The destructor.\<close>

definition GrpcServer_delete :: "grpc_server \<Rightarrow> grpc_server" where
  "GrpcServer_delete g = GrpcServer_stop g"

section \<open>The server object\<close>

record ('s, 'd, 'c, 'i) media_server =
  ms_configPath :: string
  ms_dtlsFingerprint :: string
  ms_dtls :: "'c dtls_globals"
  ms_ioc :: 'i
  ms_stopped :: bool
  ms_udp :: udp_server
  ms_grpc :: grpc_server
  ms_srv :: "('s, 'd) server"

text \<open>
  The assembly after the gRPC server has been started, on the state the calls that were
  served until then have left: the parts get to know each other, receiving starts, the
  service gets its parts.
\<close>

definition assemble :: "ice_server \<Rightarrow> ('s, 'd) server \<Rightarrow> ('s, 'd) server" where
  "assemble ice s =
     (let s1 = setRouter True (setIceServer (Some ice) s);
          s2 = startReceive s1
      in setPacketRouter True (setServiceIce (Some ice) (setServiceRouter True s2)))"

lemma setupComponents_assemble:
  "setupComponents gen pos g = assemble (ice_setSendCallback (ice_new gen pos)) (server_new g)"
  by (simp add: setupComponents_def assemble_def Let_def)

text \<open>\<open>setupSignals\<close>: the signal set is owned by a local variable only.\<close>

definition setupSignals :: "'i asio_lib \<Rightarrow> 'i \<Rightarrow> 'i" where
  "setupSignals lib i =
     (let (signals, i1) = signal_set_new lib [SIGINT, SIGTERM] i;
          i2 = signal_set_wait lib signals i1
      in signal_set_destroy lib signals i2)"

definition server_setting :: "config \<Rightarrow> string \<Rightarrow> string" where
  "server_setting cfg key = section_get (config_get cfg ''server'') key"

text \<open>\<open>setupComponents\<close> up to the socket; the rest of it cannot fail.\<close>

definition open_ports ::
  "('s, 'd, 'k, 'x, 'c, 'i) sys \<Rightarrow> config \<Rightarrow> start_error + grpc_server \<times> udp_server" where
  "open_ports y cfg =
     (case stoi (server_setting cfg ''grpc_port'') of Inl e \<Rightarrow> Inl (Bad_number e)
      | Inr grpcPort \<Rightarrow>
        (let grpc = GrpcServer_new (grpc_builds y) ''0.0.0.0'' grpcPort
         in case stoi (server_setting cfg ''udp_port_start'') of Inl e \<Rightarrow> Inl (Bad_number e)
            | Inr port \<Rightarrow>
              (case UdpServer_new (udp_binds y) (word_of_int port) of None \<Rightarrow> Inl Port_not_bound
               | Some udp \<Rightarrow> Inr (grpc, udp))))"

text \<open>The constructor: certificate, \<open>io_context\<close>, components, signals.\<close>

definition MediaServer_new ::
  "('s, 'd, 'k, 'x, 'c, 'i) sys \<Rightarrow> config \<Rightarrow> string \<Rightarrow> start_error + ('s, 'd, 'c, 'i) media_server" where
  "MediaServer_new y cfg path =
     (let (fp, dg) = initGlobals (tlsL y) '''' '''' dtls_globals_init;
          ioc = io_context_new (asioL y)
      in case open_ports y cfg of Inl e \<Rightarrow> Inl e
         | Inr (grpc, udp) \<Rightarrow> Inr
             \<lparr>ms_configPath = path, ms_dtlsFingerprint = fp, ms_dtls = dg,
              ms_ioc = setupSignals (asioL y) ioc, ms_stopped = False, ms_udp = udp, ms_grpc = grpc,
              ms_srv = setupComponents (ice_gen y) (ice_pos y) (ssrc_gen y)\<rparr>)"

definition MediaServer_stop ::
  "('s, 'd, 'c, 'i) media_server \<Rightarrow> ('s, 'd, 'c, 'i) media_server" where
  "MediaServer_stop m = m\<lparr>ms_grpc := GrpcServer_stop (ms_grpc m), ms_stopped := True\<rparr>"

text \<open>
  The destructor: \<open>stop\<close>, then the members in the reverse of their order, of which the gRPC server
  and the socket have something to do.
\<close>

definition MediaServer_delete ::
  "('s, 'd, 'c, 'i) media_server \<Rightarrow> ('s, 'd, 'c, 'i) media_server" where
  "MediaServer_delete m =
     (let m1 = MediaServer_stop m
      in m1\<lparr>ms_grpc := GrpcServer_delete (ms_grpc m1), ms_udp := UdpServer_close (ms_udp m1)\<rparr>)"

text \<open>
  What the calls and the receive loop of the process read outside the objects of the server: the
  static member of \<open>DtlsContext\<close> as the constructor has left it, and the configuration.
\<close>

definition running_env ::
  "('s, 'd, 'k, 'x, 'c, 'i) sys \<Rightarrow> config \<Rightarrow> ('s, 'd, 'c, 'i) media_server \<Rightarrow> ('s, 'd) env" where
  "running_env y cfg m = (libs y)
     \<lparr>certFingerprint := dtls_fingerprint_of (ms_dtls m),
      cfgPublicIp := server_setting cfg ''public_ip''\<rparr>"

section \<open>The program\<close>

definition Logger_init ::
  "('s, 'd, 'k, 'x, 'c, 'i) sys \<Rightarrow> string \<Rightarrow> (start_error + config \<times> log_setup) option" where
  "Logger_init y path = do {
     let cfg = Load (file_text y path) Map.empty;
     ls \<leftarrow> log_init cfg;
     Some (case file_sink ls of
         Some (f, bytes, backups) \<Rightarrow> if log_opens y f bytes backups then Inr (cfg, ls) else Inl Log_not_opened
       | None \<Rightarrow> Inr (cfg, ls))
   }"

definition config_path :: "string list \<Rightarrow> string" where
  "config_path argv = (if 1 < length argv then argv ! 1 else ''configs/media-svc.ini'')"

text \<open>\<open>main\<close> up to \<open>run\<close>: an exception of a start-up step is the exit status \<open>EXIT_FAILURE\<close>.\<close>

definition main ::
  "('s, 'd, 'k, 'x, 'c, 'i) sys \<Rightarrow> string list
   \<Rightarrow> (start_error + config \<times> ('s, 'd, 'c, 'i) media_server) option" where
  "main y argv = do {
     r \<leftarrow> Logger_init y (config_path argv);
     Some (case r of Inl e \<Rightarrow> Inl e
       | Inr (cfg, ls) \<Rightarrow>
           (case MediaServer_new y cfg (config_path argv) of Inl e \<Rightarrow> Inl e | Inr m \<Rightarrow> Inr (cfg, m)))
   }"

end
