(* ===== verification/OfferProps.thy ===== *)
theory OfferProps
  imports ServerProps
begin

text \<open>
  \<open>SendOffer\<close> as a whole: the mids of the request are bound to consumers and the answer tells
  the browser the SSRC of every subscription that has a mid.
\<close>

section \<open>Which consumer gets a mid\<close>

lemma mid_match_pair: "mid_match s pid v c \<Longrightarrow> mid_match s pid' v' c \<Longrightarrow> pid = pid' \<and> v = v'"
  by (auto simp: mid_match_def)

lemma mid_match_alt: "mid_match s pid v c \<longleftrightarrow> (\<exists>cc q. conss s c = Some cc \<and> c_isVideo cc = v \<and>
    c_publisher cc = Some q \<and> map_option peerId (peers s q) = Some pid)"
  by (auto simp: mid_match_def)

lemma mid_match_step:
  assumes "graph_step s t"
  shows "mid_match t = mid_match s"
proof (intro ext iffI)
  have g: "same_graph s t" and f: "frame {} s t" using assms by (simp_all add: graph_step_def)
  note ids = frame_peerId [OF f]
  fix pid v c
  show "mid_match s pid v c \<Longrightarrow> mid_match t pid v c"
    unfolding mid_match_alt ids using same_graph_cons [OF same_graph_sym [OF g]] cons_shapeD(2,3) by metis
  show "mid_match t pid v c \<Longrightarrow> mid_match s pid v c"
    unfolding mid_match_alt ids using same_graph_cons [OF g] cons_shapeD(2,3) by metis
qed

lemma graph_step_consumers:
  assumes "graph_step s t" "peers s a = Some p"
  shows "\<exists>q. peers t a = Some q \<and> consumers q = consumers p"
proof -
  have "map_option peer_shape (peers t a) = Some (peer_shape p)"
    using assms by (simp add: graph_step_def same_graph_def)
  then show ?thesis by (auto simp: peer_shape_def)
qed

text \<open>The consumer of \<open>cs\<close> that the media line \<open>r\<close> belongs to.\<close>

definition found :: "('s, 'd) server \<Rightarrow> nat list \<Rightarrow> recv_mid \<Rightarrow> nat option" where
  "found s cs r = List.find (mid_match s (rm_publisher r) (rm_isVideo r)) cs"

lemma found_once: "found s cs r = Some c \<Longrightarrow> found s cs r' = Some c \<Longrightarrow>
    (rm_publisher r, rm_isVideo r) = (rm_publisher r', rm_isVideo r')"
  using mid_match_pair [of s "rm_publisher r" "rm_isVideo r" c "rm_publisher r'" "rm_isVideo r'"]
  by (simp add: found_def) (auto dest!: find_Some_in)

lemma found_live: "found s cs r = Some c \<Longrightarrow> c \<in> set cs \<and> conss s c \<noteq> None"
  unfolding found_def by (auto dest!: find_Some_in simp: mid_match_def)

lemma bind_recv_mid_eq:
  assumes "router_inv t" "peers t a = Some p"
  shows "bind_recv_mid a r (m, t) = Some (case found t (consumers p) r of None \<Rightarrow> (m, t)
    | Some c \<Rightarrow> (if out_ssrc t c \<noteq> 0 then m(rm_mid r \<mapsto> out_ssrc t c) else m,
        t\<lparr>conss := modify c (\<lambda>x. x\<lparr>c_recvMid := rm_mid r\<rparr>) (conss t)\<rparr>))"
  using bindConsumerByMid_eq [OF assms, of "rm_publisher r" "rm_isVideo r" "rm_mid r"]
  by (simp add: bind_recv_mid_def found_def split: option.split)

text \<open>
  With one media line per publisher and kind, each line's consumer keeps the mid it gets.
\<close>

definition bound_so_far ::
  "('s, 'd) server \<Rightarrow> nat list \<Rightarrow> recv_mid list \<Rightarrow> (string \<rightharpoonup> u32) \<times> ('s, 'd) server \<Rightarrow> bool" where
  "bound_so_far s cs rs x \<longleftrightarrow> graph_step s (snd x) \<and>
     dom (fst x) \<subseteq> rm_mid ` {r \<in> set rs. found s cs r \<noteq> None} \<and>
     (\<forall>r \<in> set rs. \<forall>c. found s cs r = Some c \<longrightarrow> c_recvMid (the (conss (snd x) c)) = rm_mid r)"

lemma bound_step:
  assumes inv: "server_inv s" and p: "peers s a = Some p" and x: "bound_so_far s (consumers p) rs x"
    and new: "(rm_publisher r, rm_isVideo r) \<notin> (\<lambda>r. (rm_publisher r, rm_isVideo r)) ` set rs"
  shows "runs (bind_recv_mid a r x) (bound_so_far s (consumers p) (rs @ [r]))"
proof -
  obtain m t where mt: "x = (m, t)" by (cases x)
  have g: "graph_step s t" using x by (simp add: bound_so_far_def mt)
  obtain q where q: "peers t a = Some q" "consumers q = consumers p"
    using graph_step_consumers [OF g p] by blast
  have rt: "router_inv t" using graph_step_inv [OF g inv] by (simp add: server_inv_def)
  have f: "found t (consumers q) r = found s (consumers p) r"
    by (simp add: found_def q(2) mid_match_step [OF g])
  note eq = bind_recv_mid_eq [OF rt q(1), of r m, unfolded f]
  show ?thesis
  proof (cases "found s (consumers p) r")
    case None
    moreover have "{r' \<in> set (rs @ [r]). found s (consumers p) r' \<noteq> None} = {r' \<in> set rs. found s (consumers p) r' \<noteq> None}"
      using None by auto
    ultimately show ?thesis using eq x by (auto simp: mt bound_so_far_def)
  next
    case (Some c)
    let ?t = "t\<lparr>conss := modify c (\<lambda>x. x\<lparr>c_recvMid := rm_mid r\<rparr>) (conss t)\<rparr>"
    have live: "conss t c \<noteq> None" using found_live [of t "consumers q" r c] f Some by simp
    have "same_graph t ?t" by (rule same_graph_cons_upd) (simp add: cons_shape_def)
    then have step: "graph_step s ?t"
      by (intro graph_step_trans [OF g]) (simp add: graph_step_def frame_same)
    have "found s (consumers p) r' \<noteq> Some c" if "r' \<in> set rs" for r'
      using found_once [OF Some, of r'] new that by auto
    then have "\<forall>r' \<in> set (rs @ [r]). \<forall>d. found s (consumers p) r' = Some d \<longrightarrow>
        c_recvMid (the (conss ?t d)) = rm_mid r'"
      using x live Some by (auto simp: bound_so_far_def mt)
    moreover have "dom (if out_ssrc t c \<noteq> 0 then m(rm_mid r \<mapsto> out_ssrc t c) else m)
        \<subseteq> rm_mid ` {r' \<in> set (rs @ [r]). found s (consumers p) r' \<noteq> None}"
      using x Some by (auto simp: bound_so_far_def mt)
    ultimately show ?thesis using step eq Some by (simp add: mt bound_so_far_def)
  qed
qed

lemma offer_bindings_eq:
  fixes s :: "('s, 'd) server"
  assumes inv: "server_inv s" and a: "findPeer k s = Some a" "svc_router s"
    and one: "distinct (map (\<lambda>r. (rm_publisher r, rm_isVideo r)) rms)" and named: "\<forall>r \<in> set rms. rm_mid r \<noteq> ''''"
  shows "\<exists>p t. peers s a = Some p \<and> graph_step s t \<and> peers t a \<noteq> None \<and>
    offer_bindings k rms s = Some (map_of (rev (bound_mids t (consumers p))), t) \<and>
    (\<forall>r \<in> set rms. \<forall>c. found s (consumers p) r = Some c \<longrightarrow> c_recvMid (the (conss t c)) = rm_mid r)"
proof -
  obtain p where p: "peers s a = Some p" using registered_live [OF inv a(1)] by blast
  have "runs (foldM (bind_recv_mid a) rms (Map.empty, s)) (bound_so_far s (consumers p) rms)"
  proof (rule runs_foldM_prefix)
    fix ys r zs x assume "rms = ys @ r # zs" "bound_so_far s (consumers p) ys x"
    then show "runs (bind_recv_mid a r x) (bound_so_far s (consumers p) (ys @ [r]))"
      by (intro bound_step [OF inv p]) (use one in auto)
  qed (simp add: bound_so_far_def)
  then obtain m t where t: "foldM (bind_recv_mid a) rms (Map.empty, s) = Some (m, t)"
    "bound_so_far s (consumers p) rms (m, t)" by (auto simp: runs_def)
  then have g: "graph_step s t" by (simp add: bound_so_far_def)
  obtain q where q: "peers t a = Some q" "consumers q = consumers p"
    using graph_step_consumers [OF g p] by blast
  have "router_inv t" using graph_step_inv [OF g inv] by (simp add: server_inv_def)
  from getAllBoundSsrcs_eq [OF this q(1)]
  have all: "getAllBoundSsrcs a t = Some (map_of (rev (bound_mids t (consumers p))))" by (simp add: q(2))
  have listed: "(rm_mid r, out_ssrc t c) \<in> set (bound_mids t (consumers p))"
    if "r \<in> set rms" "found s (consumers p) r = Some c" for r c
  proof -
    have "c_recvMid (the (conss t c)) = rm_mid r" using t(2) that by (simp add: bound_so_far_def)
    then show ?thesis using found_live [OF that(2)] that(1) named by (force simp: bound_mids_def)
  qed
  have mids: "rm_mid r \<in> dom (map_of (rev (bound_mids t (consumers p))))"
    if r: "r \<in> set rms" "found s (consumers p) r \<noteq> None" for r
  proof -
    obtain c where "found s (consumers p) r = Some c" using r(2) by blast
    from listed [OF r(1) this]
    have "(rm_mid r, out_ssrc t c) \<in> set (rev (bound_mids t (consumers p)))" by simp
    then show ?thesis unfolding dom_map_of_conv_image_fst by (rule image_eqI [rotated]) simp
  qed
  have "dom m \<subseteq> rm_mid ` {r \<in> set rms. found s (consumers p) r \<noteq> None}"
    using t(2) by (simp add: bound_so_far_def)
  then have "dom m \<subseteq> dom (map_of (rev (bound_mids t (consumers p))))" using mids by blast
  then have "m ++ map_of (rev (bound_mids t (consumers p))) = map_of (rev (bound_mids t (consumers p)))"
    by (intro ext) (auto simp: map_add_def dom_def split: option.split)
  then have "offer_bindings k rms s = Some (map_of (rev (bound_mids t (consumers p))), t)"
    using a t(1) all by (simp add: offer_bindings_def)
  then show ?thesis using p g q(1) t(2) by (auto simp: bound_so_far_def)
qed

section \<open>The answer\<close>

lemma bound_mids_cong: "conss t = conss s \<Longrightarrow> bound_mids t = bound_mids s"
  by (simp add: bound_mids_def out_ssrc_def fun_eq_iff)

text \<open>The lines of the answer for one section of the offer, with the SSRCs \<open>m\<close>.\<close>

definition announced :: "(string \<rightharpoonup> u32) \<Rightarrow> media_section \<Rightarrow> string list" where
  "announced m sec = (if offer_direction sec = ''recvonly''
     then (case m (sec_mid sec) of None \<Rightarrow> [] | Some ssrc \<Rightarrow> map with_cr (ssrc_lines ssrc)) else [])"

text \<open>
  C4. \<open>SendOffer\<close> tells the browser every subscription: each media line of the request gives
  its mid to the subscriber's first consumer of that publisher and kind, and the \<open>a=ssrc\<close>
  lines of the answer are, in the order of the offer, those of the outgoing SSRC of the
  consumer bound to the mid of each section that only receives, and no others. The request has
  at most one line per publisher and kind, and no empty mid.
\<close>

theorem offer_announces_subscriptions:
  assumes inv: "server_inv s" and a: "findPeer k s = Some a" "svc_router s" and ok: "server_ok (offer_parser e s)"
    and one: "distinct (map (\<lambda>r. (rm_publisher r, rm_isVideo r)) rms)" and named: "\<forall>r \<in> set rms. rm_mid r \<noteq> ''''"
    and send: "SendOffer e k sdp rms s = Some (Inr ans, t)" "ans \<noteq> ''''"
  shows "\<exists>p q m. peers s a = Some p \<and> m = map_of (rev (bound_mids t (consumers p))) \<and>
    fst (parseOffer sdp (setMidSsrcMap m (offer_parser e s)) (statics s)) = Inr (True, q) \<and>
    filter (prefix ''a=ssrc:'') (getlines ans) = concat (map (announced m) (sections q)) \<and>
    (\<forall>r \<in> set rms. \<forall>c. found s (consumers p) r = Some c \<longrightarrow> c_recvMid (the (conss t c)) = rm_mid r)"
proof -
  obtain p u where u: "peers s a = Some p" "graph_step s u"
    "offer_bindings k rms s = Some (map_of (rev (bound_mids u (consumers p))), u)"
    "\<forall>r \<in> set rms. \<forall>c. found s (consumers p) r = Some c \<longrightarrow> c_recvMid (the (conss u c)) = rm_mid r"
    using offer_bindings_eq [OF inv a one named] by blast
  let ?m = "map_of (rev (bound_mids u (consumers p)))"
  let ?pr = "setMidSsrcMap ?m (offer_parser e s)"
  obtain r g where r: "generateAnswer sdp ?pr (statics u) = (r, g)" by fastforce
  have t: "map_sum id fst r = Inr ans" "t = u\<lparr>statics := g\<rparr>"
    using send(1) by (simp_all add: SendOffer_def u(3) r)
  then obtain q where q: "r = Inr (ans, q)" by (cases r) auto
  have st: "statics u = statics s" using u(2) frame_eqs(10) by (auto simp: graph_step_def)
  have "fst (parseOffer sdp ?pr (statics s)) = Inr (True, q)"
    using r send(2) unfolding st by (auto simp: generateAnswer_def q split: prod.splits sum.splits if_splits)
  moreover have "server_ok ?pr" using ok by (simp add: server_ok_def setMidSsrcMap_def)
  note lines = answer_ssrc_lines [OF r [unfolded q] send(2) this]
  have "midSsrc ?pr = ?m" by (simp add: setMidSsrcMap_def)
  then have "filter (prefix ''a=ssrc:'') (getlines ans) = concat (map (announced ?m) (sections q))"
    using lines by (simp only: announced_def [abs_def])
  moreover have "bound_mids t = bound_mids u" by (rule bound_mids_cong) (simp add: t(2))
  moreover have "conss t = conss u" by (simp add: t(2))
  ultimately show ?thesis using u(1,4) by auto
qed

text \<open>Bob, whose service has no ICE credentials yet, asks for Alice's video on the mid 1.\<close>

definition bob_plain :: "(srtp_policy, unit) server" where
  "bob_plain = bob_waits\<lparr>svc_ice := None\<rparr>"

definition wants_video :: "recv_mid list" where
  "wants_video = [\<lparr>rm_publisher = ''alice'', rm_isVideo = True, rm_mid = ''1''\<rparr>]"

lemma bob_plain: "server_inv bob_plain" "findPeer ''bob'' bob_plain = Some 1" "svc_router bob_plain"
    "server_ok (offer_parser sample_env bob_plain)"
proof -
  show "server_inv bob_plain"
    unfolding bob_plain_def by (rule server_inv_ext [OF bob_waits(2)]) (simp_all add: same_graph_def)
  show "findPeer ''bob'' bob_plain = Some 1" "svc_router bob_plain"
    using bob_waits(3,5) by (simp_all add: bob_plain_def findPeer_def)
  show "server_ok (offer_parser sample_env bob_plain)"
    by (simp add: offer_parser_def bob_plain_def parser_new_def server_ok_def)
qed

lemma bob_offer:
  "\<exists>ans t. SendOffer sample_env ''bob'' sample_offer wants_video bob_plain = Some (Inr ans, t) \<and> ans \<noteq> ''''"
proof -
  let ?t = "bob_plain\<lparr>conss := modify 2 (\<lambda>x. x\<lparr>c_recvMid := ''1''\<rparr>) (conss bob_plain)\<rparr>"
  have conss: "conss bob_plain 2 = Some (new_consumer 1 0 True 0x40000000)"
    and peers: "peers bob_plain 1 = Some (new_peer\<lparr>peerId := ''bob'', consumers := [2]\<rparr>)"
      "peers bob_plain 0 = Some (new_peer\<lparr>peerId := ''alice''\<rparr>)"
    using bob_waits(6-8) by (simp_all add: bob_plain_def)
  have "found bob_plain [2] (hd wants_video) = Some 2"
    using conss peers(2) by (simp add: found_def mid_match_alt wants_video_def new_consumer_def)
  then have "bind_recv_mid 1 (hd wants_video) (Map.empty, bob_plain) = Some ([''1'' \<mapsto> 0x40000000], ?t)"
    using bind_recv_mid_eq [of bob_plain 1 _ "hd wants_video" Map.empty, OF _ peers(1)] bob_plain(1) conss
    by (simp add: server_inv_def out_ssrc_def new_consumer_def wants_video_def)
  moreover have "getAllBoundSsrcs 1 ?t = Some [''1'' \<mapsto> 0x40000000]"
    using conss peers(1) by (simp add: getAllBoundSsrcs_def new_consumer_def)
  ultimately have b: "offer_bindings ''bob'' wants_video bob_plain = Some ([''1'' \<mapsto> 0x40000000], ?t)"
    using bob_plain(2,3) by (simp add: offer_bindings_def wants_video_def)
  have pr: "setMidSsrcMap [''1'' \<mapsto> 0x40000000] (offer_parser sample_env bob_plain) = sample_parser"
    by (simp add: setMidSsrcMap_def offer_parser_def bob_plain_def sample_parser_def)
  obtain q g where q: "parseOffer sample_offer sample_parser globals_init = (Inr (True, q), g)" by (rule sample_parsed)
  have "statics bob_plain = globals_init" using bob_waits(9) by (simp add: bob_plain_def)
  then show ?thesis
    by (simp add: SendOffer_def b pr generateAnswer_def q answer_lines_def answer_header_def)
qed

theorem offer_announces_subscriptions_witness:
  "\<exists>ans t p. \<exists>q :: sdp_parser. SendOffer sample_env ''bob'' sample_offer wants_video bob_plain = Some (Inr ans, t) \<and>
     peers bob_plain 1 = Some p \<and> filter (prefix ''a=ssrc:'') (getlines ans) =
       concat (map (announced (map_of (rev (bound_mids t (consumers p))))) (sections q))"
proof -
  obtain ans t where s: "SendOffer sample_env ''bob'' sample_offer wants_video bob_plain = Some (Inr ans, t)"
    "ans \<noteq> ''''" using bob_offer by blast
  have "distinct (map (\<lambda>r. (rm_publisher r, rm_isVideo r)) wants_video)" "\<forall>r \<in> set wants_video. rm_mid r \<noteq> ''''"
    by (simp_all add: wants_video_def)
  from offer_announces_subscriptions [OF bob_plain this s] obtain p m and q :: sdp_parser where
    "peers bob_plain 1 = Some p" "m = map_of (rev (bound_mids t (consumers p)))"
    "filter (prefix ''a=ssrc:'') (getlines ans) = concat (map (announced m) (sections q))"
    by (elim exE conjE) (rule that)
  with s(1) show ?thesis by metis
qed

end
