(* ===== verification/Lifecycle.thy ===== *)
theory Lifecycle
  imports Startup OfferProps
begin

text \<open>
  \<open>MediaServer::run\<close> and \<open>stop\<close>: the threads of the process, the signals, the end of the
  program. The process is a machine in the sense of \<open>Machine\<close>; its invariant shows that the
  code has no way to end. Also the properties of the start-up.
\<close>

section \<open>The process\<close>

record ('s, 'd, 'c, 'i) process =
  ms :: "('s, 'd, 'c, 'i) media_server"
  io_threads :: nat
  grpc_thread :: bool
  run_returned :: bool

definition kThreadCount :: nat where
  "kThreadCount = 5"

text \<open>\<open>run\<close> starts the threads.\<close>

definition MediaServer_run :: "('s, 'd, 'c, 'i) media_server \<Rightarrow> ('s, 'd, 'c, 'i) process" where
  "MediaServer_run m = \<lparr>ms = m, io_threads = kThreadCount, grpc_thread = True, run_returned = False\<rparr>"

text \<open>The handler of \<open>setupSignals\<close>; \<open>error\<close> is the flag its wait has completed with.\<close>

definition on_signal :: "bool \<Rightarrow> ('s, 'd, 'c, 'i) media_server \<Rightarrow> ('s, 'd, 'c, 'i) media_server" where
  "on_signal error m = (if \<not> error then MediaServer_stop m else m)"

datatype proc_event =
    Io nat
  | Served event
  | Thread_leaves
  | Grpc_thread_ends
  | Run_returns

fun needs_network :: "event \<Rightarrow> bool" where
  "needs_network (Datagram d ep) \<longleftrightarrow> True"
| "needs_network Receive_error \<longleftrightarrow> True"
| "needs_network _ \<longleftrightarrow> False"

text \<open>
  An event is possible: the \<open>io_context\<close> works while a thread runs it and it is not stopped;
  a thread leaves \<open>io_context::run\<close> when it is stopped or has nothing left to do; calls are
  served until the gRPC server is shut down; \<open>run\<close> joins all threads.
\<close>

fun possible :: "'i asio_lib \<Rightarrow> proc_event \<Rightarrow> ('s, 'd, 'c, 'i) process \<Rightarrow> bool" where
  "possible lib (Io n) P \<longleftrightarrow> 0 < io_threads P \<and> \<not> ms_stopped (ms P)"
| "possible lib (Served ev) P \<longleftrightarrow>
     (if needs_network ev then 0 < io_threads P \<and> \<not> ms_stopped (ms P) \<and> receiving (ms_srv (ms P))
      else grpc_server (ms_grpc (ms P)) = Some Serving)"
| "possible lib Thread_leaves P \<longleftrightarrow> 0 < io_threads P \<and>
     (ms_stopped (ms P) \<or> no_waits lib (ms_ioc (ms P)) \<and> \<not> receiving (ms_srv (ms P)))"
| "possible lib Grpc_thread_ends P \<longleftrightarrow> grpc_thread P \<and> GrpcServer_run_returns (ms_grpc (ms P))"
| "possible lib Run_returns P \<longleftrightarrow> io_threads P = 0 \<and> \<not> grpc_thread P \<and> \<not> run_returned P"

text \<open>After \<open>run\<close> has returned, \<open>main\<close> leaves the scope of the server, whose destructor runs.\<close>

fun proc_step ::
  "'i asio_lib \<Rightarrow> ('s, 'd) env \<Rightarrow> proc_event \<Rightarrow> ('s, 'd, 'c, 'i) process \<Rightarrow> ('s, 'd, 'c, 'i) process option" where
  "proc_step lib e (Io n) P =
     (let (i, errors) = io_happens lib n (ms_ioc (ms P))
      in Some (P\<lparr>ms := fold on_signal errors ((ms P)\<lparr>ms_ioc := i\<rparr>)\<rparr>))"
| "proc_step lib e (Served ev) P = do {
     s \<leftarrow> run_event e ev (ms_srv (ms P));
     Some (P\<lparr>ms := (ms P)\<lparr>ms_srv := s\<rparr>\<rparr>)
   }"
| "proc_step lib e Thread_leaves P = Some (P\<lparr>io_threads := io_threads P - 1\<rparr>)"
| "proc_step lib e Grpc_thread_ends P = Some (P\<lparr>grpc_thread := False\<rparr>)"
| "proc_step lib e Run_returns P = Some (P\<lparr>run_returned := True, ms := MediaServer_delete (ms P)\<rparr>)"

section \<open>The signal handler\<close>

text \<open>
  What Boost.Asio documents of signal sets: destroying one cancels its waits, and a cancelled
  wait completes with an error. \<open>cancelled\<close> says that every outstanding wait has been cancelled.
\<close>

definition asio_cancels :: "'i asio_lib \<Rightarrow> ('i \<Rightarrow> bool) \<Rightarrow> bool" where
  "asio_cancels lib cancelled \<longleftrightarrow> cancelled (io_context_new lib) \<and>
     (\<forall>i sigs. cancelled i \<longrightarrow> (case signal_set_new lib sigs i of (n, i1) \<Rightarrow>
        cancelled (signal_set_destroy lib n (signal_set_wait lib n i1)))) \<and>
     (\<forall>i n. cancelled i \<longrightarrow> (case io_happens lib n i of (i1, errors) \<Rightarrow> cancelled i1 \<and> (\<forall>b \<in> set errors. b)))"

lemma asio_cancelsD:
  assumes "asio_cancels lib cancelled"
  shows "cancelled (io_context_new lib)"
    and "cancelled i \<Longrightarrow> signal_set_new lib sigs i = (n, i1) \<Longrightarrow>
      cancelled (signal_set_destroy lib n (signal_set_wait lib n i1))"
    and "cancelled i \<Longrightarrow> io_happens lib n i = (i1, errors) \<Longrightarrow> cancelled i1 \<and> (\<forall>b \<in> set errors. b)"
  using assms unfolding asio_cancels_def by (simp_all split: prod.splits) blast

lemma setupSignals_cancelled: "asio_cancels lib cancelled \<Longrightarrow> cancelled i \<Longrightarrow> cancelled (setupSignals lib i)"
  using asio_cancelsD(2) [of lib cancelled i] by (simp add: setupSignals_def Let_def split: prod.split)

lemma on_signal_errors: "\<forall>b \<in> set errors. b \<Longrightarrow> fold on_signal errors m = m"
  by (induction errors) (auto simp: on_signal_def)

text \<open>
  A step of the process that is possible and, where it is an event of the server, expected;
  and the invariant: the server's, and that nobody has stopped anything.
\<close>

definition proc_ok ::
  "'i asio_lib \<Rightarrow> ('i \<Rightarrow> bool) \<Rightarrow> ('s, 'd) env \<Rightarrow> proc_event \<Rightarrow> ('s, 'd, 'c, 'i) process \<Rightarrow> bool" where
  "proc_ok lib cancelled e ev P \<longleftrightarrow> asio_cancels lib cancelled \<and> possible lib ev P \<and>
     (case ev of Served x \<Rightarrow> admissible e x (ms_srv (ms P)) | _ \<Rightarrow> True)"

definition kept_alive :: "('i \<Rightarrow> bool) \<Rightarrow> ('s, 'd, 'c, 'i) process \<Rightarrow> bool" where
  "kept_alive cancelled P \<longleftrightarrow> server_inv (ms_srv (ms P)) \<and> cancelled (ms_ioc (ms P)) \<and> \<not> ms_stopped (ms P) \<and>
     grpc_server (ms_grpc (ms P)) = Some Serving \<and> grpc_thread P \<and> \<not> run_returned P"

lemma proc_step_keeps_alive:
  assumes inv: "kept_alive cancelled P" and ok: "proc_ok lib cancelled e ev P"
  shows "runs (proc_step lib e ev P) (\<lambda>P'. kept_alive cancelled P' \<and> (receiving (ms_srv (ms P')) \<longrightarrow> receiving (ms_srv (ms P))))"
proof (cases ev)
  case (Io n)
  obtain i errors where r: "io_happens lib n (ms_ioc (ms P)) = (i, errors)"
    by (cases "io_happens lib n (ms_ioc (ms P))")
  moreover have "cancelled (ms_ioc (ms P))" "asio_cancels lib cancelled"
    using inv ok by (simp_all add: kept_alive_def proc_ok_def)
  ultimately have "cancelled i" "\<forall>b \<in> set errors. b" using asio_cancelsD(3) by fast+
  then show ?thesis using inv Io r by (auto simp: kept_alive_def on_signal_errors)
next
  case (Served x)
  have s: "server_inv (ms_srv (ms P))" "admissible e x (ms_srv (ms P))"
    using inv ok Served by (simp_all add: kept_alive_def proc_ok_def)
  obtain t where t: "run_event e x (ms_srv (ms P)) = Some t" "server_inv t"
    using run_event_runs [OF s] by (auto simp: runs_def)
  then show ?thesis using inv Served receiving_event(1) [OF s(1) t(1)] by (simp add: kept_alive_def)
qed (use inv ok in \<open>auto simp: kept_alive_def proc_ok_def GrpcServer_run_returns_def\<close>)

interpretation sfu_process: guarded_machine "proc_step lib e" "proc_ok lib cancelled e" "kept_alive cancelled"
  for lib e cancelled
  by unfold_locales (auto intro: runs_mono [OF proc_step_keeps_alive])

lemma deaf_process:
  assumes "reachable (proc_step lib e) (proc_ok lib cancelled e) P P'" "kept_alive cancelled P" "\<not> receiving (ms_srv (ms P))"
  shows "\<not> receiving (ms_srv (ms P'))"
  using assms
proof (induction rule: reachable.induct)
  case (event P1 ev P2)
  then show ?case
    using proc_step_keeps_alive [OF sfu_process.reachable_inv [OF event.hyps(1) event.prems(1)] event.hyps(2)]
    by (auto simp: runs_def)
qed simp

lemma MediaServer_started:
  assumes "MediaServer_new y cfg path = Inr m"
  shows "ms_ioc m = setupSignals (asioL y) (io_context_new (asioL y))" "\<not> ms_stopped m"
    "ms_srv m = setupComponents (ice_gen y) (ice_pos y) (ssrc_gen y)"
    "open_ports y cfg = Inr (ms_grpc m, ms_udp m)"
    "(ms_dtlsFingerprint m, ms_dtls m) = initGlobals (tlsL y) '''' '''' dtls_globals_init"
proof -
  obtain grpc udp where "open_ports y cfg = Inr (grpc, udp)"
    using assms by (auto simp: MediaServer_new_def split: sum.splits prod.splits)
  moreover obtain fp dg where "initGlobals (tlsL y) '''' '''' dtls_globals_init = (fp, dg)"
    by (cases "initGlobals (tlsL y) '''' '''' dtls_globals_init")
  ultimately show "ms_ioc m = setupSignals (asioL y) (io_context_new (asioL y))" "\<not> ms_stopped m"
    "ms_srv m = setupComponents (ice_gen y) (ice_pos y) (ssrc_gen y)"
    "open_ports y cfg = Inr (ms_grpc m, ms_udp m)"
    "(ms_dtlsFingerprint m, ms_dtls m) = initGlobals (tlsL y) '''' '''' dtls_globals_init"
    using assms by (auto simp: MediaServer_new_def)
qed

lemma main_started:
  assumes "main y argv = Some (Inr (cfg, m))"
  shows "MediaServer_new y cfg (config_path argv) = Inr m"
    "cfg = Load (file_text y (config_path argv)) Map.empty" "log_init cfg \<noteq> None"
proof -
  obtain r where "Logger_init y (config_path argv) = Some r"
    using assms by (auto simp: main_def Option.bind_eq_Some_conv)
  then obtain ls where ls: "Logger_init y (config_path argv) = Some (Inr (cfg, ls))"
      and m: "MediaServer_new y cfg (config_path argv) = Inr m"
    using assms by (auto simp: main_def split: sum.splits)
  show "MediaServer_new y cfg (config_path argv) = Inr m" by (rule m)
  show "cfg = Load (file_text y (config_path argv)) Map.empty" "log_init cfg \<noteq> None"
    using ls by (auto simp: Logger_init_def Let_def Option.bind_eq_Some_conv split: option.splits if_splits)
qed

section \<open>Properties\<close>

text \<open>
  C36. The server has no orderly end. \<open>setupSignals\<close> keeps its signal set in a local variable, so
  the wait for SIGINT and SIGTERM is cancelled before the program runs; whatever happens
  afterwards, short of the process being killed, \<open>stop\<close> is not called, the gRPC server goes on
  serving and \<open>run\<close> does not return.
  That holds also once a receive has failed and no datagram is received any more.
\<close>

theorem never_shut_down:
  assumes m: "main y argv = Some (Inr (cfg, m))" and up: "grpc_server (ms_grpc m) = Some Serving"
    and lib: "asio_cancels (asioL y) cancelled"
    and r: "reachable (proc_step (asioL y) e) (proc_ok (asioL y) cancelled e) (MediaServer_run m) P"
    and r': "reachable (proc_step (asioL y) e) (proc_ok (asioL y) cancelled e) P P'"
  shows "\<not> ms_stopped (ms P') \<and> grpc_server (ms_grpc (ms P')) = Some Serving \<and>
    \<not> possible (asioL y) Grpc_thread_ends P' \<and> \<not> possible (asioL y) Run_returns P' \<and>
    (\<not> receiving (ms_srv (ms P)) \<longrightarrow> \<not> receiving (ms_srv (ms P')))"
proof -
  have "cancelled (ms_ioc m)"
    using MediaServer_started(1) [OF main_started(1) [OF m]] setupSignals_cancelled [OF lib] asio_cancelsD(1) [OF lib]
    by simp
  then have P: "kept_alive cancelled P"
    using sfu_process.reachable_inv [OF r] MediaServer_started(2,3) [OF main_started(1) [OF m]] up
    by (simp add: kept_alive_def MediaServer_run_def server_inv_init)
  from sfu_process.reachable_inv [OF r' this] have "kept_alive cancelled P'" .
  with deaf_process [OF r' P] show ?thesis by (auto simp: kept_alive_def GrpcServer_run_returns_def)
qed

text \<open>A system on which the server starts, with a small model of signal sets.\<close>

definition toy_asio :: "(nat \<times> bool) list asio_lib" where
  "toy_asio = \<lparr>io_context_new = [], signal_set_new = (\<lambda>sigs i. (length i, i)),
     signal_set_wait = (\<lambda>n i. i @ [(n, False)]), signal_set_destroy = (\<lambda>n i. map (\<lambda>(k, c). (k, c \<or> k = n)) i),
     io_happens = (\<lambda>n i. (filter (\<lambda>x. snd x \<noteq> (n = 0)) i, map (\<lambda>x. snd x) (filter (\<lambda>x. snd x = (n = 0)) i))),
     no_waits = (\<lambda>i. i = [])\<rparr>"

definition all_cancelled :: "(nat \<times> bool) list \<Rightarrow> bool" where
  "all_cancelled i \<longleftrightarrow> (\<forall>x \<in> set i. snd x)"

lemma toy_asio_cancels: "asio_cancels toy_asio all_cancelled"
  by (auto simp: asio_cancels_def toy_asio_def all_cancelled_def)

definition toy_tls :: "(unit, unit, unit) tls_lib" where
  "toy_tls = \<lparr>pkey_new = (), pkey_keygen = (\<lambda>c k. k), x509_new = (), x509_set_serial = (\<lambda>n c. c),
     x509_set_notBefore = (\<lambda>n c. c), x509_set_notAfter = (\<lambda>n c. c), x509_set_pubkey = (\<lambda>k c. c),
     x509_sign = (\<lambda>k c. c), x509_digest = (\<lambda>c. replicate 32 7), ctx_new = (), ctx_set_min_version = (\<lambda>v c. c),
     ctx_set_max_version = (\<lambda>v c. c), ctx_use_certificate = (\<lambda>c x. x), ctx_use_key = (\<lambda>k x. x),
     ctx_use_srtp = (\<lambda>p x. x)\<rparr>"

definition toy_config :: string where
  "toy_config = render [(''server'', [(''grpc_port'', ''50051''), (''udp_port_start'', ''20000'')])]"

definition toy_sys :: "(srtp_policy, unit, unit, unit, unit, (nat \<times> bool) list) sys" where
  "toy_sys = \<lparr>libs = sample_env, tlsL = toy_tls, asioL = toy_asio, file_text = (\<lambda>path. Some toy_config),
     log_opens = (\<lambda>f n b. True), grpc_builds = (\<lambda>a. True), udp_binds = (\<lambda>port. True),
     ice_gen = (\<lambda>n. 0), ice_pos = 0, ssrc_gen = (\<lambda>n. 0)\<rparr>"

definition toy_cfg :: config where
  "toy_cfg = Load (Some toy_config) Map.empty"

definition toy_ms :: "(srtp_policy, unit, unit, (nat \<times> bool) list) media_server" where
  "toy_ms = (case MediaServer_new toy_sys toy_cfg ''configs/media-svc.ini'' of Inr m \<Rightarrow> m)"

lemma toy_cfg_server: "toy_cfg = [''server'' \<mapsto> [''grpc_port'' \<mapsto> ''50051'', ''udp_port_start'' \<mapsto> ''20000'']]"
proof -
  have "renderable [(''server'', [(''grpc_port'', ''50051''), (''udp_port_start'', ''20000'')])]"
    by (simp add: renderable_def plain_text_def key_text_def is_comment_def blank_char_def)
  from load_rendered [OF this, of Map.empty] show ?thesis
    by (simp add: toy_cfg_def toy_config_def put_def)
qed

lemma toy_settings:
  "stoi (server_setting toy_cfg ''grpc_port'') = Inr 50051"
  "stoi (server_setting toy_cfg ''udp_port_start'') = Inr 20000"
proof -
  have "stoi ''50051'' = Inr 50051" "stoi ''20000'' = Inr 20000"
    by (simp_all add: stoi_def scan_int_def is_space_def is_digit_def digits_value_def digit_value_def)
  then show "stoi (server_setting toy_cfg ''grpc_port'') = Inr 50051"
    "stoi (server_setting toy_cfg ''udp_port_start'') = Inr 20000"
    by (simp_all add: server_setting_def toy_cfg_server section_get_def config_get_def)
qed

lemma toy_main: "main toy_sys [] = Some (Inr (toy_cfg, toy_ms))" "grpc_server (ms_grpc toy_ms) = Some Serving"
proof -
  have log: "log_init toy_cfg = Some \<lparr>file_sink = None, log_level = Info\<rparr>"
    by (simp add: log_init_def toy_cfg_server config_get_def section_get_def strip_quotes_def level_of_def split: prod.split)
  then have init: "Logger_init toy_sys (config_path []) = Some (Inr (toy_cfg, \<lparr>file_sink = None, log_level = Info\<rparr>))"
    by (simp add: Logger_init_def Let_def toy_sys_def toy_cfg_def)
  obtain fp dg where "initGlobals (tlsL toy_sys) '''' '''' dtls_globals_init = (fp, dg)"
    by (cases "initGlobals (tlsL toy_sys) '''' '''' dtls_globals_init")
  then obtain m where m: "MediaServer_new toy_sys toy_cfg (config_path []) = Inr m" "grpc_server (ms_grpc m) = Some Serving"
    by (simp add: MediaServer_new_def open_ports_def toy_settings UdpServer_new_def toy_sys_def GrpcServer_new_def)
  then have "toy_ms = m" by (simp add: toy_ms_def config_path_def)
  with m init show "main toy_sys [] = Some (Inr (toy_cfg, toy_ms))" "grpc_server (ms_grpc toy_ms) = Some Serving"
    by (simp_all add: main_def)
qed

theorem never_shut_down_witness:
  "\<not> ms_stopped (ms (MediaServer_run toy_ms)) \<and> \<not> possible toy_asio Run_returns (MediaServer_run toy_ms)"
proof -
  have "asioL toy_sys = toy_asio" by (simp add: toy_sys_def)
  with never_shut_down [OF toy_main, of all_cancelled sample_env "MediaServer_run toy_ms" "MediaServer_run toy_ms"]
  show ?thesis by (simp add: toy_asio_cancels reachable.start)
qed

text \<open>
  C38. \<open>AddPeer\<close> announces to a client the UDP port 10000, whatever port the configuration has
  made the server bind (the number modulo 65536), so that media reaches the server only if
  the two happen to be the same. The announced fingerprint, which \<open>AddPeer\<close> reads from the static
  member that \<open>initGlobals\<close> has set, is that of the certificate which the DTLS context of the
  process presents, and the one the constructor has logged.
\<close>

theorem announced_port_and_identity:
  assumes m: "main y argv = Some (Inr (cfg, m))" and call: "AddPeer (running_env y cfg m) k s = Some (resp, t)"
  shows "sfu_port resp = 10000 \<and>
    (\<exists>u. stoi (server_setting cfg ''udp_port_start'') = Inr u \<and> uint (getPort (ms_udp m)) = u mod 65536 \<and>
    (sfu_port resp = uint (getPort (ms_udp m)) \<longleftrightarrow> u mod 65536 = 10000)) \<and>
    (let key = make_key (tlsL y); cert = make_certificate (tlsL y) key
     in dtls_fingerprint resp = cert_fingerprint (x509_digest (tlsL y) cert) \<and>
        dtls_fingerprint resp = ms_dtlsFingerprint m \<and> g_ctx (ms_dtls m) = Some (make_ctx (tlsL y) cert key))"
proof -
  note start = MediaServer_started [OF main_started(1) [OF m]]
  obtain u where u: "stoi (server_setting cfg ''udp_port_start'') = Inr u"
    and udp: "UdpServer_new (udp_binds y) (word_of_int u) = Some (ms_udp m)"
    using start(4) by (auto simp: open_ports_def Let_def split: sum.splits option.splits)
  have "us_port (ms_udp m) = word_of_int u"
    using arg_cong [OF udp, of "map_option us_port"] by (simp add: UdpServer_new_def split: if_splits)
  then have port: "uint (getPort (ms_udp m)) = u mod 65536" by (simp add: getPort_def uint_word_of_int)
  have resp: "sfu_port resp = 10000" "dtls_fingerprint resp = g_certFingerprint (ms_dtls m)"
    using call by (auto simp: AddPeer_def Let_def Option.bind_eq_Some_conv running_env_def dtls_fingerprint_of_def)
  then show ?thesis
    using u port start(5) by (auto simp: initGlobals_def Let_def)
qed

theorem announced_port_and_identity_witness:
  "uint (getPort (ms_udp toy_ms)) = 20000 \<and>
   sfu_port (add_peer_answer (running_env toy_sys toy_cfg toy_ms) sample_server) \<noteq> uint (getPort (ms_udp toy_ms))"
proof -
  have "AddPeer (running_env toy_sys toy_cfg toy_ms) ''alice'' sample_server =
      Some (add_peer_answer (running_env toy_sys toy_cfg toy_ms) sample_server, added ''alice'' sample_server)"
    by (rule AddPeer_eq [OF sample_server_inv])
  from announced_port_and_identity [OF toy_main(1) this] show ?thesis by (simp add: toy_settings add_peer_answer_def)
qed

text \<open>
  C37. How the program starts: the size of the log file overflows \<open>int\<close> exactly if a file is
  named and the size is not from -2048 to 2047 MB; otherwise the server runs exactly if
  the log file can be opened, both port numbers can be read and the UDP port can be bound, and
  every other outcome is an exception. A gRPC port that cannot be bound is not noticed: the
  server runs without any calls being served.
\<close>

theorem start_up_outcomes:
  fixes y :: "('s, 'd, 'k, 'x, 'c, 'i) sys"
  defines "conf \<equiv> \<lambda>argv. Load (file_text y (config_path argv)) Map.empty"
  shows "(main y argv = None \<longleftrightarrow> strip_quotes (section_get (config_get (conf argv) ''log'') ''log_file'') \<noteq> [] \<and>
      (case log_numbers (config_get (conf argv) ''log'') of (mb, b, a) \<Rightarrow> mb < - 2048 \<or> 2047 < mb)) \<and>
    ((\<exists>m. main y argv = Some (Inr (conf argv, m)) \<and>
        (grpc_server (ms_grpc m) = None \<longleftrightarrow> \<not> grpc_builds y (listenAddr (ms_grpc m)))) \<longleftrightarrow>
      (\<exists>ls g u. log_init (conf argv) = Some ls \<and>
        (case file_sink ls of None \<Rightarrow> True | Some (f, bytes, backups) \<Rightarrow> log_opens y f bytes backups) \<and>
        stoi (server_setting (conf argv) ''grpc_port'') = Inr g \<and>
        stoi (server_setting (conf argv) ''udp_port_start'') = Inr u \<and> udp_binds y (word_of_int u)))"
proof -
  have "main y argv = None \<longleftrightarrow> log_init (conf argv) = None"
    by (auto simp: main_def Logger_init_def conf_def Let_def Option.bind_eq_None_conv split: option.splits)
  moreover have "(\<exists>m. MediaServer_new y (conf argv) path = Inr m \<and>
        (grpc_server (ms_grpc m) = None \<longleftrightarrow> \<not> grpc_builds y (listenAddr (ms_grpc m)))) \<longleftrightarrow>
      (\<exists>g u. stoi (server_setting (conf argv) ''grpc_port'') = Inr g \<and>
        stoi (server_setting (conf argv) ''udp_port_start'') = Inr u \<and> udp_binds y (word_of_int u))" for path
    by (auto simp: MediaServer_new_def open_ports_def UdpServer_new_def GrpcServer_new_def Let_def split: sum.split prod.split)
  moreover have "main y argv = Some (Inr (conf argv, m)) \<longleftrightarrow>
      (\<exists>ls. log_init (conf argv) = Some ls \<and>
        (case file_sink ls of None \<Rightarrow> True | Some (f, bytes, backups) \<Rightarrow> log_opens y f bytes backups)) \<and>
      MediaServer_new y (conf argv) (config_path argv) = Inr m" for m
    by (auto simp: main_def Logger_init_def conf_def Let_def Option.bind_eq_Some_conv split: option.splits sum.splits)
  ultimately show ?thesis by (auto simp: log_init_overflows)
qed

text \<open>
  The gRPC server serves calls from its construction on, before it has got the router, the
  ICE server and the packet router. A peer added in that time gets an answer without ICE
  credentials, is not handed to the packet router, and no endpoint is bound to it after the
  assembly is complete.
\<close>

lemma early_peer_is_lost:
  assumes "AddPeer e k (server_new gen) = Some (resp, s)"
    and "getOrCreatePeer e ep (assemble ice s) = Some (b, t)"
  shows "ice_ufrag resp = '''' \<and> ice_pwd resp = '''' \<and>
    (\<exists>a. findPeer k (assemble ice s) = Some a \<and> pendingPeers (assemble ice s) = [] \<and> b \<noteq> a)"
proof -
  have s: "svcPeers s = [(k, 0)]" "pendingPeers s = []" "peerMap s = []" "nextAddr s = Suc 0"
    "ice_ufrag resp = ''''" "ice_pwd resp = ''''"
    using assms(1) by (auto simp: AddPeer_def server_new_def alloc_peer_def sfu.defs sfu_init_def release_def Let_def)
  then have "findPeer k (assemble ice s) = Some 0" "pendingPeers (assemble ice s) = []"
    "peerMap (assemble ice s) = []" "nextAddr (assemble ice s) = Suc 0"
    by (simp_all add: findPeer_def assemble_def Let_def setPacketRouter_def setServiceIce_def
        setServiceRouter_def startReceive_def setRouter_def setIceServer_def)
  then show ?thesis using assms(2) s(5,6) by (auto simp: getOrCreatePeer_def Let_def Option.bind_eq_Some_conv)
qed

lemma early_peer_example:
  "\<exists>resp s b t. AddPeer sample_env ''alice'' (server_new (\<lambda>_. 0)) = Some (resp, s) \<and> ice_ufrag resp = '''' \<and>
     getOrCreatePeer sample_env \<lparr>ep_addr = 1, ep_port = 2\<rparr> (assemble (ice_new (\<lambda>_. 0) 0) s) = Some (b, t) \<and>
     findPeer ''alice'' (assemble (ice_new (\<lambda>_. 0) 0) s) \<noteq> Some b"
proof -
  let ?ice = "ice_new (\<lambda>_. 0) 0" and ?ep = "\<lparr>ep_addr = 1, ep_port = 2\<rparr>"
  obtain resp s where s: "AddPeer sample_env ''alice'' (server_new (\<lambda>_. 0)) = Some (resp, s)"
    "pendingPeers s = []" "peerMap s = []"
    by (simp add: AddPeer_def server_new_def alloc_peer_def sfu.defs sfu_init_def release_def Let_def)
  then have "pendingPeers (assemble ?ice s) = []" "peerMap (assemble ?ice s) = []"
    by (simp_all add: assemble_def Let_def setPacketRouter_def setServiceIce_def
        setServiceRouter_def startReceive_def setRouter_def setIceServer_def)
  then obtain b t where t: "getOrCreatePeer sample_env ?ep (assemble ?ice s) = Some (b, t)"
    by (auto simp: getOrCreatePeer_def alloc_peer_def)
  show ?thesis
    using early_peer_is_lost [OF s(1) t] s(1) t
    by (intro exI [of _ resp] exI [of _ s] exI [of _ b] exI [of _ t]) auto
qed

end
