(* ===== verification/Subscriptions.thy ===== *)
theory Subscriptions
  imports RouterFrame RouterProps Machine
begin

text \<open>
  What the router promises, without pointers, lists of consumers or reverse indices: a board
  of subscriptions and, for each peer, the streams it has announced. The router's operations
  implement the steps of the board.
\<close>

section \<open>The board\<close>

record subscription =
  sub_subscriber :: "nat option"
  sub_publisher :: "nat option"
  sub_video :: bool
  sub_out :: u32
  sub_stream :: u32
  sub_mid :: string
  sub_active :: bool

record board =
  subs :: "nat \<rightharpoonup> subscription"
  streams :: "nat \<Rightarrow> (u32 \<times> bool) list"
  names :: "nat \<rightharpoonup> string"

datatype router_op =
    Subscribe nat nat bool
  | Leave nat
  | Media "u8 list" nat
  | Feedback "u8 list" nat
  | Bind nat string bool string

text \<open>A subscriber gets the publisher's first stream of the kind, or waits for one (stream 0).\<close>

definition subscribe :: "nat \<Rightarrow> nat \<Rightarrow> nat \<Rightarrow> bool \<Rightarrow> u32 \<Rightarrow> board \<Rightarrow> board" where
  "subscribe c a b v out B = B\<lparr>subs := (subs B)(c \<mapsto>
     \<lparr>sub_subscriber = Some a, sub_publisher = Some b, sub_video = v, sub_out = out,
      sub_stream = (case List.find (\<lambda>x. snd x = v) (streams B b) of None \<Rightarrow> 0 | Some x \<Rightarrow> fst x),
      sub_mid = '''', sub_active = True\<rparr>)\<rparr>"

text \<open>The subscriptions of a peer end with it; those attached to its streams become inactive.\<close>

definition leave :: "nat \<Rightarrow> board \<Rightarrow> board" where
  "leave a B = B\<lparr>streams := (streams B)(a := []), subs := (\<lambda>c. case subs B c of None \<Rightarrow> None
     | Some q \<Rightarrow> if sub_subscriber q = Some a then None
         else if sub_publisher q = Some a \<and> sub_stream q \<noteq> 0
         then Some (q\<lparr>sub_publisher := None, sub_active := False\<rparr>) else Some q)\<rparr>"

text \<open>A stream seen for the first time goes to all who wait for it.\<close>

definition announce :: "nat \<Rightarrow> u32 \<Rightarrow> bool \<Rightarrow> board \<Rightarrow> board" where
  "announce b ssrc v B = (if ssrc \<in> fst ` set (streams B b) then B
     else B\<lparr>streams := (streams B)(b := streams B b @ [(ssrc, v)]), subs := (\<lambda>c. map_option (\<lambda>q.
       if sub_publisher q = Some b \<and> sub_video q = v \<and> sub_stream q = 0 then q\<lparr>sub_stream := ssrc\<rparr> else q)
       (subs B c))\<rparr>)"

definition asks_for :: "board \<Rightarrow> nat \<Rightarrow> string \<Rightarrow> bool \<Rightarrow> nat \<Rightarrow> bool" where
  "asks_for B a pid v c \<longleftrightarrow> (\<exists>q b. subs B c = Some q \<and> sub_subscriber q = Some a \<and> sub_video q = v \<and>
     sub_publisher q = Some b \<and> names B b = Some pid)"

inductive board_step :: "u8 set \<Rightarrow> router_op \<Rightarrow> board \<Rightarrow> board \<Rightarrow> bool" for vpts where
  subscribe: "subs B c = None \<Longrightarrow> 0x40000000 \<le> out \<Longrightarrow> out \<le> 0x7FFFFFFF \<Longrightarrow>
    board_step vpts (Subscribe a b v) B (subscribe c a b v out B)"
| leave: "board_step vpts (Leave a) B (leave a B)"
| junk: "rtp_parse pkt = None \<Longrightarrow> board_step vpts (Media pkt b) B B"
| media: "rtp_parse pkt = Some hdr \<Longrightarrow>
    board_step vpts (Media pkt b) B (announce b (h_ssrc hdr) (h_payloadType hdr \<in> vpts) B)"
| feedback: "board_step vpts (Feedback pkt a) B B"
| bind_none: "(\<And>c. \<not> asks_for B a pid v c) \<Longrightarrow> board_step vpts (Bind a pid v mid) B B"
| bind_some: "asks_for B a pid v c \<Longrightarrow> subs B c = Some q \<Longrightarrow>
    board_step vpts (Bind a pid v mid) B (B\<lparr>subs := (subs B)(c \<mapsto> q\<lparr>sub_mid := mid\<rparr>)\<rparr>)"

section \<open>The router as an implementation\<close>

fun router_step ::
  "'s srtp_lib \<Rightarrow> u8 set \<Rightarrow> router_op \<Rightarrow> ('s, 'd, 'z) sfu_scheme \<Rightarrow> ('s, 'd, 'z) sfu_scheme option" where
  "router_step lib vpts (Subscribe a b v) s = map_option snd (addConsumer a b v s)"
| "router_step lib vpts (Leave a) s = removePeer a s"
| "router_step lib vpts (Media pkt b) s = onRtpPacket lib vpts pkt b s"
| "router_step lib vpts (Feedback pkt a) s = onRtcpPacket lib pkt a s"
| "router_step lib vpts (Bind a pid v mid) s = map_option snd (bindConsumerByMid a pid v mid s)"

text \<open>The peers are alive, packets fit, and no participant uses SSRC 0 or an outgoing SSRC.\<close>

fun router_op_ok :: "'s srtp_lib \<Rightarrow> router_op \<Rightarrow> ('s, 'd, 'z) sfu_scheme \<Rightarrow> bool" where
  "router_op_ok lib (Subscribe a b v) s \<longleftrightarrow> peers s a \<noteq> None \<and> peers s b \<noteq> None"
| "router_op_ok lib (Leave a) s \<longleftrightarrow> peers s a \<noteq> None"
| "router_op_ok lib (Media pkt b) s \<longleftrightarrow> libsrtp_sizes lib \<and> peers s b \<noteq> None \<and> length pkt + 10 \<le> 65536 \<and>
     (case rtp_parse pkt of None \<Rightarrow> True | Some hdr \<Rightarrow> h_ssrc hdr \<noteq> 0)"
| "router_op_ok lib (Feedback pkt a) s \<longleftrightarrow> libsrtp_sizes lib \<and> no_report_forwarded pkt s"
| "router_op_ok lib (Bind a pid v mid) s \<longleftrightarrow> peers s a \<noteq> None"

definition view :: "consumer \<Rightarrow> subscription" where
  "view cc = \<lparr>sub_subscriber = c_subscriber cc, sub_publisher = c_publisher cc, sub_video = c_isVideo cc,
     sub_out = c_rewrittenSsrc cc, sub_stream = c_publisherSsrc cc, sub_mid = c_recvMid cc,
     sub_active = c_active cc\<rparr>"

definition stream_of :: "('s, 'd, 'z) sfu_scheme \<Rightarrow> nat \<Rightarrow> u32 \<times> bool" where
  "stream_of s r = (let pr = the (prods s r) in (p_originalSsrc pr, p_isVideo pr))"

definition board_of :: "('s, 'd, 'z) sfu_scheme \<Rightarrow> board" where
  "board_of s = \<lparr>subs = (\<lambda>c. map_option view (conss s c)),
     streams = (\<lambda>a. case peers s a of None \<Rightarrow> [] | Some p \<Rightarrow> map (stream_of s) (producers p)),
     names = (\<lambda>a. map_option peerId (peers s a))\<rparr>"

lemma board_of_simps [simp]:
  "subs (board_of s) c = map_option view (conss s c)"
  "streams (board_of s) a = (case peers s a of None \<Rightarrow> [] | Some p \<Rightarrow> map (stream_of s) (producers p))"
  "names (board_of s) a = map_option peerId (peers s a)"
  by (simp_all add: board_of_def)

lemma board_eqI:
  fixes B C :: board
  assumes "\<And>c. subs B c = subs C c" "\<And>a. streams B a = streams C a" "\<And>a. names B a = names C a"
  shows "B = C"
  using assms by (cases B; cases C) (simp add: fun_eq_iff)

text \<open>Steps that leave the board alone.\<close>

lemma same_board:
  assumes g: "same_graph s t" and r: "same_reach s t"
    and n: "\<And>x. map_option peerId (peers t x) = map_option peerId (peers s x)"
  shows "board_of t = board_of s"
proof (rule board_eqI)
  fix x
  have "map_option cons_shape (conss t x) = map_option cons_shape (conss s x)"
    "map_option cons_reach (conss t x) = map_option cons_reach (conss s x)"
    using g r by (simp_all add: same_graph_def same_reach_def)
  then show "subs (board_of t) x = subs (board_of s) x"
    by (cases "conss s x"; cases "conss t x") (auto simp: view_def cons_shape_def cons_reach_def)
  have "map_option peer_shape (peers t x) = map_option peer_shape (peers s x)" "prods t = prods s"
    using g by (simp_all add: same_graph_def)
  then show "streams (board_of t) x = streams (board_of s) x"
    by (cases "peers s x"; cases "peers t x") (auto simp: peer_shape_def stream_of_def)
  show "names (board_of t) x = names (board_of s) x" using n by simp
qed

section \<open>The operations\<close>

lemma find_map: "List.find P (map f xs) = map_option f (List.find (P \<circ> f) xs)"
  by (induction xs) simp_all

lemma source_is_first_stream:
  assumes inv: "router_inv s" and p: "peers s b = Some p"
  shows "source_ssrc s (matching_producer s b v) =
    (case List.find (\<lambda>x. snd x = v) (map (stream_of s) (producers p)) of None \<Rightarrow> 0 | Some x \<Rightarrow> fst x)"
proof -
  have "(case prods s r of None \<Rightarrow> False | Some pr \<Rightarrow> p_isVideo pr = v \<and> p_originalSsrc pr \<noteq> 0) =
      ((\<lambda>x. snd x = v) \<circ> stream_of s) r" if r: "r \<in> set (producers p)" for r
  proof -
    obtain pr where pr: "prods s r = Some pr" using inv_peersD(3) [OF inv p r] by blast
    then show ?thesis using inv_prodsD(1) [OF inv pr] by (simp add: stream_of_def)
  qed
  then have "matching_producer s b v = List.find ((\<lambda>x. snd x = v) \<circ> stream_of s) (producers p)"
    unfolding matching_producer_def p option.sel by (intro find_cong) simp_all
  then show ?thesis
    by (auto simp: find_map source_ssrc_def stream_of_def Let_def split: option.split)
qed

lemma subscribe_board:
  fixes v :: bool
  assumes inv: "router_inv s" and a: "peers s a \<noteq> None" and b: "peers s b = Some p"
  defines "r \<equiv> matching_producer s b v"
  shows "board_of (install_consumer a b v out r (source_ssrc s r) s) = subscribe (nextAddr s) a b v out (board_of s)"
    (is "board_of ?t = _")
proof (rule board_eqI)
  fix x
  have st: "stream_of ?t = stream_of s"
  proof
    fix y show "stream_of ?t y = stream_of s y"
      by (cases "prods s y") (auto simp: stream_of_def install_consumer_def Let_def split: option.split)
  qed
  have "source_ssrc s r = (case List.find (\<lambda>x. snd x = v) (streams (board_of s) b) of None \<Rightarrow> 0 | Some x \<Rightarrow> fst x)"
    unfolding r_def using source_is_first_stream [OF inv b, of v] b by simp
  then show "subs (board_of ?t) x = subs (subscribe (nextAddr s) a b v out (board_of s)) x"
    by (simp add: subscribe_def install_consumer_def Let_def view_def new_consumer_def)
  show "streams (board_of ?t) x = streams (subscribe (nextAddr s) a b v out (board_of s)) x"
    unfolding board_of_simps st
    by (cases "peers s x") (auto simp: subscribe_def install_consumer_def Let_def)
  show "names (board_of ?t) x = names (subscribe (nextAddr s) a b v out (board_of s)) x"
    by (cases "peers s x") (auto simp: subscribe_def install_consumer_def Let_def)
qed

lemma subscriber_owns:
  assumes "router_inv s" "peers s a = Some p" "conss s c = Some cc"
  shows "c \<in> set (consumers p) \<longleftrightarrow> c_subscriber cc = Some a"
  using inv_peersD(4) [OF assms(1,2), of c] inv_conssD(1) [OF assms(1,3)] assms by auto

lemma attached_to:
  assumes inv: "router_inv s" and p: "peers s a = Some p" and c: "conss s c = Some cc"
  shows "c \<in> consumers_of s (producers p) \<longleftrightarrow> c_publisher cc = Some a \<and> c_publisherSsrc cc \<noteq> 0"
proof
  assume "c \<in> consumers_of s (producers p)"
  then obtain r where r: "r \<in> set (producers p)" "c \<in> set (p_consumers (the (prods s r)))"
    by (auto simp: consumers_of_def)
  obtain pr where pr: "prods s r = Some pr" "p_publisher pr = a" using inv_peersD(3) [OF inv p r(1)] by blast
  then show "c_publisher cc = Some a \<and> c_publisherSsrc cc \<noteq> 0"
    using inv_prodsD(1) [OF inv pr(1)] inv_prodsD(4) [OF inv pr(1), of c] r(2) c by auto
next
  assume att: "c_publisher cc = Some a \<and> c_publisherSsrc cc \<noteq> 0"
  then obtain r pr where r: "prods s r = Some pr" "p_publisher pr = a" "c \<in> set (p_consumers pr)"
    using inv_conssD(3) [OF inv c, of a] by (auto simp: waits_or_linked_def)
  then have "r \<in> set (producers p)" using inv_prodsD(3) [OF inv r(1)] p by auto
  then show "c \<in> consumers_of s (producers p)" using r by (force simp: consumers_of_def)
qed

lemma leave_board:
  assumes inv: "router_inv s" and p: "peers s a = Some p"
  shows "board_of (removed a p s) = leave a (board_of s)"
proof (rule board_eqI)
  fix x
  show "subs (board_of (removed a p s)) x = subs (leave a (board_of s)) x"
  proof (cases "conss s x")
    case None
    then show ?thesis by (simp add: leave_def removed_def detached_def free_def)
  next
    case (Some cc)
    then show ?thesis
      using subscriber_owns [OF inv p Some] attached_to [OF inv p Some]
      by (auto simp: leave_def removed_def detached_def free_def view_def)
  qed
  have keep: "stream_of (removed a p s) r = stream_of s r" if r: "peers s x = Some q" "r \<in> set (producers q)" "x \<noteq> a" for q r
  proof -
    obtain pr where pr: "prods s r = Some pr" "p_publisher pr = x" using inv_peersD(3) [OF inv r(1,2)] by blast
    then have "r \<notin> set (producers p)" using inv_peersD(3) [OF inv p, of r] r(3) by auto
    then show ?thesis using pr(1) by (simp add: stream_of_def removed_def)
  qed
  show "streams (board_of (removed a p s)) x = streams (leave a (board_of s)) x"
    using keep p by (cases "peers s x") (auto simp: leave_def removed_def)
  show "names (board_of (removed a p s)) x = names (leave a (board_of s)) x"
    by (cases "peers s x") (auto simp: leave_def removed_def)
qed

lemma known_stream:
  assumes inv: "router_inv s" and p: "peers s b = Some p"
  shows "ssrc \<in> fst ` set (streams (board_of s) b) \<longleftrightarrow>
    (\<exists>r pr. prods s r = Some pr \<and> p_publisher pr = b \<and> p_originalSsrc pr = ssrc)"
proof
  assume "ssrc \<in> fst ` set (streams (board_of s) b)"
  then obtain r where r: "r \<in> set (producers p)" "ssrc = fst (stream_of s r)" using p by auto
  obtain pr where "prods s r = Some pr" "p_publisher pr = b" using inv_peersD(3) [OF inv p r(1)] by blast
  then show "\<exists>r pr. prods s r = Some pr \<and> p_publisher pr = b \<and> p_originalSsrc pr = ssrc"
    using r(2) by (auto simp: stream_of_def)
next
  assume "\<exists>r pr. prods s r = Some pr \<and> p_publisher pr = b \<and> p_originalSsrc pr = ssrc"
  then obtain r pr where r: "prods s r = Some pr" "p_publisher pr = b" "p_originalSsrc pr = ssrc" by blast
  then have "r \<in> set (producers p)" using inv_prodsD(3) [OF inv r(1)] p by auto
  then show "ssrc \<in> fst ` set (streams (board_of s) b)"
    using p r by (force simp: stream_of_def)
qed

lemma announce_board:
  assumes inv: "router_inv s" and p: "peers s b = Some p"
    and new: "\<forall>r pr. prods s r = Some pr \<longrightarrow> p_publisher pr = b \<longrightarrow> p_originalSsrc pr \<noteq> ssrc"
  shows "board_of (with_producer b ssrc v s) = announce b ssrc v (board_of s)" (is "board_of ?w = _")
proof -
  have fresh: "ssrc \<notin> fst ` set (streams (board_of s) b)" unfolding known_stream [OF inv p] using new by blast
  show ?thesis
  proof (rule board_eqI)
    fix x
    have w: "conss ?w x = (if waiting s b v x then map_option (\<lambda>y. y\<lparr>c_publisherSsrc := ssrc\<rparr>) (conss s x) else conss s x)"
      using live_in_all_consumers [OF inv, of x]
      by (auto simp: with_producer_def link_list_def waiting_def split: option.splits)
    show "subs (board_of ?w) x = subs (announce b ssrc v (board_of s)) x"
      unfolding board_of_simps w using fresh
      by (cases "conss s x") (auto simp: announce_def waiting_def view_def)
    have peers: "peers ?w = modify b (\<lambda>p. p\<lparr>producers := producers p @ [nextAddr s]\<rparr>) (peers s)"
      by (simp add: with_producer_def create_producer_def link_list_def)
    have st: "stream_of ?w r = (if r = nextAddr s then (ssrc, v) else stream_of s r)" for r
      by (simp add: stream_of_def with_producer_prods new_producer_def)
    have "nextAddr s \<notin> set (producers q)" if "peers s x = Some q" for q
      using inv_peersD(3) [OF inv that, of "nextAddr s"] inv_freshD [OF inv, of "nextAddr s"] by auto
    then have old: "map (stream_of ?w) (producers q) = map (stream_of s) (producers q)" if "peers s x = Some q" for q
      using that by (auto simp: st)
    have "stream_of ?w (nextAddr s) = (ssrc, v)" by (simp add: st)
    then show "streams (board_of ?w) x = streams (announce b ssrc v (board_of s)) x"
      unfolding board_of_simps peers using fresh p old
      by (cases "peers s x"; cases "x = b") (simp_all add: announce_def)
    show "names (board_of ?w) x = names (announce b ssrc v (board_of s)) x"
      unfolding board_of_simps peers using fresh
      by (cases "peers s x") (auto simp: announce_def)
  qed
qed

lemma media_board:
  assumes inv: "router_inv s" and lib: "libsrtp_sizes lib" and p: "peers s b = Some p"
    and len: "length pkt + 10 \<le> 65536" and hdr: "rtp_parse pkt = Some hdr" "h_ssrc hdr \<noteq> 0"
  shows "runs (onRtpPacket lib vpts pkt b s) (\<lambda>t.
    board_of t = announce b (h_ssrc hdr) (h_payloadType hdr \<in> vpts) (board_of s))"
proof -
  let ?B = "announce b (h_ssrc hdr) (h_payloadType hdr \<in> vpts) (board_of s)"
  obtain ts u where u: "rtp_targets lib vpts pkt b s = Some (ts, u)" "router_inv u" "\<forall>c \<in> set ts. conss u c \<noteq> None"
    using rtp_targets_inv [OF inv lib p hdr, of vpts] by (auto simp: runs_def)
  have "board_of u = ?B"
    using rtp_targets_runs [OF inv lib _ hdr(1), of b vpts] p u(1)
  proof (simp, elim disjE exE conjE)
    fix r pr assume "u = s" "prods s r = Some pr" "p_publisher pr = b" "p_originalSsrc pr = h_ssrc hdr"
    then show ?thesis using known_stream [OF inv p, of "h_ssrc hdr"] by (auto simp: announce_def)
  next
    assume new: "\<forall>r pr. prods s r = Some pr \<longrightarrow> p_publisher pr = b \<longrightarrow> p_originalSsrc pr \<noteq> h_ssrc hdr"
      and g: "same_graph (with_producer b (h_ssrc hdr) (h_payloadType hdr \<in> vpts) s) u" and r: "same_reach s u"
    let ?w = "with_producer b (h_ssrc hdr) (h_payloadType hdr \<in> vpts) s"
    have "same_reach (create_producer b (h_ssrc hdr) (h_payloadType hdr \<in> vpts) s) ?w"
      unfolding with_producer_def by (rule same_reach_link_list)
    then have "same_reach ?w u" using r p by (auto simp: same_reach_def create_producer_def)
    moreover have "map_option peerId (peers u x) = map_option peerId (peers ?w x)" for x
      using frame_peerId [OF rtp_targets_frame [OF u(1)], of x]
      by (cases "peers s x") (auto simp: with_producer_def create_producer_def link_list_def)
    ultimately have "board_of u = board_of ?w" by (intro same_board [OF g])
    then show ?thesis using announce_board [OF inv p new] by simp
  qed
  moreover have "runs (rtp_forward lib pkt ts u) (\<lambda>t. board_of t = board_of u)"
  proof (rule runs_mono)
    show "runs (rtp_forward lib pkt ts u) (\<lambda>t. same_graph u t \<and> same_reach u t \<and> frame {} u t)"
      using rtp_forward_runs [OF u(2) lib len, of ts] u(3) foldM_frame [OF rtp_forward_one_frame]
      unfolding rtp_forward_def by (auto simp: runs_def forwarded_def)
  qed (auto intro!: same_board frame_peerId)
  ultimately show ?thesis by (auto simp: onRtpPacket_def u(1) runs_def)
qed

lemma asks_for_match:
  assumes inv: "router_inv s" and p: "peers s a = Some p"
  shows "asks_for (board_of s) a pid v c \<longleftrightarrow> c \<in> set (consumers p) \<and> mid_match s pid v c"
proof (cases "conss s c")
  case None
  then show ?thesis by (simp add: asks_for_def mid_match_def)
next
  case (Some cc)
  then show ?thesis
    using subscriber_owns [OF inv p Some] by (auto simp: asks_for_def mid_match_def view_def)
qed

lemma bind_board:
  assumes inv: "router_inv s" and p: "peers s a = Some p"
    and run: "bindConsumerByMid a pid v mid s = Some (k, t)"
  shows "router_inv t \<and> board_step vpts (Bind a pid v mid) (board_of s) (board_of t)"
proof (cases "List.find (mid_match s pid v) (consumers p)")
  case None
  then have "t = s" using run bindConsumerByMid_eq [OF inv p, of pid v mid] by simp
  then show ?thesis
    using inv asks_for_match [OF inv p, of pid v] find_None_all [OF None]
    by (auto intro: board_step.bind_none)
next
  case (Some c)
  then have t: "t = s\<lparr>conss := modify c (\<lambda>x. x\<lparr>c_recvMid := mid\<rparr>) (conss s)\<rparr>"
    using run bindConsumerByMid_eq [OF inv p, of pid v mid] by simp
  have ask: "asks_for (board_of s) a pid v c" using asks_for_match [OF inv p] find_Some_in [OF Some] by blast
  then obtain cc where cc: "conss s c = Some cc" by (auto simp: asks_for_def)
  have "board_of t = (board_of s)\<lparr>subs := (subs (board_of s))(c \<mapsto> (view cc)\<lparr>sub_mid := mid\<rparr>)\<rparr>"
    by (rule board_eqI) (auto simp: t cc view_def stream_of_def split: option.split)
  then have "board_step vpts (Bind a pid v mid) (board_of s) (board_of t)"
    using board_step.bind_some [OF ask, of "view cc"] cc by simp
  moreover have "router_inv t"
    unfolding t by (rule same_graph_inv [OF same_graph_cons_upd inv]) (simp add: cons_shape_def)
  ultimately show ?thesis by blast
qed

lemma router_step_board:
  assumes inv: "router_inv s" and ok: "router_op_ok lib op s"
  shows "runs (router_step lib vpts op s) (\<lambda>t. router_inv t \<and> board_step vpts op (board_of s) (board_of t))"
proof (cases op)
  case (Subscribe a b v)
  then obtain pa pb where p: "peers s a = Some pa" "peers s b = Some pb" using ok by auto
  have "subs (board_of s) (nextAddr s) = None" using inv_freshD [OF inv, of "nextAddr s"] by simp
  then show ?thesis
    using Subscribe addConsumer_eq [OF inv p, of v] install_consumer_inv [OF inv p refl, of v]
      subscribe_board [OF inv _ p(2), of a v] p(1) uniform_ssrc_range
    by (auto intro!: board_step.subscribe)
next
  case (Leave a)
  then obtain p where p: "peers s a = Some p" using ok by auto
  have "router_inv (removed a p s)" using removePeer_runs [OF inv, of a] removePeer_eq [OF inv p] p by simp
  then show ?thesis
    using Leave removePeer_eq [OF inv p] leave_board [OF inv p] board_step.leave [of vpts a "board_of s"] by simp
next
  case (Media pkt b)
  then obtain p where p: "peers s b = Some p" using ok by auto
  show ?thesis
  proof (cases "rtp_parse pkt")
    case None
    then show ?thesis using Media inv board_step.junk [OF None] by (simp add: onRtpPacket_short)
  next
    case (Some hdr)
    have ok': "libsrtp_sizes lib" "length pkt + 10 \<le> 65536" "h_ssrc hdr \<noteq> 0" using ok Media Some by auto
    show ?thesis
      using media_board [OF inv ok'(1) p ok'(2) Some ok'(3), of vpts]
        onRtpPacket_runs [OF inv ok'(1) p ok'(2), of vpts] ok'(3) Some Media
        board_step.media [OF Some, of vpts b "board_of s"]
      by (auto simp: runs_def)
  qed
next
  case (Feedback pkt a)
  then have "runs (onRtcpPacket lib pkt a s) (\<lambda>t. same_graph s t \<and> same_reach s t)"
    using ok by (intro onRtcpPacket_runs [OF inv]) simp_all
  then obtain t where t: "onRtcpPacket lib pkt a s = Some t" "same_graph s t" "same_reach s t" by (auto simp: runs_def)
  then have "board_of t = board_of s" using frame_peerId [OF onRtcpPacket_frame [OF t(1)]] by (intro same_board) simp_all
  then show ?thesis using t Feedback same_graph_inv [OF t(2) inv] by (simp add: board_step.feedback)
next
  case (Bind a pid v mid)
  then obtain p where p: "peers s a = Some p" using ok by auto
  obtain k t where t: "bindConsumerByMid a pid v mid s = Some (k, t)"
    using bindConsumerByMid_eq [OF inv p, of pid v mid] by (auto split: option.splits)
  then show ?thesis using bind_board [OF inv p t] Bind by simp
qed

interpretation router_board: forward_simulation "router_step lib vpts" "router_op_ok lib" router_inv board_of
    "board_step vpts" for lib vpts
proof unfold_locales
  fix ev and s :: "('a, 'b, 'c) sfu_scheme" and t
  assume ok: "router_inv s" "router_op_ok lib ev s"
  note step = router_step_board [OF ok, of vpts]
  show "runs (router_step lib vpts ev s) router_inv" by (rule runs_mono [OF step]) blast
  show "board_step vpts ev (board_of s) (board_of t)" if "router_step lib vpts ev s = Some t"
    using step that by simp
qed


text \<open>Peer 1 subscribes to peer 0, then 0 starts its video.\<close>

definition sample_ops :: "router_op list" where
  "sample_ops = [Subscribe (Suc 0) 0 True, Media sample_rtp 0]"


end
