(* ===== verification/Conference.thy ===== *)
theory Conference
  imports Subscriptions ServerEvents
begin

text \<open>
  What the whole server promises, without endpoint maps, heaps or library contexts: a conference
  of participants, each on its way from its announcement to its keys, with the board of
  subscriptions between them, its steps and what they keep. \<open>ConferenceSim\<close> shows that every event
  of the server is a step of the conference.
\<close>

section \<open>The way of a participant\<close>

text \<open>
  Waiting for its endpoint; in the handshake with an endpoint; after a handshake without usable
  keys; with keys.
\<close>

datatype phase = Waiting | Joining endpoint | Refused endpoint | Secure endpoint

fun seat :: "phase \<Rightarrow> endpoint option" where
  "seat Waiting = None"
| "seat (Joining ep) = Some ep"
| "seat (Refused ep) = Some ep"
| "seat (Secure ep) = Some ep"

text \<open>The phases are ordered by what can follow what.\<close>

instantiation phase :: order
begin

definition less_eq_phase :: "phase \<Rightarrow> phase \<Rightarrow> bool" where
  "less_eq_phase x y \<longleftrightarrow> x = y \<or> x = Waiting \<or> (\<exists>ep. x = Joining ep \<and> seat y = Some ep)"

definition less_phase :: "phase \<Rightarrow> phase \<Rightarrow> bool" where
  "less_phase x y \<longleftrightarrow> x \<le> y \<and> \<not> y \<le> (x :: phase)"

instance
proof
  fix x y z :: phase
  show "x < y \<longleftrightarrow> x \<le> y \<and> \<not> y \<le> x" by (rule less_phase_def)
  show "x \<le> x" by (simp add: less_eq_phase_def)
  show "x \<le> y \<Longrightarrow> y \<le> z \<Longrightarrow> x \<le> z" by (auto simp: less_eq_phase_def)
  show "x \<le> y \<Longrightarrow> y \<le> x \<Longrightarrow> x = y" by (auto simp: less_eq_phase_def)
qed

end

lemma phase_le_simps [simp]:
  "Waiting \<le> x" "Joining ep \<le> x \<longleftrightarrow> seat x = Some ep" "Refused ep \<le> x \<longleftrightarrow> x = Refused ep"
  "Secure ep \<le> x \<longleftrightarrow> x = Secure ep"
  by (auto simp: less_eq_phase_def)

lemma phase_le_seat: "x \<le> y \<Longrightarrow> seat x = Some ep \<Longrightarrow> seat y = Some ep"
  by (cases x) auto

text \<open>What a packet of the handshake can lead to.\<close>

fun outcomes :: "phase \<Rightarrow> phase set" where
  "outcomes (Joining ep) = {Joining ep, Refused ep, Secure ep}"
| "outcomes x = {x}"

section \<open>The conference\<close>

record conference =
  members :: "string \<rightharpoonup> nat"
  phases :: "nat \<rightharpoonup> phase"
  forum :: board
  video_kinds :: "u8 set"
  listening :: bool

text \<open>A new member takes the place of one of the same name that still waits.\<close>

definition replaced :: "string \<Rightarrow> conference \<Rightarrow> nat set" where
  "replaced k C = {x. phases C x = Some Waiting \<and> names (forum C) x = Some k}"

definition enlist :: "string \<Rightarrow> nat \<Rightarrow> conference \<Rightarrow> conference" where
  "enlist k a C = C\<lparr>members := (members C)(k \<mapsto> a),
     phases := (\<lambda>x. if x = a then Some Waiting else if x \<in> replaced k C then None else phases C x),
     forum := (forum C)\<lparr>names := (\<lambda>x. if x = a then Some k else if x \<in> replaced k C then None
       else names (forum C) x)\<rparr>\<rparr>"

text \<open>Who speaks from an endpoint: who has it, or someone who waits, or a stranger without a name.\<close>

definition vacant :: "endpoint \<Rightarrow> conference \<Rightarrow> bool" where
  "vacant ep C \<longleftrightarrow> (\<forall>x \<phi>. phases C x = Some \<phi> \<longrightarrow> seat \<phi> \<noteq> Some ep)"

inductive claim :: "endpoint \<Rightarrow> nat \<Rightarrow> conference \<Rightarrow> conference \<Rightarrow> bool" where
  known: "phases C a = Some \<phi> \<Longrightarrow> seat \<phi> = Some ep \<Longrightarrow> claim ep a C C"
| waiting: "vacant ep C \<Longrightarrow> phases C a = Some Waiting \<Longrightarrow>
    claim ep a C (C\<lparr>phases := (phases C)(a \<mapsto> Joining ep)\<rparr>)"
| stranger: "vacant ep C \<Longrightarrow> (\<And>x. phases C x \<noteq> Some Waiting) \<Longrightarrow> phases C a = None \<Longrightarrow>
    claim ep a C (C\<lparr>phases := (phases C)(a \<mapsto> Joining ep), forum := (forum C)\<lparr>names := (names (forum C))(a \<mapsto> '''')\<rparr>\<rparr>)"

definition bind_op :: "nat \<Rightarrow> recv_mid \<Rightarrow> router_op" where
  "bind_op a rm = Bind a (rm_publisher rm) (rm_isVideo rm) (rm_mid rm)"

text \<open>The protocol a datagram is taken for, if the server listens.\<close>

definition heard_as :: "u8 list \<Rightarrow> conference \<Rightarrow> protocol" where
  "heard_as d C = (if listening C \<and> d \<noteq> [] then classify (take 65536 d) else Unknown)"

inductive conf_step :: "event \<Rightarrow> conference \<Rightarrow> conference \<Rightarrow> bool" where
  ignored: "heard_as d C \<in> {Stun, Unknown} \<Longrightarrow> conf_step (Datagram d ep) C C"
| handshake: "heard_as d C = Dtls \<Longrightarrow> claim ep a C C1 \<Longrightarrow> phases C1 a = Some \<phi> \<Longrightarrow> \<phi>' \<in> outcomes \<phi> \<Longrightarrow>
    conf_step (Datagram d ep) C (C1\<lparr>phases := (phases C1)(a \<mapsto> \<phi>')\<rparr>)"
| dropped: "heard_as d C = Srtp \<Longrightarrow> claim ep a C C1 \<Longrightarrow> conf_step (Datagram d ep) C C1"
| traffic: "heard_as d C = Srtp \<Longrightarrow> claim ep a C C1 \<Longrightarrow> phases C1 a = Some (Secure ep) \<Longrightarrow>
    op = Media pkt a \<or> op = Feedback pkt a \<Longrightarrow> board_step (video_kinds C1) op (forum C1) F \<Longrightarrow>
    conf_step (Datagram d ep) C (C1\<lparr>forum := F\<rparr>)"
| deaf: "conf_step Receive_error C (C\<lparr>listening := False\<rparr>)"
| announced: "phases C a = None \<Longrightarrow> conf_step (Add_peer k) C (enlist k a C)"
| offer: "members C k = Some a \<Longrightarrow> video_kinds C \<subseteq> K \<Longrightarrow>
    abstract_run (board_step (video_kinds C)) (map (bind_op a) rms) (forum C) F \<Longrightarrow>
    conf_step (Send_offer k sdp rms) C (C\<lparr>forum := F, video_kinds := K\<rparr>)"
| offer_unknown: "members C k = None \<Longrightarrow> video_kinds C \<subseteq> K \<Longrightarrow>
    conf_step (Send_offer k sdp rms) C (C\<lparr>video_kinds := K\<rparr>)"
| subscription: "members C sub = Some a \<Longrightarrow> members C pub = Some b \<Longrightarrow>
    board_step (video_kinds C) (Subscribe a b v) (forum C) F \<Longrightarrow>
    conf_step (Add_consumer sub pub v) C (C\<lparr>forum := F\<rparr>)"
| not_found: "members C sub = None \<or> members C pub = None \<Longrightarrow> conf_step (Add_consumer sub pub v) C C"
| kept: "conf_step Remove_consumer C C"
| gone: "members C k = Some a \<Longrightarrow>
    conf_step (Remove_peer k) C (C\<lparr>members := (members C)(k := None), forum := leave a (forum C)\<rparr>)"
| never_there: "members C k = None \<Longrightarrow> conf_step (Remove_peer k) C C"
text \<open>Nobody there, and the server listens.\<close>

definition empty_conference :: conference where
  "empty_conference = \<lparr>members = Map.empty, phases = Map.empty,
     forum = \<lparr>subs = Map.empty, streams = (\<lambda>_. []), names = Map.empty\<rparr>, video_kinds = {}, listening = True\<rparr>"

section \<open>What the conference keeps\<close>

text \<open>Whoever has an endpoint stays, under the same name, and only goes on.\<close>

definition advances :: "conference \<Rightarrow> conference \<Rightarrow> bool" where
  "advances C D \<longleftrightarrow> (\<forall>a \<phi>. phases C a = Some \<phi> \<longrightarrow> seat \<phi> \<noteq> None \<longrightarrow>
     (\<exists>\<psi>. phases D a = Some \<psi> \<and> \<phi> \<le> \<psi>) \<and> names (forum D) a = names (forum C) a)"

lemma advances_refl: "advances C C"
  by (simp add: advances_def)

lemma advances_trans:
  assumes "advances B C" "advances C D"
  shows "advances B D"
  unfolding advances_def
proof (intro allI impI)
  fix a \<phi> assume a: "phases B a = Some \<phi>" "seat \<phi> \<noteq> None"
  then obtain \<psi> where c: "phases C a = Some \<psi>" "\<phi> \<le> \<psi>" "names (forum C) a = names (forum B) a"
    using assms(1) unfolding advances_def by blast
  then have "seat \<psi> \<noteq> None" using a(2) phase_le_seat [of \<phi> \<psi>] by fastforce
  then obtain \<chi> where "phases D a = Some \<chi>" "\<psi> \<le> \<chi>" "names (forum D) a = names (forum C) a"
    using assms(2) c(1) unfolding advances_def by blast
  then show "(\<exists>\<chi>. phases D a = Some \<chi> \<and> \<phi> \<le> \<chi>) \<and> names (forum D) a = names (forum B) a"
    using c(2,3) order_trans by auto
qed

lemma board_step_names: "board_step vpts op B F \<Longrightarrow> names F = names B"
  by (erule board_step.cases) (auto simp: subscribe_def leave_def announce_def)

lemma abstract_run_names: "abstract_run (board_step vpts) ops B F \<Longrightarrow> names F = names B"
  by (erule abstract_run_mono [where R = "\<lambda>B F. names F = names B"]) (auto dest: board_step_names)

lemma claim_advances: "claim ep a C D \<Longrightarrow> advances C D"
  by (erule claim.cases) (auto simp: advances_def)

lemma outcomes_later: "\<phi>' \<in> outcomes \<phi> \<Longrightarrow> \<phi> \<le> \<phi>'"
  by (cases \<phi>) auto

lemma conf_step_advances:
  assumes "conf_step ev C D"
  shows "advances C D"
  using assms
proof cases
  case (handshake d ep a C1 \<phi> \<phi>')
  have "advances C1 D" using handshake(5) outcomes_later [OF handshake(6)] by (simp add: advances_def handshake(2))
  then show ?thesis using claim_advances [OF handshake(4)] advances_trans handshake by blast
next
  case (dropped d ep a)
  then show ?thesis using claim_advances by blast
next
  case (traffic d ep a C1 op pkt F)
  have "advances C1 D" using board_step_names [OF traffic(7)] by (simp add: advances_def traffic(2))
  then show ?thesis using claim_advances [OF traffic(4)] advances_trans by blast
next
  case (announced a k)
  then show ?thesis by (auto simp: advances_def enlist_def replaced_def)
qed (auto simp: advances_def leave_def dest: board_step_names abstract_run_names)

text \<open>Streams come from participants with keys only.\<close>

definition authentic :: "conference \<Rightarrow> bool" where
  "authentic C \<longleftrightarrow> (\<forall>a. streams (forum C) a \<noteq> [] \<longrightarrow> (\<exists>ep. phases C a = Some (Secure ep)))"

lemma claim_authentic: "claim ep a C D \<Longrightarrow> authentic C \<Longrightarrow> authentic D"
  by (erule claim.cases) (auto simp: authentic_def)

lemma board_step_streams:
  "board_step vpts op B F \<Longrightarrow> streams F x \<noteq> [] \<Longrightarrow> streams B x \<noteq> [] \<or> (\<exists>pkt. op = Media pkt x)"
  by (erule board_step.cases) (auto simp: subscribe_def leave_def announce_def split: if_splits)

lemma bind_run_streams:
  "abstract_run (board_step vpts) (map (bind_op a) rms) B F \<Longrightarrow> streams F x \<noteq> [] \<Longrightarrow> streams B x \<noteq> []"
  by (induction rms arbitrary: B) (auto simp: bind_op_def dest: board_step_streams)

lemma conf_step_authentic:
  assumes "conf_step ev C D" "authentic C"
  shows "authentic D"
  using assms(1)
proof cases
  case (handshake d ep a C1 \<phi> \<phi>')
  have "authentic C1" by (rule claim_authentic [OF handshake(4) assms(2)])
  moreover have "\<phi> = Secure x \<Longrightarrow> \<phi>' = Secure x" for x using handshake(6) by simp
  ultimately show ?thesis using handshake(5) unfolding authentic_def handshake(2) by fastforce
next
  case (dropped d ep a)
  then show ?thesis using claim_authentic assms(2) by blast
next
  case (traffic d ep a C1 op pkt F)
  have "authentic C1" by (rule claim_authentic [OF traffic(4) assms(2)])
  then show ?thesis using board_step_streams [OF traffic(7)] traffic(5,6) by (fastforce simp: authentic_def traffic(2))
next
  case (announced a k)
  then show ?thesis using assms(2) by (fastforce simp: authentic_def enlist_def replaced_def)
next
  case (offer k a K rms F sdp)
  then show ?thesis using assms(2) bind_run_streams by (fastforce simp: authentic_def)
next
  case (subscription sub a pub b v F)
  then show ?thesis using assms(2) board_step_streams by (fastforce simp: authentic_def)
qed (use assms(2) in \<open>auto simp: authentic_def leave_def\<close>)

lemma authentic_start: "authentic empty_conference"
  by (simp add: authentic_def empty_conference_def)

end
