(* ===== verification/ConferenceSim.thy ===== *)
theory ConferenceSim
  imports Conference ServerProps
begin

text \<open>
  The simulation between the server and the conference: the abstraction \<open>conf_of\<close> of a server state, and
  for each event of the server the step of the conference that it is.
\<close>

section \<open>The server as a conference\<close>

definition peer_phase :: "('s, 'd) peer \<Rightarrow> phase" where
  "peer_phase p = (if srtp p \<noteq> None then Secure (remoteEp p)
     else case dtls p of None \<Rightarrow> Joining (remoteEp p)
     | Some c \<Rightarrow> if handshakeDone c then Refused (remoteEp p) else Joining (remoteEp p))"

definition phase_of :: "('s, 'd) server \<Rightarrow> nat \<Rightarrow> phase option" where
  "phase_of s a = (if a \<in> snd ` set (pendingPeers s) then Some Waiting else map_option peer_phase (peers s a))"

definition conf_of :: "('s, 'd) server \<Rightarrow> conference" where
  "conf_of s = \<lparr>members = map_of (svcPeers s), phases = phase_of s, forum = board_of s,
     video_kinds = g_videoPTs (statics s), listening = receiving s\<rparr>"

lemma conf_of_simps [simp]:
  "members (conf_of s) = map_of (svcPeers s)" "phases (conf_of s) = phase_of s" "forum (conf_of s) = board_of s"
  "video_kinds (conf_of s) = g_videoPTs (statics s)" "listening (conf_of s) = receiving s"
  by (simp_all add: conf_of_def)

lemma conf_eqI:
  fixes C D :: conference
  assumes "members C = members D" "\<And>a. phases C a = phases D a" "forum C = forum D"
    "video_kinds C = video_kinds D" "listening C = listening D"
  shows "C = D"
  using assms by (cases C; cases D) (simp add: fun_eq_iff)

lemma seat_peer_phase [simp]: "seat (peer_phase p) = Some (remoteEp p)"
  by (simp add: peer_phase_def split: option.split)

lemma bound_phase:
  assumes "server_inv s" "(ep, a) \<in> set (peerMap s)" "peers s a = Some p"
  shows "phase_of s a = Some (peer_phase p)"
  using bound_not_pending [OF assms(1,2)] assms(3) by (auto simp: phase_of_def)

lemma phase_of_None: "server_inv s \<Longrightarrow> phase_of s a = None \<longleftrightarrow> peers s a = None"
  by (auto simp: phase_of_def server_inv_def maps_inv_def owner_addrs_def)

lemma vacant_conf:
  assumes inv: "server_inv s"
  shows "vacant ep (conf_of s) \<longleftrightarrow> map_of (peerMap s) ep = None"
proof
  assume v: "vacant ep (conf_of s)"
  show "map_of (peerMap s) ep = None"
  proof (rule ccontr)
    assume "map_of (peerMap s) ep \<noteq> None"
    then obtain a where a: "(ep, a) \<in> set (peerMap s)" by (auto dest: map_of_SomeD)
    obtain p where p: "peers s a = Some p" "remoteEp p = ep" using bound_live [OF inv a] by blast
    then have "phases (conf_of s) a = Some (peer_phase p)" "seat (peer_phase p) = Some ep"
      using bound_phase [OF inv a p(1)] by simp_all
    then show False using v unfolding vacant_def by blast
  qed
next
  assume none: "map_of (peerMap s) ep = None"
  show "vacant ep (conf_of s)"
    unfolding vacant_def
  proof (intro allI impI)
    fix x \<phi> assume x: "phases (conf_of s) x = Some \<phi>"
    show "seat \<phi> \<noteq> Some ep"
    proof (cases "x \<in> snd ` set (pendingPeers s)")
      case False
      then obtain p where p: "peers s x = Some p" "\<phi> = peer_phase p" using x by (auto simp: phase_of_def)
      have "x \<in> snd ` set (peerMap s)"
        using False p(1) inv by (auto simp: server_inv_def maps_inv_def owner_addrs_def)
      then obtain ep' where "(ep', x) \<in> set (peerMap s)" by force
      moreover have "remoteEp p = ep'" using bound_live [OF inv calculation] p(1) by simp
      ultimately have "(remoteEp p, x) \<in> set (peerMap s)" by simp
      then show ?thesis using none p(2) by (auto simp: map_of_eq_None_iff image_iff)
    qed (use x in \<open>auto simp: phase_of_def\<close>)
  qed
qed

text \<open>A step of the router changes at most the board.\<close>

lemma frame_phase:
  assumes f: "frame A s t"
  shows "phase_of t a = phase_of s a"
proof (cases "peers s a")
  case None
  then have "peers t a = None" using frame_peer_back [OF f, of a] by (cases "peers t a") auto
  then show ?thesis using None frame_eqs(2) [OF f] by (simp add: phase_of_def)
next
  case (Some p)
  then obtain q where "peers t a = Some q" "peer_frame (a \<in> A) p q" using frame_peer [OF f] by blast
  then show ?thesis using Some frame_eqs(2) [OF f]
    by (auto simp: phase_of_def peer_phase_def peer_frame_def split: option.split)
qed

lemma frame_conf: "frame A s t \<Longrightarrow> conf_of t = (conf_of s)\<lparr>forum := board_of t\<rparr>"
  by (rule conf_eqI) (simp_all add: frame_phase frame_eqs)

lemma graph_step_conf:
  assumes g: "graph_step s t" and c: "conss t = conss s"
  shows "conf_of t = conf_of s"
proof -
  have f: "frame {} s t" using g by (simp add: graph_step_def)
  have "map_option remoteEp (peers t a) = map_option remoteEp (peers s a)" for a
    using frame_peer [OF f, of a] frame_peer_back [OF f, of a]
    by (cases "peers s a"; cases "peers t a") (auto simp: peer_frame_def)
  then have "same_reach s t" using c by (simp add: same_reach_def)
  then have "board_of t = board_of s"
    using g frame_peerId [OF f] by (intro same_board) (auto simp: graph_step_def)
  then show ?thesis using frame_conf [OF f] by simp
qed

lemma stream_of_cong: "prods t = prods s \<Longrightarrow> stream_of t = stream_of s"
  by (simp add: stream_of_def fun_eq_iff)

lemma board_of_cong: "peers t = peers s \<Longrightarrow> prods t = prods s \<Longrightarrow> conss t = conss s \<Longrightarrow> board_of t = board_of s"
  unfolding board_of_def by (simp only: stream_of_cong [of t s])

lemma conf_of_receiving [simp]: "conf_of (s\<lparr>receiving := b\<rparr>) = (conf_of s)\<lparr>listening := b\<rparr>"
  by (rule conf_eqI) (simp_all add: phase_of_def, rule board_of_cong, simp_all)

lemma conf_of_sent [simp]: "conf_of (s\<lparr>sent := out\<rparr>) = conf_of s"
  by (rule conf_eqI) (simp_all add: phase_of_def, rule board_of_cong, simp_all)

section \<open>Endpoints\<close>

lemma bind_endpoint_board:
  "peers s a = Some p \<Longrightarrow> board_of (bind_endpoint ep a p s) = board_of s"
  unfolding bind_endpoint_def by (rule board_eqI) (auto simp: stream_of_def split: option.split)

lemma waiting_phase: "x \<in> snd ` set (pendingPeers s) \<Longrightarrow> phase_of s x = Some Waiting"
  by (simp add: phase_of_def)

lemma waiting_iff: "server_inv s \<Longrightarrow> phase_of s x = Some Waiting \<longleftrightarrow> x \<in> snd ` set (pendingPeers s)"
  by (auto simp: phase_of_def peer_phase_def split: option.splits if_splits)

lemma ready_joining: "ready p \<Longrightarrow> dtls p = None \<Longrightarrow> peer_phase (p\<lparr>remoteEp := ep\<rparr>) = Joining ep"
  by (simp add: ready_def peer_phase_def)

lemma getOrCreatePeer_claim:
  assumes inv: "server_inv s" and run: "getOrCreatePeer e ep s = Some (a, t)"
  shows "claim ep a (conf_of s) (conf_of t)"
proof (cases "map_of (peerMap s) ep")
  case (Some b)
  then have t: "b = a" "t = s" using run by (simp_all add: getOrCreatePeer_known)
  have ep: "(ep, a) \<in> set (peerMap s)" using Some t(1) by (simp add: map_of_SomeD)
  obtain p where p: "peers s a = Some p" "remoteEp p = ep" using bound_live [OF inv ep] by blast
  then show ?thesis using bound_phase [OF inv ep p(1)] t by (auto intro!: claim.known)
next
  case None
  have vac: "vacant ep (conf_of s)" using vacant_conf [OF inv] None by simp
  show ?thesis
  proof (cases "pendingPeers s = []")
    case True
    let ?a = "nextAddr s" and ?u = "alloc_peer new_peer s"
    have t: "a = ?a" "t = bind_endpoint ep ?a new_peer ?u"
      using run unfolding getOrCreatePeer_new [OF None True] by auto
    have free: "peers s ?a = None" using inv inv_freshD(1) [of s ?a] by (simp add: server_inv_def)
    have "board_of ?u = (board_of s)\<lparr>names := (names (board_of s))(?a \<mapsto> '''')\<rparr>"
      using free by (intro board_eqI) (auto simp: alloc_peer_def new_peer_def stream_of_def split: option.split)
    moreover have "board_of t = board_of ?u" unfolding t(2) by (rule bind_endpoint_board) (simp add: alloc_peer_def)
    ultimately have "conf_of t = (conf_of s)\<lparr>phases := (phases (conf_of s))(a \<mapsto> Joining ep),
        forum := (forum (conf_of s))\<lparr>names := (names (forum (conf_of s)))(a \<mapsto> '''')\<rparr>\<rparr>"
      using True by (intro conf_eqI) (simp_all add: t(1),
        simp_all add: t alloc_peer_def bind_endpoint_def phase_of_def new_peer_def peer_phase_def)
    moreover have "phases (conf_of s) x \<noteq> Some Waiting" for x using waiting_iff [OF inv, of x] True by simp
    moreover have "phases (conf_of s) a = None" using phase_of_None [OF inv] free t(1) by simp
    ultimately show ?thesis using claim.stranger [OF vac] by simp
  next
    case False
    obtain x rest where tb: "take_begin (beginOf e) (pendingPeers s) = (x, rest)" by fastforce
    note ms = take_begin_perm [OF False tb]
    have x: "x \<in> set (pendingPeers s)" using ms by (metis set_mset_mset union_single_eq_member)
    then obtain p where p: "peers s (snd x) = Some p" "dtls p = None" "ready p"
      using ids_invD(1) [of s x] inv by (auto simp: server_inv_def)
    let ?u = "s\<lparr>pendingPeers := rest\<rparr>"
    have t: "a = snd x" "t = bind_endpoint ep a p ?u"
      using run unfolding getOrCreatePeer_pending [OF None False tb p(1)] by auto
    have "distinct (map snd (pendingPeers s))"
      using inv by (simp add: server_inv_def maps_inv_def owner_addrs_def)
    from distinct_mset_cons [OF ms this] have rest: "snd ` set (pendingPeers s) = insert a (snd ` set rest)" "a \<notin> snd ` set rest"
      by (simp_all add: t(1))
    have "board_of t = board_of s"
      using p(1) by (simp add: t bind_endpoint_board) (rule board_of_cong, simp_all)
    moreover have "phase_of t y = ((phase_of s)(a \<mapsto> Joining ep)) y" for y
      using rest ready_joining [OF p(3,2)] by (auto simp: t phase_of_def bind_endpoint_def)
    ultimately have "conf_of t = (conf_of s)\<lparr>phases := (phases (conf_of s))(a \<mapsto> Joining ep)\<rparr>"
      by (intro conf_eqI) (simp_all add: t(2), simp_all add: bind_endpoint_def)
    moreover have "phases (conf_of s) a = Some Waiting" using x t(1) by (simp add: waiting_phase)
    ultimately show ?thesis using claim.waiting [OF vac] by simp
  qed
qed

section \<open>Announcements\<close>

lemma replaced_conf:
  assumes inv: "server_inv s"
  shows "replaced k (conf_of s) = set_option (map_of (pendingPeers s) k)"
proof -
  have ids: "ids_inv s" and keys: "distinct (map fst (pendingPeers s))"
    using inv by (simp_all add: server_inv_def maps_inv_def)
  have "(k, x) \<in> set (pendingPeers s) \<longleftrightarrow> x \<in> replaced k (conf_of s)" for x
  proof
    assume kx: "(k, x) \<in> set (pendingPeers s)"
    then have "x \<in> snd ` set (pendingPeers s)" by force
    then show "x \<in> replaced k (conf_of s)"
      using ids_invD(1) [OF ids kx] waiting_phase [of x s] by (auto simp: replaced_def)
  next
    assume x: "x \<in> replaced k (conf_of s)"
    then obtain y where y: "y \<in> set (pendingPeers s)" "snd y = x"
      using waiting_iff [OF inv, of x] by (auto simp: replaced_def)
    then have "fst y = k" using ids_invD(1) [OF ids y(1)] x by (auto simp: replaced_def)
    then show "(k, x) \<in> set (pendingPeers s)" using y by (cases y) simp
  qed
  then show ?thesis using map_of_eq_Some_iff [OF keys, of k] by (auto simp: set_eq_iff)
qed

lemma added_conf:
  assumes inv: "server_inv s" and un: "\<And>b. map_of (pendingPeers s) k = Some b \<Longrightarrow> unused b s"
  shows "conf_of (added k s) = enlist k (nextAddr s) (conf_of s)"
proof -
  let ?a = "nextAddr s" and ?old = "set_option (map_of (pendingPeers s) k)"
  have m: "maps_inv s" and r: "router_inv s" using inv by (simp_all add: server_inv_def)
  have free: "peers s ?a = None" using inv_freshD(1) [OF r] by simp
  have vals: "distinct (map snd (pendingPeers s))" "?a \<notin> snd ` set (pendingPeers s)" "distinct (map fst (pendingPeers s))"
    using m fresh_not_owned(1) [OF m free] by (simp_all add: maps_inv_def owner_addrs_def)
  note pend = update_values(2) [OF vals, of k]
  have P: "peers (added k s) x = (if x = ?a then Some (new_peer\<lparr>peerId := k\<rparr>) else if x \<in> ?old then None else peers s x)" for x
  proof (cases "map_of (pendingPeers s) k")
    case (Some b)
    then show ?thesis using replaced_not_registered(3) [OF inv Some] by (auto simp: added_def)
  qed (simp add: added_def)
  have others: "conss (added k s) = conss s \<and> prods (added k s) = prods s"
  proof (cases "map_of (pendingPeers s) k")
    case (Some b)
    obtain p where p: "peers s b = Some p" "producers p = []" "b \<noteq> ?a"
      using replaced_not_registered(3,4) [OF inv Some] by blast
    have "consumers p = []" using inv_allD(3) [OF r p(1)] un [OF Some] by (auto simp: unused_def)
    then show ?thesis using p Some by (simp add: added_def destroy_peer_def)
  qed (simp add: added_def)
  have old: "producers p = []" if "x \<in> ?old" "peers s x = Some p" for x p
    using that replaced_not_registered(4) [OF inv, of k x] by auto
  have keep: "statics (added k s) = statics s" "receiving (added k s) = receiving s"
    by (simp_all add: added_def Let_def with_new_peer_def alloc_peer_def destroy_peer_def split: option.split)
  have st: "stream_of (added k s) = stream_of s" using others by (intro stream_of_cong) simp
  have "board_of (added k s) = forum (enlist k ?a (conf_of s))"
  proof (rule board_eqI)
    fix x
    show "streams (board_of (added k s)) x = streams (forum (enlist k ?a (conf_of s))) x"
      using old [of x] free by (auto simp: enlist_def P st new_peer_def split: option.split)
  qed (simp_all add: enlist_def replaced_conf [OF inv] P others new_peer_def)
  moreover have "phase_of (added k s) x = phases (enlist k ?a (conf_of s)) x" for x
    by (auto simp: phase_of_def pend P enlist_def replaced_conf [OF inv])
  ultimately show ?thesis
    by (intro conf_eqI) (simp_all add: keep, simp_all add: enlist_def update_conv')
qed

section \<open>Datagrams\<close>

lemma foldM_keeps:
  assumes "foldM f xs s = Some t" "\<And>x u v. x \<in> set xs \<Longrightarrow> f x u = Some v \<Longrightarrow> g v = g u"
  shows "g t = g s"
  using assms
proof (induction xs arbitrary: s)
  case (Cons x xs)
  then obtain u where u: "f x s = Some u" "foldM f xs u = Some t" by (auto simp: Option.bind_eq_Some_conv)
  have "g t = g u" by (rule Cons.IH [OF u(2)]) (use Cons.prems(2) in auto)
  then show ?case using Cons.prems(2) [of x s u] u(1) by simp
qed simp

lemma sendProtectedRtcp_conss: "sendProtectedRtcp lib cap pkt p s = Some (b, t) \<Longrightarrow> conss t = conss s"
  by (auto simp: sendProtectedRtcp_def Let_def Option.bind_eq_Some_conv split: option.splits prod.splits)

lemma pli_conss: "pli_to_publisher lib a r s = Some t \<Longrightarrow> conss t = conss s"
  by (auto simp: pli_to_publisher_def Option.bind_eq_Some_conv split: if_splits dest: sendProtectedRtcp_conss)

lemma sendPLItoAllPeers_conss: "sendPLItoAllPeers lib a s = Some t \<Longrightarrow> conss t = conss s"
  by (auto simp: sendPLItoAllPeers_def Option.bind_eq_Some_conv split: if_splits
      dest!: foldM_keeps [where g = conss, OF _ pli_conss])

lemma decrypt_conss: "decrypt lib d a ctx s = Some (pl, t) \<Longrightarrow> conss t = conss s"
  by (auto simp: decrypt_def Let_def Option.bind_eq_Some_conv split: if_splits option.splits)

text \<open>The state after the peer at \<open>a\<close> got a session and perhaps keys.\<close>

lemma store_peer_conf:
  assumes "peers s a = Some p" "a \<notin> snd ` set (pendingPeers s)"
    and "producers q = producers p" "peerId q = peerId p"
  shows "conf_of (s\<lparr>peers := (peers s)(a \<mapsto> q), sent := out\<rparr>) =
    (conf_of s)\<lparr>phases := (phases (conf_of s))(a \<mapsto> peer_phase q)\<rparr>"
proof (rule conf_eqI)
  let ?t = "s\<lparr>peers := (peers s)(a \<mapsto> q), sent := out\<rparr>"
  have "board_of ?t = board_of s"
    using assms by (intro board_eqI) (auto simp: stream_of_def split: option.split)
  then show "forum (conf_of ?t) = forum ((conf_of s)\<lparr>phases := (phases (conf_of s))(a \<mapsto> peer_phase q)\<rparr>)"
    unfolding conf_of_simps(3) by (rule trans) simp
qed (use assms(2) in \<open>auto simp: phase_of_def\<close>)

lemma handshake_phase:
  assumes "ready p" "remoteEp p = ep"
    and hp: "handlePacket lib data (session_of lib ep p) = (c, out, r)"
    and q: "q = p\<lparr>dtls := Some c\<rparr> \<or>
      q = p\<lparr>dtls := Some c, srtp := Some k\<rparr> \<and> \<not> handshakeDone (session_of lib ep p) \<and> handshakeDone c"
  shows "peer_phase q \<in> outcomes (peer_phase p)"
proof -
  have new: "\<not> handshakeDone (session_of lib ep p)" if "dtls p = None"
    using that by (simp add: session_of_def dtls_setSendCallback_def dtls_new_def)
  have same: "c = d" if "dtls p = Some d" "handshakeDone d" for d
    using hp that by (simp add: session_of_def handlePacket_done)
  show ?thesis
    using q assms(1,2) new same
    by (cases "dtls p"; cases "srtp p") (auto simp: peer_phase_def session_of_def ready_def split: if_splits)
qed

lemma handleDtls_conf:
  assumes inv: "server_inv s" and lib: "libsrtp_sizes (srtpL e)" and run: "handleDtls e data ep s = Some t"
  shows "\<exists>a C \<phi> \<phi>'. claim ep a (conf_of s) C \<and> phases C a = Some \<phi> \<and> \<phi>' \<in> outcomes \<phi> \<and>
    conf_of t = C\<lparr>phases := (phases C)(a \<mapsto> \<phi>')\<rparr>"
proof -
  obtain a s1 where s1: "getOrCreatePeer e ep s = Some (a, s1)" "server_inv s1" "(ep, a) \<in> set (peerMap s1)"
    using getOrCreatePeer_runs [OF inv, of e ep] by (auto simp: runs_def)
  obtain p where p: "peers s1 a = Some p" "ready p" "remoteEp p = ep"
    using ids_invD(2) [of s1 "(ep, a)"] s1(2,3) by (auto simp: server_inv_def)
  have np: "a \<notin> snd ` set (pendingPeers s1)" using bound_not_pending [OF s1(2,3)] by blast
  obtain c out r where hp: "handlePacket (dtlsL e) data (session_of (dtlsL e) ep p) = (c, out, r)"
    by (cases "handlePacket (dtlsL e) data (session_of (dtlsL e) ep p)")
  obtain ok k where init: "srtp_init (srtpL e) (exportSrtpKeys (dtlsL e) c) srtp_new = (ok, k)" by fastforce
  define q where "q = (if \<not> handshakeDone (session_of (dtlsL e) ep p) \<and> handshakeDone c \<and>
      exportSrtpKeys (dtlsL e) c \<noteq> [] \<and> ok then p\<lparr>dtls := Some c, srtp := Some k\<rparr> else p\<lparr>dtls := Some c\<rparr>)"
  define u where "u = s1\<lparr>peers := (peers s1)(a \<mapsto> q), sent := sent s1 @ out\<rparr>"
  have swap: "s1\<lparr>sent := x, peers := y\<rparr> = s1\<lparr>peers := y, sent := x\<rparr>" for x y by simp
  have "t = u \<or> sendPLItoAllPeers (srtpL e) a u = Some t \<and> handshakeDone c"
    using run by (auto simp: handleDtls_def s1(1) p(1) hp init Let_def u_def q_def modify_def swap split: if_splits)
  moreover have "conf_of t = conf_of u" if "sendPLItoAllPeers (srtpL e) a u = Some t" "handshakeDone c"
  proof -
    have "dtls_sendCb c = Some ep"
      using handlePacket_callback [OF hp] session_of_callback [OF s1(2,3) p(1)] by simp
    then have "server_inv u"
      unfolding u_def using that(2)
      by (intro store_session_inv [OF s1(2,3) p(1), where c = c]) (simp_all add: q_def ready_def)
    from sendPLItoAllPeers_runs [OF this lib, of a] have "graph_step u t" using that(1) by simp
    then show ?thesis by (rule graph_step_conf) (rule sendPLItoAllPeers_conss [OF that(1)])
  qed
  moreover have "conf_of u = (conf_of s1)\<lparr>phases := (phases (conf_of s1))(a \<mapsto> peer_phase q)\<rparr>"
    unfolding u_def by (rule store_peer_conf [OF p(1) np]) (simp_all add: q_def)
  moreover have "peer_phase q \<in> outcomes (peer_phase p)"
    by (rule handshake_phase [OF p(2,3) hp, where k = k]) (simp add: q_def)
  moreover have "phases (conf_of s1) a = Some (peer_phase p)" using bound_phase [OF s1(2,3) p(1)] by simp
  ultimately show ?thesis using getOrCreatePeer_claim [OF inv s1(1)] by metis
qed

lemma dispatch_conf:
  assumes inv: "server_inv s" and lib: "libsrtp_sizes lib" and a: "(ep, a) \<in> set (peerMap s)"
    and ok: "plain_ok pl s" and len: "case pl of Plain_rtp pkt \<Rightarrow> length pkt + 10 \<le> 65536 | _ \<Rightarrow> True"
    and run: "dispatch lib pl a s = Some t"
  shows "conf_of t = conf_of s \<or> (\<exists>op pkt F. (op = Media pkt a \<or> op = Feedback pkt a) \<and>
    board_step (g_videoPTs (statics s)) op (board_of s) F \<and> conf_of t = (conf_of s)\<lparr>forum := F\<rparr>)"
proof (cases "pr_router s \<and> pl \<noteq> Rejected")
  case False
  then have "t = s" using run by (auto simp: dispatch_def split: plain.splits)
  then show ?thesis by simp
next
  case True
  obtain p where p: "peers s a = Some p" using bound_live [OF inv a] by blast
  have r: "router_inv s" using inv by (simp add: server_inv_def)
  define op where "op = (case pl of Plain_rtp pkt \<Rightarrow> Media pkt a | Plain_rtcp pkt \<Rightarrow> Feedback pkt a | Rejected \<Rightarrow> Leave a)"
  have op: "\<exists>pkt. op = Media pkt a \<or> op = Feedback pkt a" using True by (cases pl) (auto simp: op_def)
  have step: "router_step lib (g_videoPTs (statics s)) op s = Some t"
    using run True by (cases pl) (auto simp: op_def dispatch_def)
  have "router_op_ok lib op s"
    using ok len lib p True by (cases pl) (auto simp: op_def plain_ok_def split: option.split)
  from router_step_board [OF r this, of "g_videoPTs (statics s)"]
  have "board_step (g_videoPTs (statics s)) op (board_of s) (board_of t)" using step by simp
  moreover have "conf_of t = (conf_of s)\<lparr>forum := board_of t\<rparr>"
    using op step frame_conf [OF onRtpPacket_frame] frame_conf [OF onRtcpPacket_frame] by auto
  ultimately show ?thesis using op by blast
qed

lemma handleSrtp_conf:
  assumes inv: "server_inv s" and lib: "libsrtp_sizes (srtpL e)" and len: "length data \<le> 65507"
    and ok: "\<And>pl. handed_over e data ep s = Some pl \<Longrightarrow> plain_ok pl s"
    and run: "handleSrtp e data ep s = Some t"
  shows "\<exists>a C. claim ep a (conf_of s) C \<and> (conf_of t = C \<or> phases C a = Some (Secure ep) \<and>
    (\<exists>op pkt F. (op = Media pkt a \<or> op = Feedback pkt a) \<and> board_step (video_kinds C) op (forum C) F \<and>
      conf_of t = C\<lparr>forum := F\<rparr>))"
proof -
  obtain a s1 where s1: "getOrCreatePeer e ep s = Some (a, s1)" "server_inv s1" "(ep, a) \<in> set (peerMap s1)" "quiet s s1"
    using getOrCreatePeer_runs [OF inv, of e ep] by (auto simp: runs_def)
  obtain p where p: "peers s1 a = Some p" "remoteEp p = ep" using bound_live [OF s1(2,3)] by blast
  note claim = getOrCreatePeer_claim [OF inv s1(1)]
  show ?thesis
  proof (cases "srtp p")
    case None
    then have "t = s1" using run by (simp add: handleSrtp_def s1(1) p(1))
    then show ?thesis using claim by blast
  next
    case (Some ctx)
    have "length data \<le> 65536" using len by simp
    from decrypt_runs [OF lib this p(1) Some] obtain pl s2 where
      d: "decrypt (srtpL e) data a ctx s1 = Some (pl, s2)" and g: "graph_step s1 s2"
      and out: "outSsrcToConsumer s2 = outSsrcToConsumer s1" and pm: "peerMap s2 = peerMap s1"
      and fit: "case pl of Plain_rtp pkt \<Rightarrow> length pkt \<le> length data | _ \<Rightarrow> True"
      by (auto simp: runs_def)
    have c: "conf_of s2 = conf_of s1" by (rule graph_step_conf [OF g decrypt_conss [OF d]])
    have "handed_over e data ep s = Some pl" by (simp add: handed_over_def s1(1) p(1) Some d)
    then have "plain_ok pl s2" using ok plain_ok_cong [of s2 s pl] out s1(4) by (simp add: quiet_def)
    moreover have "case pl of Plain_rtp pkt \<Rightarrow> length pkt + 10 \<le> 65536 | _ \<Rightarrow> True"
      using fit len by (simp split: plain.splits)
    moreover have "dispatch (srtpL e) pl a s2 = Some t" using run by (simp add: handleSrtp_def s1(1) p(1) Some d)
    moreover have "(ep, a) \<in> set (peerMap s2)" using s1(3) pm by simp
    ultimately have "conf_of t = conf_of s2 \<or> (\<exists>op pkt F. (op = Media pkt a \<or> op = Feedback pkt a) \<and>
        board_step (g_videoPTs (statics s2)) op (board_of s2) F \<and> conf_of t = (conf_of s2)\<lparr>forum := F\<rparr>)"
      using dispatch_conf [OF graph_step_inv [OF g s1(2)] lib] by blast
    moreover have "phases (conf_of s2) a = Some (Secure ep)"
      using bound_phase [OF s1(2,3) p(1)] Some p(2) by (simp add: c peer_phase_def)
    moreover have "g_videoPTs (statics s2) = video_kinds (conf_of s2)" "board_of s2 = forum (conf_of s2)" by simp_all
    ultimately show ?thesis using claim unfolding c by metis
  qed
qed

lemma listening_swap:
  "C\<lparr>listening := b, phases := x\<rparr> = C\<lparr>phases := x, listening := b\<rparr>"
  "C\<lparr>listening := b, forum := F\<rparr> = C\<lparr>forum := F, listening := b\<rparr>"
  by simp_all

lemma claim_listening:
  assumes "claim ep a C D"
  shows "claim ep a (C\<lparr>listening := b\<rparr>) (D\<lparr>listening := b\<rparr>)"
  using assms
proof cases
  case (known \<phi>)
  then show ?thesis using claim.known [of "C\<lparr>listening := b\<rparr>" a \<phi> ep] by simp
next
  case waiting
  then show ?thesis using claim.waiting [of ep "C\<lparr>listening := b\<rparr>" a] by (simp add: vacant_def listening_swap)
next
  case stranger
  then show ?thesis using claim.stranger [of ep "C\<lparr>listening := b\<rparr>" a] by (simp add: vacant_def listening_swap)
qed

lemma conf_of_listening: "receiving s \<Longrightarrow> (conf_of s)\<lparr>listening := True\<rparr> = conf_of s"
  by (simp add: conf_of_def)

lemma datagram_conf:
  assumes inv: "server_inv s" and ok: "admissible e (Datagram d ep) s" and run: "run_event e (Datagram d ep) s = Some t"
  shows "conf_step (Datagram d ep) (conf_of s) (conf_of t)"
proof (cases "receiving s \<and> d \<noteq> []")
  case False
  then have "conf_of t = conf_of s"
    using run False by (auto simp: onReceive_def onPacket_def startReceive_def conf_of_listening split: if_splits)
  then show ?thesis using False by (auto simp: heard_as_def intro!: conf_step.ignored)
next
  case True
  let ?s = "s\<lparr>receiving := False\<rparr>" and ?d = "take 65536 d"
  have lib: "libsrtp_sizes (srtpL e)" and dok: "datagram_ok e ?d ep ?s" using ok True by (simp_all add: admissible_def)
  have inv0: "server_inv ?s" using inv by (rule receiving_inv)
  have ne: "\<not> length ?d < 1" using True by (cases d) simp_all
  have h: "heard_as d (conf_of s) = classify ?d" using True by (simp add: heard_as_def)
  obtain u where u: "onPacket e ?d ep ?s = Some u" "t = startReceive u"
    using run True by (auto simp: onReceive_def Option.bind_eq_Some_conv)
  have on: "conf_of t = (conf_of u)\<lparr>listening := True\<rparr>" using u(2) by (simp add: startReceive_def)
  have claim_on: "claim ep a (conf_of s) (C\<lparr>listening := True\<rparr>)" if "claim ep a (conf_of ?s) C" for a C
  proof -
    have "conf_of s = (conf_of ?s)\<lparr>listening := True\<rparr>" using True by (simp add: conf_of_listening)
    then show ?thesis using claim_listening [OF that, of True] by simp
  qed
  show ?thesis
  proof (cases "classify ?d")
    case Stun
    then have "u = handleStun e ?d ep ?s" using u(1) unfolding onPacket_def if_not_P [OF ne] by simp
    then have "conf_of u = (conf_of s)\<lparr>listening := False\<rparr>" by (simp add: handleStun_def split: option.split)
    then have "conf_of t = conf_of s" using on True by (simp add: conf_of_def)
    then show ?thesis using conf_step.ignored [of d "conf_of s" ep] h Stun by simp
  next
    case Unknown
    then have "conf_of u = (conf_of s)\<lparr>listening := False\<rparr>" using u(1) unfolding onPacket_def if_not_P [OF ne] by auto
    then have "conf_of t = conf_of s" using on True by (simp add: conf_of_def)
    then show ?thesis using conf_step.ignored [of d "conf_of s" ep] h Unknown by simp
  next
    case Dtls
    then have "handleDtls e ?d ep ?s = Some u" using u(1) unfolding onPacket_def if_not_P [OF ne] by simp
    from handleDtls_conf [OF inv0 lib this] obtain a C \<phi> \<phi>' where c: "claim ep a (conf_of ?s) C" "phases C a = Some \<phi>"
      "\<phi>' \<in> outcomes \<phi>" "conf_of u = C\<lparr>phases := (phases C)(a \<mapsto> \<phi>')\<rparr>" by blast
    then have "conf_of t = (C\<lparr>listening := True\<rparr>)\<lparr>phases := (phases (C\<lparr>listening := True\<rparr>))(a \<mapsto> \<phi>')\<rparr>"
      using on by simp
    then show ?thesis using conf_step.handshake [OF _ claim_on [OF c(1)]] c(2,3) h Dtls by simp
  next
    case Srtp
    then have "handleSrtp e ?d ep ?s = Some u" using u(1) unfolding onPacket_def if_not_P [OF ne] by simp
    moreover have "length ?d \<le> 65507" "\<And>pl. handed_over e ?d ep ?s = Some pl \<Longrightarrow> plain_ok pl ?s"
      using dok Srtp by (auto simp: datagram_ok_def)
    ultimately obtain a C where c: "claim ep a (conf_of ?s) C" and r: "conf_of u = C \<or> phases C a = Some (Secure ep) \<and>
      (\<exists>op pkt F. (op = Media pkt a \<or> op = Feedback pkt a) \<and> board_step (video_kinds C) op (forum C) F \<and>
        conf_of u = C\<lparr>forum := F\<rparr>)"
      using handleSrtp_conf [OF inv0 lib] by blast
    let ?C = "C\<lparr>listening := True\<rparr>"
    have h': "heard_as d (conf_of s) = Srtp" using h Srtp by simp
    from r show ?thesis
    proof (elim disjE conjE exE)
      assume "conf_of u = C"
      then show ?thesis
        using conf_step.dropped [OF h' claim_on [OF c]] on by simp
    qed (use conf_step.traffic [OF h' claim_on [OF c]] on in \<open>auto simp: listening_swap\<close>)
  qed
qed

section \<open>Calls\<close>

lemma rtpmap_keeps_pts: "rtpmap_line l p g = Inr g' \<Longrightarrow> g_videoPTs g' = g_videoPTs g"
  by (auto simp: rtpmap_line_def Let_def split: if_splits sum.splits prod.splits)

lemma section_line_keeps_pts: "g_videoPTs (snd (section_line l p g)) = g_videoPTs g"
proof (cases "rtpmap_line l p g")
  case (Inr g')
  then show ?thesis unfolding section_line_def Inr sum.case by (simp only: if_distrib [of snd] snd_conv rtpmap_keeps_pts [OF Inr] if_distrib [of g_videoPTs] if_cancel)
qed (simp only: section_line_def sum.case if_distrib [of snd] snd_conv if_cancel)

lemma offer_line_keeps_pts: "g_videoPTs g \<subseteq> g_videoPTs (snd (offer_line l p g))"
proof (cases "prefix ''m='' l")
  case True
  then show ?thesis by (simp only: offer_line_def if_True Let_def snd_conv) (simp add: collect_pts_def Let_def)
next
  case False
  then show ?thesis
    by (simp only: offer_line_def if_False Let_def if_distrib [of snd] snd_conv if_distrib [of g_videoPTs]
        section_line_keeps_pts if_cancel order.refl)
qed

lemma offer_loop_keeps_pts: "g_videoPTs g \<subseteq> g_videoPTs (snd (offer_loop lines p g))"
proof (induction lines p g rule: offer_loop.induct)
  case (2 raw lines p g)
  show ?case
  proof (cases "clean_line raw")
    case (Some l)
    obtain r g' where l: "offer_line l p g = (r, g')" by fastforce
    have "g_videoPTs g \<subseteq> g_videoPTs g'" using offer_line_keeps_pts [of g l p] by (simp add: l)
    then show ?thesis using 2(2) [OF Some] Some l by (cases r) auto
  qed (use 2(1) in simp)
qed simp

text \<open>An offer never takes a payload type out of the sets, whether or not it is accepted.\<close>

lemma generateAnswer_keeps_pts: "g_videoPTs g \<subseteq> g_videoPTs (snd (generateAnswer sdp p g))"
  using offer_loop_keeps_pts [of g "getlines sdp" "p\<lparr>sections := []\<rparr>"]
  by (auto simp: generateAnswer_def parseOffer_def split: prod.splits sum.splits)

text \<open>The calls and the packets go to a router: that of the assembled server.\<close>

definition wired :: "('s, 'd) server \<Rightarrow> bool \<times> bool" where
  "wired s = (svc_router s, pr_router s)"

definition in_service :: "('s, 'd) server \<Rightarrow> bool" where
  "in_service s \<longleftrightarrow> server_inv s \<and> wired s = (True, True)"

lemma bind_recv_mid_board:
  assumes inv: "router_inv (snd x)" and p: "peers (snd x) a = Some p" and run: "bind_recv_mid a rm x = Some y"
  shows "router_inv (snd y) \<and> board_step vpts (bind_op a rm) (board_of (snd x)) (board_of (snd y)) \<and>
    frame {} (snd x) (snd y)"
proof -
  obtain k t where t: "bindConsumerByMid a (rm_publisher rm) (rm_isVideo rm) (rm_mid rm) (snd x) = Some (k, t)" "snd y = t"
    using run by (auto simp: bind_recv_mid_def Option.bind_eq_Some_conv)
  then show ?thesis
    using bind_board [OF inv p t(1), of vpts] bindConsumerByMid_frame [OF t(1)] by (simp add: bind_op_def)
qed

lemma bind_recv_mids_board:
  assumes "router_inv (snd x)" "peers (snd x) a \<noteq> None" "foldM (bind_recv_mid a) rms x = Some y"
  shows "abstract_run (board_step vpts) (map (bind_op a) rms) (board_of (snd x)) (board_of (snd y)) \<and>
    frame {} (snd x) (snd y)"
  using assms
proof (induction rms arbitrary: x)
  case (Cons rm rms)
  then obtain z where z: "bind_recv_mid a rm x = Some z" "foldM (bind_recv_mid a) rms z = Some y"
    by (auto simp: Option.bind_eq_Some_conv)
  obtain p where p: "peers (snd x) a = Some p" using Cons.prems(2) by blast
  note step = bind_recv_mid_board [OF Cons.prems(1) p z(1), of vpts]
  then obtain q where "peers (snd z) a = Some q" using frame_peer [of "{}" "snd x" "snd z" a p] p by blast
  then show ?case using Cons.IH [OF _ _ z(2)] step by (auto intro: frame_trans)
qed simp

lemma offer_conf:
  assumes s: "in_service s" and run: "run_event e (Send_offer k sdp rms) s = Some t"
  shows "conf_step (Send_offer k sdp rms) (conf_of s) (conf_of t)"
proof -
  have inv: "server_inv s" "svc_router s" using s by (simp_all add: in_service_def wired_def)
  obtain m u where u: "offer_bindings k rms s = Some (m, u)"
    using run by (cases "offer_bindings k rms s") (auto simp: SendOffer_def)
  define K where "K = g_videoPTs (snd (generateAnswer sdp (setMidSsrcMap m (offer_parser e s)) (statics u)))"
  have K: "g_videoPTs (statics u) \<subseteq> K" unfolding K_def by (rule generateAnswer_keeps_pts)
  have "conf_of t = (conf_of u)\<lparr>video_kinds := K\<rparr>"
  proof (rule conf_eqI)
    have "\<exists>g. t = u\<lparr>statics := g\<rparr> \<and> g_videoPTs g = K"
      using run u by (auto simp: SendOffer_def K_def Let_def split: prod.splits)
    then obtain g where t: "t = u\<lparr>statics := g\<rparr>" "g_videoPTs g = K" by blast
    have "board_of (u\<lparr>statics := g\<rparr>) = board_of u" by (rule board_of_cong) simp_all
    then show "forum (conf_of t) = forum ((conf_of u)\<lparr>video_kinds := K\<rparr>)" using t by simp
    show "members (conf_of t) = members ((conf_of u)\<lparr>video_kinds := K\<rparr>)"
      "phases (conf_of t) a = phases ((conf_of u)\<lparr>video_kinds := K\<rparr>) a"
      "video_kinds (conf_of t) = video_kinds ((conf_of u)\<lparr>video_kinds := K\<rparr>)"
      "listening (conf_of t) = listening ((conf_of u)\<lparr>video_kinds := K\<rparr>)" for a
      using t by (simp_all add: phase_of_def)
  qed
  moreover have "conf_step (Send_offer k sdp rms) (conf_of s) ((conf_of u)\<lparr>video_kinds := K\<rparr>)"
  proof (cases "findPeer k s")
    case None
    then show ?thesis
      using u K conf_step.offer_unknown [of "conf_of s" k K sdp rms] by (simp add: offer_bindings_def findPeer_def)
  next
    case (Some a)
    have live: "peers s a \<noteq> None" using registered_live [OF inv(1) Some] by auto
    obtain m' where f: "foldM (bind_recv_mid a) rms (Map.empty, s) = Some (m', u)"
      using u Some inv(2) by (auto simp: offer_bindings_def Option.bind_eq_Some_conv)
    from bind_recv_mids_board [OF _ _ f, of "g_videoPTs (statics s)"] inv(1) live
    have r: "abstract_run (board_step (g_videoPTs (statics s))) (map (bind_op a) rms) (board_of s) (board_of u)"
      and fr: "frame {} s u" by (simp_all add: server_inv_def)
    have "conf_of u = (conf_of s)\<lparr>forum := board_of u\<rparr>" by (rule frame_conf [OF fr])
    moreover have "g_videoPTs (statics u) = g_videoPTs (statics s)" using frame_eqs(10) [OF fr] by simp
    ultimately show ?thesis
      using conf_step.offer [of "conf_of s" k a K rms "board_of u" sdp] r K Some by (simp add: findPeer_def)
  qed
  ultimately show ?thesis by simp
qed

lemma subscription_conf:
  assumes s: "in_service s" and run: "run_event e (Add_consumer sub pub v) s = Some t"
  shows "conf_step (Add_consumer sub pub v) (conf_of s) (conf_of t)"
proof (cases "findPeer sub s \<noteq> None \<and> findPeer pub s \<noteq> None")
  case False
  then show ?thesis using run by (auto simp: AddConsumer_def findPeer_def split: option.splits intro: conf_step.not_found)
next
  case True
  then obtain a b where ab: "findPeer sub s = Some a" "findPeer pub s = Some b" by auto
  have inv: "server_inv s" "svc_router s" using s by (simp_all add: in_service_def wired_def)
  have live: "peers s a \<noteq> None" "peers s b \<noteq> None" using registered_live [OF inv(1)] ab by fastforce+
  obtain k where k: "addConsumer a b v s = Some (k, t)"
    using run ab inv(2) by (auto simp: AddConsumer_def Option.bind_eq_Some_conv)
  have "router_inv s" using inv(1) by (simp add: server_inv_def)
  from router_step_board [OF this, of lib "Subscribe a b v" "g_videoPTs (statics s)" for lib] live k
  have "board_step (g_videoPTs (statics s)) (Subscribe a b v) (board_of s) (board_of t)" by simp
  then show ?thesis
    using conf_step.subscription [of "conf_of s" sub a pub b v "board_of t"] ab frame_conf [OF addConsumer_frame [OF k, of "{}"]]
    by (simp add: findPeer_def)
qed

lemma removal_conf:
  assumes s: "in_service s" and run: "run_event e (Remove_peer k) s = Some t"
  shows "conf_step (Remove_peer k) (conf_of s) (conf_of t)"
proof (cases "findPeer k s")
  case None
  then show ?thesis using run by (simp add: RemovePeer_def findPeer_def conf_step.never_there)
next
  case (Some a)
  have inv: "server_inv s" "svc_router s" using s by (simp_all add: in_service_def wired_def)
  let ?s = "s\<lparr>svcPeers := AList.delete k (svcPeers s)\<rparr>"
  have inv1: "server_inv ?s" by (rule unregister_inv [OF inv(1)])
  then have r: "router_inv ?s" by (simp add: server_inv_def)
  obtain p where p: "peers ?s a = Some p" using registered_live [OF inv(1) Some] by auto
  let ?t = "removed a p ?s"
  have rem: "removePeer a ?s = Some ?t" by (rule removePeer_eq [OF r p])
  note f = removePeer_frame [OF rem, of "{}"]
  have "maps_inv ?t" by (rule frame_maps_inv [OF f]) (use inv1 in \<open>simp add: server_inv_def\<close>)
  moreover have "peers ?t a \<noteq> None" using p by (simp add: removed_peers)
  ultimately have "release (Some a) ?t = ?t" by (intro release_owned) auto
  then have t: "t = ?t" using run Some inv(2) rem by (simp add: RemovePeer_def)
  have s: "conf_of ?s = (conf_of s)\<lparr>members := (members (conf_of s))(k := None)\<rparr>"
    by (rule conf_eqI) (simp_all add: phase_of_def delete_conv', rule board_of_cong, simp_all)
  have "board_of ?s = board_of s" by (rule board_of_cong) simp_all
  then have "conf_of t = (conf_of s)\<lparr>members := (members (conf_of s))(k := None), forum := leave a (forum (conf_of s))\<rparr>"
    using frame_conf [OF f] leave_board [OF r p] t s by simp
  then show ?thesis using conf_step.gone [of "conf_of s" k a] Some by (simp add: findPeer_def)
qed

section \<open>The refinement\<close>

text \<open>No event takes the router away from the service or from the packet router.\<close>

lemma wired_simps [simp]:
  "wired (s\<lparr>peers := P\<rparr>) = wired s" "wired (s\<lparr>prods := R\<rparr>) = wired s" "wired (s\<lparr>conss := Q\<rparr>) = wired s"
  "wired (s\<lparr>nextAddr := n\<rparr>) = wired s" "wired (s\<lparr>sent := out\<rparr>) = wired s" "wired (s\<lparr>receiving := b\<rparr>) = wired s"
  "wired (s\<lparr>pendingPeers := L\<rparr>) = wired s" "wired (s\<lparr>peerMap := M\<rparr>) = wired s"
  "wired (s\<lparr>svcPeers := V\<rparr>) = wired s" "wired (s\<lparr>statics := g\<rparr>) = wired s"
  by (simp_all add: wired_def)

lemma wired_destroy [simp]: "wired (destroy_peer a s) = wired s"
  by (simp add: destroy_peer_def split: option.split)

lemma frame_wired: "frame A s t \<Longrightarrow> wired t = wired s"
  by (simp add: wired_def frame_eqs)

lemma getOrCreatePeer_wired: "getOrCreatePeer e ep s = Some (a, t) \<Longrightarrow> wired t = wired s"
  by (auto simp: getOrCreatePeer_def alloc_peer_def Let_def Option.bind_eq_Some_conv split: option.splits if_splits prod.splits)

lemma pli_wired: "pli_to_publisher lib a r s = Some t \<Longrightarrow> wired t = wired s"
  by (auto simp: pli_to_publisher_def Option.bind_eq_Some_conv split: if_splits
      dest: frame_wired [OF sendProtectedRtcp_frame [where A = "{}"]])

lemma sendPLItoAllPeers_wired: "sendPLItoAllPeers lib a s = Some t \<Longrightarrow> wired t = wired s"
  by (auto simp: sendPLItoAllPeers_def Option.bind_eq_Some_conv split: if_splits
      dest!: foldM_keeps [where g = wired, OF _ pli_wired])

lemma handleDtls_wired:
  assumes "handleDtls e data ep s = Some t"
  shows "wired t = wired s"
proof -
  obtain a s1 where s1: "getOrCreatePeer e ep s = Some (a, s1)"
    using assms by (auto simp: handleDtls_def Option.bind_eq_Some_conv)
  obtain p where p: "peers s1 a = Some p" using assms s1 by (auto simp: handleDtls_def Option.bind_eq_Some_conv)
  obtain c out r where hp: "handlePacket (dtlsL e) data (session_of (dtlsL e) ep p) = (c, out, r)"
    by (cases "handlePacket (dtlsL e) data (session_of (dtlsL e) ep p)")
  obtain ok k where init: "srtp_init (srtpL e) (exportSrtpKeys (dtlsL e) c) srtp_new = (ok, k)" by fastforce
  show ?thesis
    using assms getOrCreatePeer_wired [OF s1]
    by (auto simp: handleDtls_def Let_def s1 p hp init dest!: sendPLItoAllPeers_wired split: if_splits)
qed

lemma decrypt_wired: "decrypt lib data a ctx s = Some (pl, t) \<Longrightarrow> wired t = wired s"
  by (auto simp: decrypt_def Let_def Option.bind_eq_Some_conv split: if_splits option.splits)

lemma dispatch_wired: "dispatch lib pl a s = Some t \<Longrightarrow> wired t = wired s"
  by (auto simp: dispatch_def split: if_splits plain.splits
      dest: frame_wired [OF onRtpPacket_frame] frame_wired [OF onRtcpPacket_frame [where A = "{}"]])

lemma handleSrtp_wired: "handleSrtp e data ep s = Some t \<Longrightarrow> wired t = wired s"
  by (auto simp: handleSrtp_def Option.bind_eq_Some_conv
      dest!: getOrCreatePeer_wired decrypt_wired dispatch_wired split: option.splits)

lemma in_service_kept:
  assumes s: "in_service s" and run: "run_event e ev s = Some t"
  shows "wired t = (True, True)"
proof (cases ev)
  case (Datagram d ep)
  then show ?thesis
    using s run by (auto simp: in_service_def onReceive_def onPacket_def handleStun_def startReceive_def
        Option.bind_eq_Some_conv dest!: handleDtls_wired handleSrtp_wired
        split: if_splits protocol.splits option.splits)
next
  case (Add_peer k)
  have "wired (added k s) = wired s"
    by (simp add: added_def with_new_peer_def alloc_peer_def Let_def split: option.split)
  then show ?thesis using s run Add_peer AddPeer_eq [of s e k] by (auto simp: in_service_def)
next
  case (Send_offer k sdp rms)
  then obtain m u where u: "offer_bindings k rms s = Some (m, u)"
    using run by (cases "offer_bindings k rms s") (auto simp: SendOffer_def)
  have "wired u = (True, True)"
    using offer_bindings_runs [of s k rms] s u by (auto simp: in_service_def graph_step_def frame_wired)
  then show ?thesis using run Send_offer u by (auto simp: SendOffer_def split: prod.splits)
next
  case (Add_consumer sub pub v)
  then show ?thesis
    using s run by (auto simp: in_service_def AddConsumer_def Option.bind_eq_Some_conv
        dest!: frame_wired [OF addConsumer_frame [where A = "{}"]] split: option.splits if_splits)
next
  case (Remove_peer k)
  then show ?thesis
    using s run by (auto simp: in_service_def RemovePeer_def release_def Let_def Option.bind_eq_Some_conv
        dest!: frame_wired [OF removePeer_frame [where A = "{}"]] split: option.splits if_splits)
qed (use s run in \<open>auto simp: in_service_def onReceive_def RemoveConsumer_def split: if_splits\<close>)

lemma event_conf:
  assumes s: "in_service s" and ok: "admissible e ev s" and run: "run_event e ev s = Some t"
  shows "conf_step ev (conf_of s) (conf_of t)"
proof (cases ev)
  case (Datagram d ep)
  then show ?thesis using datagram_conf [of s e d ep t] s ok run by (simp add: in_service_def)
next
  case Receive_error
  have "conf_of t = (conf_of s)\<lparr>listening := False\<rparr>"
    using run Receive_error by (auto simp: onReceive_def split: if_splits)
  then show ?thesis using Receive_error conf_step.deaf by simp
next
  case (Add_peer k)
  have inv: "server_inv s" using s by (simp add: in_service_def)
  have t: "t = added k s" using run Add_peer AddPeer_eq [OF inv, of e k] by simp
  have "map_of (pendingPeers s) k = Some b \<Longrightarrow> unused b s" for b
    using ok Add_peer by (simp add: admissible_def)
  then have "conf_of t = enlist k (nextAddr s) (conf_of s)" unfolding t by (rule added_conf [OF inv])
  moreover have "phases (conf_of s) (nextAddr s) = None"
    using phase_of_None [OF inv] inv inv_freshD(1) [of s "nextAddr s"] by (simp add: server_inv_def)
  ultimately show ?thesis using conf_step.announced [of "conf_of s" "nextAddr s" k] Add_peer by simp
next
  case (Send_offer k sdp rms)
  then show ?thesis using offer_conf [OF s] run by simp
next
  case (Add_consumer sub pub v)
  then show ?thesis using subscription_conf [OF s] run by simp
next
  case Remove_consumer
  then show ?thesis using run by (simp add: RemoveConsumer_def conf_step.kept)
next
  case (Remove_peer k)
  then show ?thesis using removal_conf [OF s] run by simp
qed

interpretation server_conference: forward_simulation "run_event e" "admissible e" in_service conf_of conf_step for e
proof unfold_locales
  fix ev and s t :: "('a, 'b) server"
  assume s: "in_service s" and ok: "admissible e ev s"
  show "runs (run_event e ev s) in_service"
    using run_event_runs [of s e ev] s ok in_service_kept [OF s, of e ev] by (auto simp: in_service_def runs_def)
  show "conf_step ev (conf_of s) (conf_of t)" if "run_event e ev s = Some t" by (rule event_conf [OF s ok that])
qed

section \<open>From the start\<close>

lemma server_in_service: "in_service (setupComponents ig pos gen)"
  by (simp add: in_service_def server_inv_init)
    (simp add: wired_def startReceive_def setRouter_def setIceServer_def server_new_def sfu.defs setupComponents_def Let_def setPacketRouter_def setServiceIce_def setServiceRouter_def)

lemma conf_of_start: "conf_of (setupComponents ig pos gen) = empty_conference"
proof -
  have s: "peers (setupComponents ig pos gen) = Map.empty" "conss (setupComponents ig pos gen) = Map.empty"
    "pendingPeers (setupComponents ig pos gen) = []" "svcPeers (setupComponents ig pos gen) = []"
    "receiving (setupComponents ig pos gen)" "statics (setupComponents ig pos gen) = globals_init"
    by (simp_all add: setupComponents_def server_new_def setPacketRouter_def Let_def
      setServiceIce_def setServiceRouter_def startReceive_def setRouter_def setIceServer_def sfu.defs sfu_init_def)
  show ?thesis
    by (rule conf_eqI) (simp_all add: s empty_conference_def phase_of_def globals_init_def board_of_def)
qed

lemma published_keys:
  assumes reach: "reachable (run_event e) (admissible e) (setupComponents ig pos gen) s"
    and p: "peers s a = Some p" "producers p \<noteq> []"
  shows "srtp p \<noteq> None \<and> (\<exists>c. dtls p = Some c \<and> handshakeDone c) \<and> (remoteEp p, a) \<in> set (peerMap s)"
proof -
  have "in_service s" by (rule server_conference.reachable_inv [OF reach server_in_service])
  then have inv: "server_inv s" by (simp add: in_service_def)
  have "authentic (conf_of s)"
  proof (rule server_conference.reachable_abstract [OF reach server_in_service, of authentic])
    show "authentic (conf_of (setupComponents ig pos gen))"
      unfolding conf_of_start by (rule authentic_start)
  qed (rule conf_step_authentic)
  moreover have "streams (forum (conf_of s)) a \<noteq> []" using p by simp
  ultimately obtain ep where ep: "phase_of s a = Some (Secure ep)" unfolding authentic_def by auto
  then have np: "a \<notin> snd ` set (pendingPeers s)" and k: "srtp p \<noteq> None"
    using p(1) by (auto simp: phase_of_def peer_phase_def split: if_splits option.splits)
  then obtain x where x: "x \<in> set (peerMap s)" "snd x = a"
    using inv p(1) by (auto simp: server_inv_def maps_inv_def owner_addrs_def)
  then have "remoteEp p = fst x" "ready p"
    using ids_invD(2) [of s x] inv p(1) by (auto simp: server_inv_def)
  then show ?thesis using k x by (cases x) (auto simp: ready_def)
qed

end
