(* ===== verification/Delivery.thy ===== *)
theory Delivery
  imports Subscriptions ServerProps
begin

text \<open>
  Media reaches everyone: with keys that work, a media datagram of a publisher becomes one
  datagram for each consumer of the stream that is active and has a mid, in the order of the
  producer's list, with the SSRC of the consumer and otherwise unchanged, protected with the
  keys of its subscriber.
\<close>

section \<open>Forwarding\<close>

text \<open>
  The contexts that a context \<open>k\<close> becomes while packets of length \<open>n\<close> are protected with it by
  \<open>prot\<close>; whether \<open>prot\<close> protects every such packet as long as the context is used for nothing
  else.
\<close>

inductive used_from ::
  "(u8 list \<Rightarrow> 's srtp_ctx \<Rightarrow> ('s srtp_ctx \<times> u8 list option) option) \<Rightarrow> nat \<Rightarrow> 's srtp_ctx \<Rightarrow> 's srtp_ctx \<Rightarrow> bool"
  for prot n k where
  unused: "used_from prot n k k"
| used: "used_from prot n k c \<Longrightarrow> length b = n \<Longrightarrow> prot b c = Some (c', r) \<Longrightarrow> used_from prot n k c'"

definition works ::
  "(u8 list \<Rightarrow> 's srtp_ctx \<Rightarrow> ('s srtp_ctx \<times> u8 list option) option) \<Rightarrow> nat \<Rightarrow> 's srtp_ctx \<Rightarrow> bool" where
  "works prot n k \<longleftrightarrow> (\<forall>c. used_from prot n k c \<longrightarrow> (\<forall>b. length b = n \<longrightarrow> (\<exists>c' enc. prot b c = Some (c', Some enc))))"

lemma works_steady:
  assumes "\<And>b. length b = n \<Longrightarrow> prot b k = Some (k, Some (tag b))"
  shows "works prot n k"
proof -
  have "c = k" if "used_from prot n k c" for c
    using that by (induction rule: used_from.induct) (use assms in auto)
  then show ?thesis using assms unfolding works_def by blast
qed

text \<open>The keys of each peer; when \<open>a\<close> has just decrypted a packet, with its new context.\<close>

definition media_keys :: "('s, 'd, 'z) sfu_scheme \<Rightarrow> nat \<Rightarrow> 's srtp_ctx option" where
  "media_keys s b = peers s b \<bind> srtp"

text \<open>
  The subscriber of every target that can be reached has keys \<open>K\<close> that work, and its context
  is one that these have become.
\<close>

definition subscriber_keys ::
  "'s srtp_lib \<Rightarrow> nat \<Rightarrow> (nat \<Rightarrow> 's srtp_ctx option) \<Rightarrow> nat list \<Rightarrow> ('s, 'd, 'z) sfu_scheme \<Rightarrow> bool" where
  "subscriber_keys lib n K cs s \<longleftrightarrow> (\<forall>c \<in> set cs. \<forall>cc b. conss s c = Some cc \<longrightarrow> recipient s c \<noteq> None \<longrightarrow>
     c_subscriber cc = Some b \<longrightarrow> (\<exists>k. K b = Some k \<and> works (protect lib 65536) n k))"

definition keyed ::
  "'s srtp_lib \<Rightarrow> nat \<Rightarrow> (nat \<Rightarrow> 's srtp_ctx option) \<Rightarrow> nat list \<Rightarrow> ('s, 'd, 'z) sfu_scheme \<Rightarrow> bool" where
  "keyed lib n K cs s \<longleftrightarrow> subscriber_keys lib n K cs s \<and>
     (\<forall>b k. K b = Some k \<longrightarrow> (\<exists>k'. media_keys s b = Some k' \<and> used_from (protect lib 65536) n k k'))"

text \<open>
  The packet with another SSRC; what the consumer \<open>c\<close> is to get: the datagram \<open>x\<close>, protected with the
  keys of its subscriber and of nobody else.
\<close>

definition readdressed :: "u32 \<Rightarrow> u8 list \<Rightarrow> u8 list" where
  "readdressed ssrc pkt = take 8 pkt @ be32 ssrc @ drop 12 pkt"

definition served ::
  "'s srtp_lib \<Rightarrow> (nat \<Rightarrow> 's srtp_ctx option) \<Rightarrow> u8 list \<Rightarrow> ('s, 'd, 'z) sfu_scheme \<Rightarrow> nat \<Rightarrow> datagram \<Rightarrow> bool" where
  "served lib K pkt s c x \<longleftrightarrow> recipient s c = Some (fst x) \<and>
     (\<exists>cc b k ctx ctx'. conss s c = Some cc \<and> c_subscriber cc = Some b \<and> K b = Some k \<and>
        used_from (protect lib 65536) (length pkt) k ctx \<and>
        protect lib 65536 (readdressed (c_rewrittenSsrc cc) pkt) ctx = Some (ctx', Some (snd x)))"

definition reachable_targets :: "('s, 'd, 'z) sfu_scheme \<Rightarrow> nat list \<Rightarrow> nat list" where
  "reachable_targets s cs = filter (\<lambda>c. recipient s c \<noteq> None) cs"

lemma served_cong:
  fixes s t :: "('s, 'd, 'z) sfu_scheme"
  assumes "same_graph s t" "same_reach s t"
  shows "served lib K pkt t = served lib K pkt s"
proof -
  have "served lib K pkt v c x" if uv: "same_graph u v" "recipient u = recipient v" and x: "served lib K pkt u c x"
    for u v :: "('s, 'd, 'z) sfu_scheme" and c x
  proof -
    from x obtain cc b k ctx ctx' where cc: "recipient u c = Some (fst x)" "conss u c = Some cc"
      "c_subscriber cc = Some b" "K b = Some k" "used_from (protect lib 65536) (length pkt) k ctx"
      "protect lib 65536 (readdressed (c_rewrittenSsrc cc) pkt) ctx = Some (ctx', Some (snd x))"
      unfolding served_def by blast
    obtain dd where "conss v c = Some dd" "cons_shape dd = cons_shape cc"
      using same_graph_cons [OF same_graph_sym [OF uv(1)] cc(2)] by blast
    with cc show ?thesis unfolding served_def uv(2) by (auto simp: cons_shape_def)
  qed
  moreover have "recipient s = recipient t" using recipient_same_reach [OF assms(2)] by (simp add: fun_eq_iff)
  ultimately show ?thesis using assms(1) same_graph_sym [OF assms(1)] by (intro ext iffI) metis+
qed

lemma forward_one_skips:
  assumes "router_inv s" "conss s c \<noteq> None" "recipient s c = None"
  shows "rtp_forward_one lib pkt c s = Some s"
proof -
  obtain cc where cc: "conss s c = Some cc" using assms(2) by blast
  obtain a p where "c_subscriber cc = Some a" "peers s a = Some p" using inv_conssD(1) [OF assms(1) cc] by blast
  then show ?thesis
    using assms(3) cc by (auto simp: recipient_def rtp_forward_one_def split: option.split if_splits)
qed

lemma subscriber_keys_reach:
  assumes "same_reach s t" "subscriber_keys lib n K cs s"
  shows "subscriber_keys lib n K cs t"
  unfolding subscriber_keys_def
proof (intro ballI allI impI)
  fix c dd b assume c: "c \<in> set cs" "conss t c = Some dd" "recipient t c \<noteq> None" "c_subscriber dd = Some b"
  have "map_option cons_reach (conss t c) = map_option cons_reach (conss s c)"
    using assms(1) unfolding same_reach_def by blast
  then obtain cc where "conss s c = Some cc" "c_subscriber cc = Some b"
    using c(2,4) by (cases "conss s c") (auto simp: cons_reach_def)
  moreover have "recipient s c \<noteq> None" using c(3) recipient_same_reach [OF assms(1)] by simp
  ultimately show "\<exists>k. K b = Some k \<and> works (protect lib 65536) n k" using assms(2) c(1) unfolding subscriber_keys_def by blast
qed

lemma forward_one_sends:
  assumes inv: "router_inv s" and live: "conss s c \<noteq> None" and len: "12 \<le> length pkt" "length pkt \<le> 65536"
    and ep: "recipient s c \<noteq> None" and K: "keyed lib (length pkt) K (c # cs) s"
  shows "\<exists>t x. rtp_forward_one lib pkt c s = Some t \<and> sent t = sent s @ [x] \<and> served lib K pkt s c x \<and>
    keyed lib (length pkt) K cs t"
proof -
  obtain cc where cc: "conss s c = Some cc" using live by blast
  obtain a p where a: "c_subscriber cc = Some a" "peers s a = Some p" using inv_conssD(1) [OF inv cc] by blast
  have go: "c_active cc" "c_recvMid cc \<noteq> ''''" "recipient s c = Some (remoteEp p)"
    using ep cc a by (auto simp: recipient_def split: if_splits)
  obtain k where k: "K a = Some k" "works (protect lib 65536) (length pkt) k"
    using K cc a ep by (fastforce simp: keyed_def subscriber_keys_def)
  have "\<exists>k'. media_keys s a = Some k' \<and> used_from (protect lib 65536) (length pkt) k k'" using K k(1) by (simp add: keyed_def)
  then obtain ctx where ctx: "srtp p = Some ctx" "used_from (protect lib 65536) (length pkt) k ctx"
    using a(2) by (auto simp: media_keys_def)
  note rw = rewrite_bytes [OF len(1), of cc, folded readdressed_def]
  let ?out = "readdressed (c_rewrittenSsrc cc) pkt"
  have l: "length ?out = length pkt" using len(1) by (simp add: readdressed_def)
  then obtain ctx' enc where pr: "protect lib 65536 ?out ctx = Some (ctx', Some enc)"
    using k(2) ctx(2) unfolding works_def by blast
  have reach: "cons_reach (rewritten_consumer (header_of pkt) cc) = cons_reach cc"
    by (simp add: cons_reach_def rewritten_consumer_def)
  define t where "t = s\<lparr>conss := (conss s)(c \<mapsto> (rewritten_consumer (header_of pkt) cc)
        \<lparr>c_packetsSent := c_packetsSent (rewritten_consumer (header_of pkt) cc) + 1,
         c_octetsSent := c_octetsSent (rewritten_consumer (header_of pkt) cc) + of_nat (length pkt)\<rparr>),
      peers := modify a (\<lambda>x. x\<lparr>srtp := Some ctx'\<rparr>) (peers s), sent := sent s @ [(remoteEp p, enc)]\<rparr>"
  have "rtp_forward_one lib pkt c s = Some t"
    using go len(2) rw pr ctx(1) by (simp add: rtp_forward_one_def cc a t_def Let_def modify_def)
  moreover have "keyed lib (length pkt) K cs t"
  proof -
    have "same_reach s t" using reach cc a by (auto simp: same_reach_def t_def cons_reach_def)
    moreover have "subscriber_keys lib (length pkt) K cs s" using K by (simp add: keyed_def subscriber_keys_def)
    moreover have "\<exists>k'. media_keys t b = Some k' \<and> used_from (protect lib 65536) (length pkt) q k'" if q: "K b = Some q" for b q
    proof (cases "b = a")
      case True
      then show ?thesis using used_from.used [OF ctx(2) l pr] k(1) q a(2) by (simp add: media_keys_def t_def)
    next
      case False
      then have "media_keys t b = media_keys s b" by (simp add: media_keys_def t_def)
      then show ?thesis using K q by (simp add: keyed_def)
    qed
    ultimately show ?thesis using subscriber_keys_reach unfolding keyed_def by blast
  qed
  moreover have "served lib K pkt s c (remoteEp p, enc)"
    using go(3) cc a(1) k(1) ctx(2) pr unfolding served_def by auto
  ultimately show ?thesis by (auto simp: t_def)
qed

lemma forwarding_serves_everyone:
  assumes inv: "router_inv s" and lib: "libsrtp_sizes lib" and len: "12 \<le> length pkt" "length pkt + 10 \<le> 65536"
    and live: "\<forall>c \<in> set targets. conss s c \<noteq> None"
    and keys: "keyed lib (length pkt) K targets s"
  shows "\<exists>t new. rtp_forward lib pkt targets s = Some t \<and> router_inv t \<and> sent t = sent s @ new \<and>
    list_all2 (served lib K pkt s) (reachable_targets s targets) new"
  using inv live keys
proof (induction targets arbitrary: s)
  case Nil
  then show ?case by (simp add: rtp_forward_def reachable_targets_def)
next
  case (Cons c cs)
  have "conss s c \<noteq> None" using Cons.prems(2) by simp
  from rtp_forward_one_runs [OF Cons.prems(1) lib len(2) this]
  obtain u where u: "rtp_forward_one lib pkt c s = Some u" "forwarded [c] s u" by (auto simp: runs_def)
  then have g: "same_graph s u" "same_reach s u" by (simp_all add: forwarded_def)
  have first: "keyed lib (length pkt) K cs u \<and> (\<exists>new. sent u = sent s @ new \<and>
      list_all2 (served lib K pkt s) (reachable_targets s [c]) new)"
  proof (cases "recipient s c = None")
    case True
    then have "u = s" using forward_one_skips [OF Cons.prems(1) _ True] Cons.prems(2) u(1) by auto
    then show ?thesis using Cons.prems(3) True by (auto simp: keyed_def subscriber_keys_def reachable_targets_def)
  next
    case False
    have "length pkt \<le> 65536" using len(2) by simp
    from forward_one_sends [OF Cons.prems(1) \<open>conss s c \<noteq> None\<close> len(1) this False Cons.prems(3)]
    show ?thesis using u(1) False by (auto simp: reachable_targets_def)
  qed
  have rec: "recipient u = recipient s" using recipient_same_reach [OF g(2)] by blast
  have "\<forall>d \<in> set cs. conss u d \<noteq> None" using Cons.prems(2) same_graph_None(2) [OF g(1)] by simp
  with Cons.IH [OF same_graph_inv [OF g(1) Cons.prems(1)]] first obtain t new where
    t: "rtp_forward lib pkt cs u = Some t" "router_inv t" "sent t = sent u @ new"
      "list_all2 (served lib K pkt s) (reachable_targets s cs) new"
    by (auto simp: served_cong [OF g] reachable_targets_def rec)
  obtain first where "sent u = sent s @ first" "list_all2 (served lib K pkt s) (reachable_targets s [c]) first"
    using first by blast
  then have "sent t = sent s @ first @ new"
    "list_all2 (served lib K pkt s) (reachable_targets s [c] @ reachable_targets s cs) (first @ new)"
    using t by (simp_all add: list_all2_appendI)
  moreover have "reachable_targets s [c] @ reachable_targets s cs = reachable_targets s (c # cs)"
    by (simp add: reachable_targets_def)
  moreover have "rtp_forward lib pkt (c # cs) s = Some t" using u(1) t(1) by (simp add: rtp_forward_def)
  ultimately show ?case using t(2) by metis
qed

section \<open>From datagram to datagrams\<close>


text \<open>Alice and Bob are connected, and Bob has negotiated a mid for Alice's stream.\<close>

definition on_air :: "(srtp_policy, unit) server" where
  "on_air = (let s = with_producer 0 7 True bob_waits in s
     \<lparr>peers := (peers s)(0 \<mapsto> (sample_peer 5000)\<lparr>peerId := ''alice'', producers := [3]\<rparr>,
                          1 \<mapsto> (sample_peer 5001)\<lparr>peerId := ''bob'', consumers := [2]\<rparr>),
      conss := (conss s)(2 \<mapsto> (new_consumer 1 0 True 0x40000000)\<lparr>c_publisherSsrc := 7, c_recvMid := ''1''\<rparr>),
      peerMap := [(\<lparr>ep_addr = 0x7F000001, ep_port = 5000\<rparr>, 0), (\<lparr>ep_addr = 0x7F000001, ep_port = 5001\<rparr>, 1)],
      pendingPeers := [], receiving := True\<rparr>)"

lemma bob_waits_one: "peers bob_waits (Suc 0) = Some (new_peer\<lparr>peerId := ''bob'', consumers := [2]\<rparr>)"
  using bob_waits(6) by simp

lemma on_air_producer: "prods on_air 3 = Some ((new_producer 0 7 True)\<lparr>p_consumers := [2]\<rparr>)"
  by (simp add: on_air_def Let_def with_producer_prods bob_waits bob_waits_one all_consumers_def waiting_def
      new_consumer_def new_peer_def)

lemma on_air_inv: "router_inv on_air"
proof (rule same_graph_inv)
  show "router_inv (with_producer 0 7 True bob_waits)"
    by (rule with_producer_inv) (use bob_waits in \<open>simp_all add: server_inv_def\<close>)
  show "same_graph (with_producer 0 7 True bob_waits) on_air"
    by (auto simp: same_graph_def on_air_def Let_def with_producer_def link_list_def create_producer_def bob_waits
        bob_waits_one all_consumers_def waiting_def new_consumer_def new_peer_def peer_shape_def cons_shape_def sample_peer_def)
qed


end
