(* ===== verification/ConferenceProps.thy ===== *)
theory ConferenceProps
  imports ConferenceSim Delivery
begin

text \<open>
  How a participant gets its keys: the packet that completes its handshake. The server answers it,
  installs the keys and asks all others that publish video for a key frame.
\<close>

section \<open>Key frames for a newcomer\<close>

text \<open>The producers of video in the order of \<open>getAllVideoProducers\<close>.\<close>

definition video_producers :: "('s, 'd, 'z) sfu_scheme \<Rightarrow> nat list" where
  "video_producers s = concat (map (\<lambda>a. filter (\<lambda>r. p_isVideo (the (prods s r))) (producers (the (peers s a)))) (allPeers s))"

lemma collect_videos:
  assumes "\<forall>r \<in> set rs. prods s r \<noteq> None"
  shows "foldM (\<lambda>r out. do { pr \<leftarrow> prods s r; Some (if p_isVideo pr then out @ [r] else out) }) rs out =
    Some (out @ filter (\<lambda>r. p_isVideo (the (prods s r))) rs)"
  using assms by (induction rs arbitrary: out) auto

lemma getAllVideoProducers_eq:
  assumes inv: "router_inv s"
  shows "getAllVideoProducers s = Some (video_producers s)"
proof -
  let ?f = "\<lambda>a out. do { peer \<leftarrow> peers s a; foldM (\<lambda>r out. do { pr \<leftarrow> prods s r;
      Some (if p_isVideo pr then out @ [r] else out) }) (producers peer) out }"
  have "foldM ?f as out = Some (out @ concat (map (\<lambda>a. filter (\<lambda>r. p_isVideo (the (prods s r)))
      (producers (the (peers s a)))) as))" if "set as \<subseteq> dom (peers s)" for as out
    using that
  proof (induction as arbitrary: out)
    case (Cons a as)
    then obtain p where p: "peers s a = Some p" by auto
    have "\<forall>r \<in> set (producers p). prods s r \<noteq> None" using inv_peersD(3) [OF inv p] by auto
    then show ?case using Cons p by (simp add: collect_videos)
  qed simp
  moreover have "set (allPeers s) \<subseteq> dom (peers s)" using inv_allD(2) [OF inv] by blast
  ultimately show ?thesis by (simp add: getAllVideoProducers_def video_producers_def)
qed

text \<open>
  The datagram \<open>x\<close> asks the publisher of the stream \<open>r\<close> for a key frame of it, protected with the
  publisher's own keys.
\<close>

definition asked ::
  "'s srtp_lib \<Rightarrow> (nat \<Rightarrow> 's srtp_ctx option) \<Rightarrow> ('s, 'd, 'z) sfu_scheme \<Rightarrow> nat \<Rightarrow> datagram \<Rightarrow> bool" where
  "asked lib K s r x \<longleftrightarrow> (\<exists>pr k ctx ctx'. prods s r = Some pr \<and> K (p_publisher pr) = Some k \<and>
     used_from (protectRtcp lib 64) 12 k ctx \<and>
     map_option remoteEp (peers s (p_publisher pr)) = Some (fst x) \<and>
     protectRtcp lib 64 (pli_bytes 0 (p_originalSsrc pr)) ctx = Some (ctx', Some (snd x)))"

text \<open>The streams in \<open>rs\<close> of others than \<open>a\<close> have publishers with keys \<open>K\<close> that work.\<close>

definition askable ::
  "'s srtp_lib \<Rightarrow> (nat \<Rightarrow> 's srtp_ctx option) \<Rightarrow> nat \<Rightarrow> nat list \<Rightarrow> ('s, 'd, 'z) sfu_scheme \<Rightarrow> bool" where
  "askable lib K a rs s \<longleftrightarrow> (\<forall>r \<in> set rs. \<exists>pr. prods s r = Some pr \<and> p_originalSsrc pr \<noteq> 0 \<and>
     (p_publisher pr \<noteq> a \<longrightarrow> (\<exists>k k'. K (p_publisher pr) = Some k \<and> works (protectRtcp lib 64) 12 k \<and>
        media_keys s (p_publisher pr) = Some k' \<and> used_from (protectRtcp lib 64) 12 k k')))"

definition others :: "nat \<Rightarrow> nat list \<Rightarrow> ('s, 'd, 'z) sfu_scheme \<Rightarrow> nat list" where
  "others a rs s = filter (\<lambda>r. p_publisher (the (prods s r)) \<noteq> a) rs"

lemma pli_asks:
  assumes ok: "askable lib K a (r # rs) s" and other: "p_publisher (the (prods s r)) \<noteq> a"
  shows "\<exists>t x. pli_to_publisher lib a r s = Some t \<and> sent t = sent s @ [x] \<and> asked lib K s r x \<and>
    askable lib K a rs t \<and> asked lib K t = asked lib K s \<and> prods t = prods s \<and> peers t a = peers s a"
proof -
  obtain pr where pr: "prods s r = Some pr" "p_originalSsrc pr \<noteq> 0" "p_publisher pr \<noteq> a"
    using ok other by (auto simp: askable_def)
  then obtain k ctx where k: "K (p_publisher pr) = Some k" "works (protectRtcp lib 64) 12 k"
    "media_keys s (p_publisher pr) = Some ctx" "used_from (protectRtcp lib 64) 12 k ctx"
    using ok by (auto simp: askable_def)
  obtain q where q: "peers s (p_publisher pr) = Some q" "srtp q = Some ctx"
    using k(3) by (cases "peers s (p_publisher pr)") (auto simp: media_keys_def)
  obtain ctx' enc where enc: "protectRtcp lib 64 (pli_bytes 0 (p_originalSsrc pr)) ctx = Some (ctx', Some enc)"
    using k(2,4) unfolding works_def by (metis length_pli_bytes)
  note used = used_from.used [where prot = "protectRtcp lib 64", OF k(4) length_pli_bytes enc]
  define t where "t = s\<lparr>peers := modify (p_publisher pr) (\<lambda>x. x\<lparr>srtp := Some ctx'\<rparr>) (peers s), sent := sent s @ [(remoteEp q, enc)]\<rparr>"
  have run: "pli_to_publisher lib a r s = Some t"
    using pr q enc by (simp add: pli_to_publisher_def sendProtectedRtcp_def t_def Let_def)
  have reach: "map_option remoteEp (peers t b) = map_option remoteEp (peers s b)" for b
    by (simp add: t_def option.map_comp comp_def)
  have mk: "media_keys t b = (if b = p_publisher pr then Some ctx' else media_keys s b)" for b
    using q by (simp add: media_keys_def t_def)
  have "asked lib K t = asked lib K s" by (simp add: asked_def fun_eq_iff reach) (simp add: t_def)
  moreover have "askable lib K a rs t"
    unfolding askable_def
  proof
    fix x assume "x \<in> set rs"
    then obtain px where px: "prods s x = Some px" "p_originalSsrc px \<noteq> 0"
      and keys: "p_publisher px \<noteq> a \<longrightarrow> (\<exists>k k'. K (p_publisher px) = Some k \<and> works (protectRtcp lib 64) 12 k \<and>
        media_keys s (p_publisher px) = Some k' \<and> used_from (protectRtcp lib 64) 12 k k')"
      using ok unfolding askable_def by (metis list.set_intros(2))
    have "p_publisher px \<noteq> a \<longrightarrow> (\<exists>k k'. K (p_publisher px) = Some k \<and> works (protectRtcp lib 64) 12 k \<and>
        media_keys t (p_publisher px) = Some k' \<and> used_from (protectRtcp lib 64) 12 k k')"
    proof (cases "p_publisher px = p_publisher pr")
      case True
      then show ?thesis using k(1,2) used by (simp add: mk)
    qed (use keys in \<open>simp add: mk\<close>)
    moreover have "prods t x = Some px" using px(1) by (simp add: t_def)
    ultimately show "\<exists>px. prods t x = Some px \<and> p_originalSsrc px \<noteq> 0 \<and>
        (p_publisher px \<noteq> a \<longrightarrow> (\<exists>k k'. K (p_publisher px) = Some k \<and> works (protectRtcp lib 64) 12 k \<and>
          media_keys t (p_publisher px) = Some k' \<and> used_from (protectRtcp lib 64) 12 k k'))"
      using px(2) by blast
  qed
  moreover have "asked lib K s r (remoteEp q, enc)" using pr(1) q(1) k(1,4) enc unfolding asked_def by auto
  ultimately show ?thesis using run pr(3) by (auto simp: t_def)
qed

lemma plis_ask_everyone:
  assumes "askable lib K a rs s"
  shows "\<exists>t new. foldM (pli_to_publisher lib a) rs s = Some t \<and> sent t = sent s @ new \<and> peers t a = peers s a \<and>
    list_all2 (asked lib K s) (others a rs s) new"
  using assms
proof (induction rs arbitrary: s)
  case Nil
  then show ?case by (simp add: others_def)
next
  case (Cons r rs)
  obtain pr where pr: "prods s r = Some pr" using Cons.prems by (auto simp: askable_def)
  show ?case
  proof (cases "p_publisher pr = a")
    case True
    then have "pli_to_publisher lib a r s = Some s" by (simp add: pli_to_publisher_def pr)
    moreover have "askable lib K a rs s" using Cons.prems by (simp add: askable_def)
    ultimately show ?thesis using Cons.IH [of s] True pr by (auto simp: others_def)
  next
    case False
    then have "p_publisher (the (prods s r)) \<noteq> a" using pr by simp
    from pli_asks [OF Cons.prems this] obtain u x where u: "pli_to_publisher lib a r s = Some u" "sent u = sent s @ [x]"
      "asked lib K s r x" "askable lib K a rs u" "asked lib K u = asked lib K s" "prods u = prods s" "peers u a = peers s a" by blast
    obtain t new where "foldM (pli_to_publisher lib a) rs u = Some t" "sent t = sent u @ new" "peers t a = peers u a"
      "list_all2 (asked lib K u) (others a rs u) new" using Cons.IH [OF u(4)] by blast
    then show ?thesis using u False pr by (auto simp: others_def)
  qed
qed

section \<open>The last packet of the handshake\<close>

lemma completed_handshake:
  assumes ep: "getOrCreatePeer e ep s = Some (a, s1)" "peers s1 a = Some p"
    and hs: "\<not> handshakeDone (session_of (dtlsL e) ep p)"
      "handlePacket (dtlsL e) d (session_of (dtlsL e) ep p) = (c, out, True)"
    and keys: "exportSrtpKeys (dtlsL e) c \<noteq> []" "srtp_init (srtpL e) (exportSrtpKeys (dtlsL e) c) srtp_new = (True, k)"
  shows "handleDtls e d ep s = sendPLItoAllPeers (srtpL e) a
    (s1\<lparr>peers := (peers s1)(a \<mapsto> p\<lparr>dtls := Some c, srtp := Some k\<rparr>), sent := sent s1 @ out\<rparr>)"
proof -
  have "handshakeDone c" using handlePacket_result [OF hs(2)] by simp
  have swap: "s1\<lparr>sent := x, peers := y\<rparr> = s1\<lparr>peers := y, sent := x\<rparr>" for x y by simp
  show ?thesis
    using \<open>handshakeDone c\<close> hs keys by (simp add: swap handleDtls_def ep Let_def modify_def)
qed

lemma video_producer:
  assumes inv: "router_inv s" and r: "r \<in> set (video_producers s)"
  shows "\<exists>pr q. prods s r = Some pr \<and> p_originalSsrc pr \<noteq> 0 \<and> peers s (p_publisher pr) = Some q \<and> producers q \<noteq> []"
proof -
  obtain b where b: "b \<in> set (allPeers s)" "r \<in> set (producers (the (peers s b)))"
    using r by (auto simp: video_producers_def)
  obtain q where q: "peers s b = Some q" using inv_allD(2) [OF inv] b(1) by blast
  then have rq: "r \<in> set (producers q)" using b(2) by simp
  obtain pr where pr: "prods s r = Some pr" "p_publisher pr = b" using inv_peersD(3) [OF inv q rq] by blast
  have "producers q \<noteq> []" using rq by auto
  then show ?thesis using inv_prodsD(1) [OF inv pr(1)] pr q by auto
qed


section \<open>The refinement and what follows from it\<close>

text \<open>
  C5. The server implements the conference: from its start, every list of expected events has a
  defined result and is a run of the conference. A datagram speaks for the participant of its
  endpoint, for one that waits, or for a nameless stranger; a handshake packet leads from joining to
  keys or to a refusal; media and feedback act on the board only for participants with keys; the
  calls act on the members and, through them, on the board; a receive error makes the server deaf.
\<close>

theorem server_refines_conference:
  assumes "expected (run_event e) (admissible e) evs (setupComponents ig pos gen)"
  shows "\<exists>t. foldM (run_event e) evs (setupComponents ig pos gen) = Some t \<and>
    abstract_run conf_step evs empty_conference (conf_of t)"
  using server_conference.runs_simulated [OF server_in_service assms]
  by (auto simp: runs_def conf_of_start)

text \<open>
  C15. A participant that has an endpoint keeps it and its name whatever happens, and its phase only
  moves forward: from the handshake to keys or to a refusal, and from these nowhere else. Removing
  the participant, adding it again or a second handshake change nothing of that.
\<close>

theorem participants_only_advance:
  assumes reach: "reachable (run_event e) (admissible e) (setupComponents ig pos gen) s"
    and evs: "expected (run_event e) (admissible e) evs s"
    and a: "map_of (peerMap s) ep = Some a" "peers s a = Some p"
  shows "\<exists>t q. foldM (run_event e) evs s = Some t \<and> peers t a = Some q \<and> peerId q = peerId p \<and>
    remoteEp q = ep \<and> peer_phase p \<le> peer_phase q"
proof -
  have serv: "in_service s" by (rule server_conference.reachable_inv [OF reach server_in_service])
  then have inv: "server_inv s" by (simp add: in_service_def)
  obtain t where t: "foldM (run_event e) evs s = Some t" "in_service t" "abstract_run conf_step evs (conf_of s) (conf_of t)"
    using server_conference.runs_simulated [OF serv evs] by (auto simp: runs_def)
  have adv: "advances (conf_of s) (conf_of t)"
    by (rule abstract_run_mono [OF t(3)]) (rule advances_refl, rule advances_trans, assumption+, rule conf_step_advances)
  have ep: "(ep, a) \<in> set (peerMap s)" using a(1) by (rule map_of_SomeD)
  have p: "phase_of s a = Some (peer_phase p)" "remoteEp p = ep"
    using bound_phase [OF inv ep a(2)] bound_live [OF inv ep] a(2) by simp_all
  have "(\<exists>\<psi>. phases (conf_of t) a = Some \<psi> \<and> peer_phase p \<le> \<psi>) \<and>
      names (forum (conf_of t)) a = names (forum (conf_of s)) a"
    using adv p(1) unfolding advances_def by (metis conf_of_simps(2) option.distinct(1) seat_peer_phase)
  then obtain \<psi> where psi: "phase_of t a = Some \<psi>" "peer_phase p \<le> \<psi>"
    and name: "map_option peerId (peers t a) = Some (peerId p)"
    using a(2) by auto
  have seat: "seat \<psi> = Some ep" using phase_le_seat [OF psi(2)] p(2) by simp
  obtain q where q: "peers t a = Some q" "peerId q = peerId p" using name by auto
  have "\<psi> = peer_phase q" using psi(1) seat q(1) by (auto simp: phase_of_def split: if_splits)
  then show ?thesis using t(1) q psi(2) seat by auto
qed

text \<open>
  C16. Media needs keys. In every reachable state a peer with a stream has finished its DTLS handshake,
  has SRTP keys and is bound to the endpoint it sends from; and a media datagram from an endpoint
  whose handshake is not done, whatever its bytes are, sends nothing and makes or changes no
  producer, no consumer and no route.
\<close>

theorem media_needs_keys:
  assumes reach: "reachable (run_event e) (admissible e) (setupComponents ig pos gen) s"
  shows "(\<forall>a p. peers s a = Some p \<longrightarrow> producers p \<noteq> [] \<longrightarrow>
      srtp p \<noteq> None \<and> (\<exists>c. dtls p = Some c \<and> handshakeDone c) \<and> (remoteEp p, a) \<in> set (peerMap s)) \<and>
    (\<forall>data ep. classify data = Srtp \<longrightarrow>
      (\<forall>a p c. map_of (peerMap s) ep = Some a \<longrightarrow> peers s a = Some p \<longrightarrow> dtls p = Some c \<longrightarrow> \<not> handshakeDone c) \<longrightarrow>
      (\<exists>t. onPacket e data ep s = Some t \<and> sent t = sent s \<and> prods t = prods s \<and> conss t = conss s \<and>
         routes t = routes s \<and> outSsrcToConsumer t = outSsrcToConsumer s))"
  using published_keys [OF reach] media_dropped [OF reach] by blast

section \<open>Alice and Bob\<close>

definition video_line :: string where
  "video_line = ''m=video 9 X 96''"

lemma video_line:
  "getlines video_line = [video_line]" "clean_line video_line = Some video_line" "prefix ''m='' video_line"
  "sec_type (media_line video_line) = ''video''" "read_ints (sec_ptList (media_line video_line)) = [96]"
  by code_simp+

lemma video_line_registers: "96 \<in> g_videoPTs (snd (generateAnswer video_line p g))"
proof -
  have "offer_line video_line q g = (Inr (q\<lparr>sections := sections q @ [media_line video_line]\<rparr>), collect_pts (media_line video_line) g)" for q
    using video_line(3) by (simp add: offer_line_def Let_def)
  then show ?thesis
    by (simp add: generateAnswer_def parseOffer_def video_line(1,2) collect_pts_def video_line(4,5))
qed

abbreviation from_start :: "(srtp_policy, unit) server \<Rightarrow> bool" where
  "from_start \<equiv> reachable (run_event sample_env) (admissible sample_env) (setupComponents (\<lambda>_. 0) 0 (\<lambda>_. 0))"

lemma from_start_step:
  "from_start s \<Longrightarrow> admissible sample_env ev s \<Longrightarrow> run_event sample_env ev s = Some t \<Longrightarrow> from_start t"
  by (rule reachable.event)

lemma bob_waits_from_start: "from_start bob_waits"
proof -
  let ?s = "added ''bob'' alice_waits"
  have inv: "server_inv ?s" by (rule added_inv [OF alice_waits(1)]) (simp add: alice_waits(3))
  have "from_start ?s"
    by (rule reachable.event [OF alice_waits(5), where ev = "Add_peer ''bob''"])
      (simp_all add: admissible_def sample_env_sizes AddPeer_eq [OF alice_waits(1)] alice_waits(3))
  then show ?thesis
    by (rule reachable.event [where ev = "Add_consumer ''bob'' ''alice'' True"])
      (use bob_waits(1) in \<open>simp_all add: admissible_def sample_env_sizes alice_waits_def\<close>)
qed

text \<open>Alice's handshake, in one packet.\<close>

definition alice_ep :: endpoint where "alice_ep = \<lparr>ep_addr = 1, ep_port = 2\<rparr>"
definition bob_ep :: endpoint where "bob_ep = \<lparr>ep_addr = 3, ep_port = 4\<rparr>"

lemma classify_hello: "classify [22] = Dtls"
  by (simp add: classify_def word_le_nat_alt)

definition done_ctx :: "endpoint \<Rightarrow> unit dtls_ctx" where
  "done_ctx ep = \<lparr>ssl = (), writeBIO = [], handshakeDone = True, dtls_sendCb = Some ep\<rparr>"

definition hello_out :: "endpoint \<Rightarrow> datagram list" where
  "hello_out ep = map (\<lambda>c. (ep, c)) (drain (replicate 5000 22))"

lemma one_shot:
  "dtls p = None \<Longrightarrow> \<not> handshakeDone (session_of (dtlsL sample_env) ep p)"
  "dtls p = None \<Longrightarrow> handlePacket (dtlsL sample_env) d (session_of (dtlsL sample_env) ep p) = (done_ctx ep, hello_out ep, True)"
  "exportSrtpKeys (dtlsL sample_env) c = replicate 60 0"
  "srtp_init (srtpL sample_env) (replicate 60 0) srtp_new = (True, zero_tag_ctx)"
  by (simp_all add: session_of_def dtls_setSendCallback_def dtls_new_def handlePacket_def sample_env_def one_shot_lib_def
      done_ctx_def hello_out_def exportSrtpKeys_def)
    (simp add: zero_tag_ctx_def srtp_init_def zero_tag_lib_def)

lemma one_shot_handshake:
  assumes "getOrCreatePeer sample_env ep s = Some (a, s1)" "peers s1 a = Some p" "dtls p = None"
  shows "handleDtls sample_env d ep s = sendPLItoAllPeers zero_tag_lib a
    (s1\<lparr>peers := (peers s1)(a \<mapsto> p\<lparr>dtls := Some (done_ctx ep), srtp := Some zero_tag_ctx\<rparr>), sent := sent s1 @ hello_out ep\<rparr>)"
proof -
  have "exportSrtpKeys (dtlsL sample_env) (done_ctx ep) \<noteq> []" "srtp_init (srtpL sample_env)
      (exportSrtpKeys (dtlsL sample_env) (done_ctx ep)) srtp_new = (True, zero_tag_ctx)"
    by (simp_all only: one_shot(3,4)) simp
  from completed_handshake [OF assms(1,2) one_shot(1,2) this] assms(3) show ?thesis by (simp add: sample_env_def)
qed

lemma receives_again: "receiving s \<Longrightarrow> startReceive (s\<lparr>receiving := False\<rparr>) = (s :: ('s, 'd) server)"
  by (simp add: startReceive_def)

lemma bob_waits_wire:
  "peerMap bob_waits = []" "receiving bob_waits" "sent bob_waits = []"
proof -
  have inv: "server_inv (added ''bob'' alice_waits)" by (rule added_inv [OF alice_waits(1)]) (simp add: alice_waits(3))
  have "run_event sample_env (Add_consumer ''bob'' ''alice'' True) (added ''bob'' alice_waits) = Some bob_waits"
    using bob_waits(1) by (simp add: alice_waits_def)
  from wire_call [OF inv this] have "wire bob_waits = wire sample_server" by (simp add: wire_added alice_waits_def)
  then show "peerMap bob_waits = []" "receiving bob_waits" "sent bob_waits = []"
    using sample_server_simps(5,8)
    by (simp_all add: wire_def) (simp add: sample_server_def setupComponents_def server_new_def setPacketRouter_def Let_def
      setServiceIce_def setServiceRouter_def startReceive_def setRouter_def setIceServer_def sfu.defs sfu_init_def)
qed

definition alice_on :: "(srtp_policy, unit) server" where
  "alice_on = bob_waits\<lparr>pendingPeers := [(''bob'', 1)], peerMap := [(alice_ep, 0)],
     peers := (peers bob_waits)(0 \<mapsto> new_peer\<lparr>peerId := ''alice'', remoteEp := alice_ep,
       dtls := Some (done_ctx alice_ep), srtp := Some zero_tag_ctx\<rparr>),
     sent := hello_out alice_ep\<rparr>"

lemma alice_hello: "run_event sample_env (Datagram [22] alice_ep) bob_waits = Some alice_on"
proof -
  let ?s = "bob_waits\<lparr>receiving := False\<rparr>"
  have p: "peers ?s 0 = Some (new_peer\<lparr>peerId := ''alice''\<rparr>)" using bob_waits(8) by simp
  let ?u = "bind_endpoint alice_ep 0 (new_peer\<lparr>peerId := ''alice''\<rparr>) (?s\<lparr>pendingPeers := [(''bob'', 1)]\<rparr>)"
  have g: "getOrCreatePeer sample_env alice_ep ?s = Some (0, ?u)"
    using getOrCreatePeer_pending [of ?s alice_ep sample_env "(''alice'', 0)" "[(''bob'', 1)]"] p bob_waits(4) bob_waits_wire(1)
    by (simp add: take_begin_def sample_env_def)
  have u: "peers ?u 0 = Some (new_peer\<lparr>peerId := ''alice'', remoteEp := alice_ep\<rparr>)" by (simp add: bind_endpoint_def)
  have "getAllVideoProducers (?s\<lparr>pendingPeers := L, peerMap := M, peers := (peers bob_waits)(0 \<mapsto> q), sent := out\<rparr>) = Some []"
    if "producers q = []" for L M q out
    using bob_waits(6,10,11) that by (simp add: getAllVideoProducers_def new_peer_def)
  then have "handleDtls sample_env [22] alice_ep ?s = Some (alice_on\<lparr>receiving := False\<rparr>)"
    using one_shot_handshake [OF g u] bob_waits(13) bob_waits_wire(3)
    by (simp add: sendPLItoAllPeers_def alice_on_def bind_endpoint_def new_peer_def bob_waits_wire(1))
  moreover have "receiving alice_on" using bob_waits_wire(2) by (simp add: alice_on_def)
  ultimately show ?thesis
    using bob_waits_wire(2) by (simp add: onReceive_def onPacket_def classify_hello receives_again)
qed

text \<open>Alice offers video with payload type 96 and starts to send it; Bob waits for that.\<close>

definition offered_globals :: sdp_globals where
  "offered_globals = snd (generateAnswer video_line (setMidSsrcMap Map.empty (offer_parser sample_env alice_on)) globals_init)"

definition alice_offers :: "(srtp_policy, unit) server" where
  "alice_offers = alice_on\<lparr>statics := offered_globals\<rparr>"

lemma alice_offer: "run_event sample_env (Send_offer ''alice'' video_line []) alice_on = Some alice_offers"
proof -
  have "findPeer ''alice'' alice_on = Some 0" "svc_router alice_on" "statics alice_on = globals_init"
    using bob_waits(3,9,14) by (simp_all add: alice_on_def findPeer_def)
  moreover have "getAllBoundSsrcs 0 alice_on = Some Map.empty"
    by (simp add: getAllBoundSsrcs_def alice_on_def new_peer_def)
  ultimately have "offer_bindings ''alice'' [] alice_on = Some (Map.empty, alice_on)" by (simp add: offer_bindings_def)
  then show ?thesis
    using \<open>statics alice_on = globals_init\<close> by (simp add: SendOffer_def alice_offers_def offered_globals_def Let_def split: prod.split)
qed

definition alice_live :: "(srtp_policy, unit) server" where
  "alice_live = alice_offers\<lparr>nextAddr := 4, prods := [3 \<mapsto> (new_producer 0 7 True)\<lparr>p_consumers := [2]\<rparr>],
     peers := (peers alice_offers)(0 \<mapsto> new_peer\<lparr>peerId := ''alice'', remoteEp := alice_ep,
       dtls := Some (done_ctx alice_ep), srtp := Some zero_tag_ctx, producers := [3]\<rparr>),
     conss := (conss alice_offers)(2 \<mapsto> (new_consumer 1 0 True 0x40000000)\<lparr>c_publisherSsrc := 7\<rparr>),
     routes := route_bind 7 0 (routes alice_offers),
     sent := sent alice_offers @ [(alice_ep, pli_bytes 0 7 @ replicate 14 0)]\<rparr>"

lemma sample_media:
  "classify (sample_rtp @ replicate 10 0) = Srtp" "take 65536 (sample_rtp @ replicate 10 (0 :: u8)) = sample_rtp @ replicate 10 0"
proof -
  have "128 \<le> (sample_rtp @ replicate 10 0) ! 0" by (simp add: sample_rtp_def header_bytes_def header_byte0_def)
  then show "classify (sample_rtp @ replicate 10 0) = Srtp" by (auto simp: classify_def word_le_nat_alt)
qed (simp add: sample_rtp_simps)

lemma sample_decrypt:
  assumes "peers s a = Some p" "srtp p = Some zero_tag_ctx"
  shows "decrypt zero_tag_lib (sample_rtp @ replicate 10 0) a zero_tag_ctx s = Some (Plain_rtp sample_rtp, s)"
proof -
  have "unprotect zero_tag_lib 65536 (sample_rtp @ replicate 10 0) zero_tag_ctx = Some (zero_tag_ctx, Some sample_rtp)"
    using zero_tag_ctx_simps by (simp add: unprotect_def zero_tag_lib_def in_place_def sample_rtp_simps)
  moreover have "s\<lparr>peers := (peers s)(a \<mapsto> p\<lparr>srtp := Some zero_tag_ctx\<rparr>)\<rparr> = s"
    using assms by (simp add: fun_upd_idem)
  ultimately show ?thesis using assms(1) by (simp add: decrypt_def Let_def modify_def sample_rtp_simps)
qed

lemma alice_media: "run_event sample_env (Datagram (sample_rtp @ replicate 10 0) alice_ep) alice_offers = Some alice_live"
proof -
  let ?d = "sample_rtp @ replicate 10 (0 :: u8)" and ?s = "alice_offers\<lparr>receiving := False\<rparr>" and ?V = "g_videoPTs (statics alice_offers)"
  have s: "peers ?s 0 = Some (new_peer\<lparr>peerId := ''alice'', remoteEp := alice_ep, dtls := Some (done_ctx alice_ep), srtp := Some zero_tag_ctx\<rparr>)"
    "map_of (peerMap ?s) alice_ep = Some 0" "pr_router ?s"
    "peers ?s 1 = Some (new_peer\<lparr>peerId := ''bob'', consumers := [2]\<rparr>)" "allPeers ?s = [1, 0]" "nextAddr ?s = 3"
    "prods ?s = Map.empty" "conss ?s 2 = Some (new_consumer 1 0 True 0x40000000)" "96 \<in> ?V"
    using bob_waits(6,7,10-13) video_line_registers by (simp_all add: alice_offers_def alice_on_def offered_globals_def)
  have dec: "decrypt zero_tag_lib ?d 0 zero_tag_ctx ?s = Some (Plain_rtp sample_rtp, ?s)"
    by (rule sample_decrypt [OF s(1)]) simp
  have "onRtpPacket zero_tag_lib ?V sample_rtp 0 ?s = Some (alice_live\<lparr>receiving := False\<rparr>)"
    using s(1,4-9) protectRtcp_zero_tag [of "pli_bytes 0 7"]
    by (simp add: onRtpPacket_def rtp_targets_def sample_rtp_simps findProducer_def findOrCreateProducer_def Let_def
        sendProtectedRtcp_def link_waiting_def link_if_waiting_def link_consumer_def new_peer_def new_consumer_def
        new_producer_def rtp_forward_def rtp_forward_one_def modify_def alice_live_def)
  then have "handleSrtp sample_env ?d alice_ep ?s = Some (alice_live\<lparr>receiving := False\<rparr>)"
    using s(1-3) dec by (simp add: handleSrtp_def getOrCreatePeer_known dispatch_def sample_env_def)
  moreover have "receiving alice_offers" "receiving alice_live"
    using bob_waits_wire(2) by (simp_all add: alice_on_def alice_offers_def alice_live_def)
  ultimately show ?thesis
    using sample_media(1,2) by (simp add: onReceive_def onPacket_def receives_again sample_rtp_simps)
qed

lemma alice_live_from_start: "from_start alice_live"
proof -
  have hello: "admissible sample_env (Datagram [22] alice_ep) bob_waits"
    by (simp add: admissible_def sample_env_sizes datagram_ok_def classify_hello)
  have offer: "admissible sample_env (Send_offer ''alice'' video_line []) alice_on"
    by (simp add: admissible_def sample_env_sizes)
  let ?s = "alice_offers\<lparr>receiving := False\<rparr>"
  have s: "peers ?s 0 = Some (new_peer\<lparr>peerId := ''alice'', remoteEp := alice_ep, dtls := Some (done_ctx alice_ep), srtp := Some zero_tag_ctx\<rparr>)"
    "map_of (peerMap ?s) alice_ep = Some 0" by (simp_all add: alice_offers_def alice_on_def)
  have "handed_over sample_env (sample_rtp @ replicate 10 0) alice_ep ?s = Some (Plain_rtp sample_rtp)"
    using s sample_decrypt [OF s(1)] by (simp add: handed_over_def getOrCreatePeer_known sample_env_def)
  then have "datagram_ok sample_env (sample_rtp @ replicate 10 0) alice_ep ?s"
    by (simp add: datagram_ok_def plain_ok_def sample_rtp_simps)
  then have media: "admissible sample_env (Datagram (sample_rtp @ replicate 10 0) alice_ep) alice_offers"
    using sample_media(2) by (simp add: admissible_def sample_env_sizes)
  show ?thesis
    by (rule from_start_step [OF from_start_step [OF from_start_step [OF bob_waits_from_start hello alice_hello]
        offer alice_offer] media alice_media])
qed

theorem media_needs_keys_witness:
  "srtp (the (peers alice_live 0)) \<noteq> None \<and> (alice_ep, 0) \<in> set (peerMap alice_live) \<and>
    (\<exists>t. onPacket sample_env [128] bob_ep alice_live = Some t \<and> sent t = sent alice_live)"
proof -
  have p: "peers alice_live 0 = Some (new_peer\<lparr>peerId := ''alice'', remoteEp := alice_ep,
      dtls := Some (done_ctx alice_ep), srtp := Some zero_tag_ctx, producers := [3]\<rparr>)"
    by (simp add: alice_live_def)
  have b: "map_of (peerMap alice_live) bob_ep = None"
    by (simp add: alice_live_def alice_offers_def alice_on_def alice_ep_def bob_ep_def)
  note keys = media_needs_keys [OF alice_live_from_start]
  obtain t where "onPacket sample_env [128] bob_ep alice_live = Some t" "sent t = sent alice_live"
    using keys [THEN conjunct2, rule_format, OF classify_stray, of bob_ep] b by auto
  then show ?thesis using keys [THEN conjunct1, rule_format, OF p] by (simp add: p)
qed

text \<open>Something arrives from Bob, then his handshake.\<close>

definition bob_seated :: "(srtp_policy, unit) server" where
  "bob_seated = bind_endpoint bob_ep 1 (new_peer\<lparr>peerId := ''bob'', consumers := [2]\<rparr>) (alice_live\<lparr>pendingPeers := []\<rparr>)"

lemma bob_stray: "run_event sample_env (Datagram [128] bob_ep) alice_live = Some bob_seated"
  "admissible sample_env (Datagram [128] bob_ep) alice_live"
proof -
  let ?s = "alice_live\<lparr>receiving := False\<rparr>" and ?p = "new_peer\<lparr>peerId := ''bob'', consumers := [2]\<rparr>"
  have s: "map_of (peerMap ?s) bob_ep = None" "pendingPeers ?s = [(''bob'', 1)]" "peers ?s 1 = Some ?p"
    using bob_waits(6) by (simp_all add: alice_live_def alice_offers_def alice_on_def alice_ep_def bob_ep_def)
  have g: "getOrCreatePeer sample_env bob_ep ?s = Some (1, bob_seated\<lparr>receiving := False\<rparr>)"
    using getOrCreatePeer_pending [OF s(1), of sample_env "(''bob'', 1)" "[]"] s(2,3)
    by (simp add: take_begin_def bob_seated_def bind_endpoint_def)
  have p: "peers (bob_seated\<lparr>receiving := False\<rparr>) 1 = Some (?p\<lparr>remoteEp := bob_ep\<rparr>)"
    by (simp add: bob_seated_def bind_endpoint_def)
  have "onPacket sample_env [128] bob_ep ?s = Some (bob_seated\<lparr>receiving := False\<rparr>)"
    by (rule onPacket_no_keys [OF classify_stray _ g p]) (simp_all add: new_peer_def)
  moreover have "receiving alice_live" "receiving bob_seated"
    using bob_waits_wire(2) by (simp_all add: alice_live_def alice_offers_def alice_on_def bob_seated_def bind_endpoint_def)
  ultimately show "run_event sample_env (Datagram [128] bob_ep) alice_live = Some bob_seated"
    by (simp add: onReceive_def receives_again)
  have "handed_over sample_env [128] bob_ep ?s = None"
    by (rule handed_over_no_keys [OF g p]) (simp add: new_peer_def)
  then show "admissible sample_env (Datagram [128] bob_ep) alice_live"
    by (simp add: admissible_def sample_env_sizes datagram_ok_def)
qed

lemma bob_seated_from_start: "from_start bob_seated"
  by (rule from_start_step [OF alice_live_from_start bob_stray(2,1)])

lemma bob_seated:
  "receiving bob_seated" "map_of (peerMap bob_seated) bob_ep = Some 1" "prods bob_seated = prods alice_live"
  "peers bob_seated 1 = Some (new_peer\<lparr>peerId := ''bob'', consumers := [2], remoteEp := bob_ep\<rparr>)"
  "peers bob_seated 0 = peers alice_live 0" "allPeers bob_seated = [1, 0]"
  "b \<notin> {0, 1} \<Longrightarrow> peers bob_seated b = None"
  "others 1 (video_producers bob_seated) bob_seated = [3]"
proof -
  have "set (owner_addrs bob_waits) = dom (peers bob_waits)" using bob_waits(2) by (simp add: server_inv_def maps_inv_def)
  then have dom: "dom (peers bob_waits) = {0, 1}" using bob_waits(4) bob_waits_wire(1) by (simp add: owner_addrs_def)
  note defs = bob_seated_def bind_endpoint_def alice_live_def alice_offers_def alice_on_def
  show "receiving bob_seated" using bob_waits_wire(2) by (simp add: defs)
  show "map_of (peerMap bob_seated) bob_ep = Some 1" by (simp add: defs alice_ep_def bob_ep_def)
  show "prods bob_seated = prods alice_live" by (simp add: bob_seated_def bind_endpoint_def)
  show "peers bob_seated 1 = Some (new_peer\<lparr>peerId := ''bob'', consumers := [2], remoteEp := bob_ep\<rparr>)"
    "peers bob_seated 0 = peers alice_live 0"
    by (simp_all add: bob_seated_def bind_endpoint_def)
  show "allPeers bob_seated = [1, 0]" using bob_waits(11) by (simp add: defs)
  show "peers bob_seated b = None" if b: "b \<notin> {0, 1}"
  proof -
    have "peers bob_waits b = None" using b dom by blast
    then show ?thesis using b by (simp add: defs)
  qed
  show "others 1 (video_producers bob_seated) bob_seated = [3]"
    using bob_waits(11) by (simp add: others_def video_producers_def defs new_peer_def new_producer_def)
qed


theorem participants_only_advance_witness:
  "\<exists>t q. foldM (run_event sample_env) [Datagram [22] bob_ep, Remove_peer ''bob''] bob_seated = Some t \<and>
     peers t 1 = Some q \<and> peerId q = ''bob'' \<and> remoteEp q = bob_ep"
proof -
  have "expected (run_event sample_env) (admissible sample_env) [Datagram [22] bob_ep, Remove_peer ''bob''] bob_seated"
    by (simp add: admissible_def sample_env_sizes datagram_ok_def classify_hello)
  from participants_only_advance [OF bob_seated_from_start this bob_seated(2,4)] show ?thesis
    by (auto simp: new_peer_def)
qed

theorem server_refines_conference_witness:
  "\<exists>t. foldM (run_event sample_env) [Add_peer ''alice'', stray] sample_server = Some t \<and>
     abstract_run conf_step [Add_peer ''alice'', stray] empty_conference (conf_of t)"
proof -
  have "admissible sample_env stray alice_waits"
    unfolding admissible_def by (intro conjI sample_env_sizes stray_ok [OF alice_waits(1) _ alice_waits(3)])
      (simp add: alice_waits(2))
  then have "expected (run_event sample_env) (admissible sample_env) [Add_peer ''alice'', stray] sample_server"
    using AddPeer_eq [OF sample_server_inv, of sample_env "''alice''"]
    by (simp add: admissible_def sample_env_sizes sample_server_simps alice_waits_def)
  from server_refines_conference [OF this [unfolded sample_server_def]] show ?thesis
    unfolding sample_server_def .
qed

end
