(* ===== verification/Conformance.thy ===== *)
theory Conformance
  imports RouterProps SdpProps
begin

text \<open>
  The repository's own unit tests as programs over the model: \<open>rtp/test_rtp_header.cpp\<close>,
  \<open>sdp/test_sdp_ssrc.cpp\<close> and \<open>sfu/test_consumer.cpp\<close>. Each yields the results of its checks, in
  order; \<^const>\<open>None\<close> is undefined behaviour. That they pass is evidence that the definitions
  mean what the code means; for \<open>test_consumer\<close> it is shown for every value of the random
  generator and every SRTP library, where the test sees one run.
\<close>

section \<open>Packets\<close>

text \<open>\<open>makeRtp\<close>, and the packet of the first test: zeros that are written over.\<close>

definition makeRtp :: "u32 \<Rightarrow> u16 \<Rightarrow> u32 \<Rightarrow> u8 list option" where
  "makeRtp ssrc seq ts = do {
     let p = (replicate 12 0)[0 := 0x80, 1 := 96];
     p \<leftarrow> poke 2 (be16 seq) p;
     p \<leftarrow> poke 4 (be32 ts) p;
     poke 8 (be32 ssrc) p
   }"

section \<open>The test of the RTP header\<close>

definition test_rtp_header :: "bool list option" where
  "test_rtp_header = do {
     let pkt = (replicate 12 0)[0 := 0x80, 1 := 96];
     pkt \<leftarrow> poke 2 (be16 1000) pkt;
     pkt \<leftarrow> poke 4 (be32 90000) pkt;
     pkt \<leftarrow> poke 8 (be32 0x12345678) pkt;
     h \<leftarrow> rtp_parse pkt;
     let pkt = writeFixedHeader pkt (h\<lparr>h_ssrc := 0xAABBCCDD, h_sequenceNumber := 2000, h_timestamp := 180000\<rparr>);
     h2 \<leftarrow> rtp_parse pkt;
     Some [h_sequenceNumber h = 1000, h_timestamp h = 90000, h_ssrc h = 0x12345678, h_payloadType h = 96,
           h_ssrc h2 = 0xAABBCCDD, h_sequenceNumber h2 = 2000, h_timestamp h2 = 180000,
           h_payloadType h2 = 96, h_version h2 = 2]
   }"

section \<open>The test of the SDP parser\<close>

definition crlf_lines :: "string list \<Rightarrow> string" where
  "crlf_lines ls = concat (map (\<lambda>l. l @ crlf) ls)"

definition test_offer :: string where
  "test_offer = crlf_lines
     [''v=0'', ''o=- 0 0 IN IP4 0.0.0.0'', ''s=-'', '' t=0 0'', ''a=group:BUNDLE 0 1 2 3 4'',
      ''m=audio 9 UDP/TLS/RTP/SAVPF 111'', '' a=mid:0'', '' a=sendrecv'', '' a=rtpmap:111 opus/48000/2'',
      ''a=ice-ufrag:abc'', '' a=ice-pwd:def'', '' a=fingerprint:sha-256 AA:BB:CC'',
      ''m=video 9 UDP/TLS/RTP/SAVPF 96'', '' a=mid:1'', '' a=sendrecv'', '' a=rtpmap:96 VP8/90000'',
      ''m=video 9 UDP/TLS/RTP/SAVPF 96'', '' a=mid:2'', '' a=recvonly'', '' a=rtpmap:96 VP8/90000'',
      ''m=video 9 UDP/TLS/RTP/SAVPF 96'', '' a=mid:4'', '' a=recvonly'', '' a=rtpmap:96 VP8/90000'']"

text \<open>\<open>std::string::find\<close>; \<^const>\<open>None\<close> is \<open>npos\<close>, which is greater than every position.\<close>

fun string_find :: "string \<Rightarrow> string \<Rightarrow> nat option" where
  "string_find p [] = (if p = [] then Some 0 else None)"
| "string_find p (c # cs) = (if prefix p (c # cs) then Some 0 else map_option Suc (string_find p cs))"

fun pos_less :: "nat option \<Rightarrow> nat option \<Rightarrow> bool" where
  "pos_less (Some i) (Some j) \<longleftrightarrow> i < j"
| "pos_less (Some i) None \<longleftrightarrow> True"
| "pos_less None _ \<longleftrightarrow> False"

definition test_sdp_ssrc :: "sdp_globals \<Rightarrow> int_error + bool list" where
  "test_sdp_ssrc g =
     (let p = setMidSsrcMap [''2'' \<mapsto> 2001, ''4'' \<mapsto> 2003]
                (setServerInfo ''127.0.0.1'' 10000 ''uf'' ''pw'' ''AA:BB:CC'' parser_new)
      in case fst (generateAnswer test_offer p g) of Inl e \<Rightarrow> Inl e
         | Inr (ans, p') \<Rightarrow> Inr
             [ans \<noteq> '''', string_find ''a=ssrc:2001 cname:namecon'' ans \<noteq> None,
              string_find ''a=ssrc:2003 cname:namecon'' ans \<noteq> None,
              pos_less (string_find ''a=mid:1'' ans) (string_find ''a=ssrc:2001'' ans)])"

section \<open>The test of consumers\<close>

text \<open>The two peers \<open>A\<close> and \<open>B\<close> of a fresh router, then the checks up to the PLI.\<close>

definition test_peers :: "(nat \<Rightarrow> u32) \<Rightarrow> nat \<times> nat \<times> ('s, 'd) sfu" where
  "test_peers gen =
     (let s0 = sfu_init gen; A = nextAddr s0; s1 = alloc_peer (new_peer\<lparr>peerId := ''A''\<rparr>) s0;
          B = nextAddr s1; s2 = alloc_peer (new_peer\<lparr>peerId := ''B''\<rparr>) s1
      in (A, B, s2))"

text \<open>One packet through \<open>rewriteRtpHeader\<close> for the consumer at \<open>c\<close>, and its header afterwards.\<close>

definition test_rewrite ::
  "u32 \<Rightarrow> u16 \<Rightarrow> u32 \<Rightarrow> nat \<Rightarrow> ('s, 'd) sfu \<Rightarrow> (rtp_header \<times> ('s, 'd) sfu) option" where
  "test_rewrite ssrc seq ts c s = do {
     pkt \<leftarrow> makeRtp ssrc seq ts;
     cc \<leftarrow> conss s c;
     (buf, cc') \<leftarrow> rewriteRtpHeader pkt cc;
     h \<leftarrow> rtp_parse buf;
     Some (h, s\<lparr>conss := (conss s)(c \<mapsto> cc')\<rparr>)
   }"

definition test_pli :: "u32 \<Rightarrow> u8 list" where
  "test_pli outSsrc = [0x81, 206] @ be16 2 @ be32 0 @ be32 outSsrc"

definition test_nack :: "u32 \<Rightarrow> u8 list" where
  "test_nack outSsrc = [0x81, 205] @ be16 3 @ be32 0 @ be32 outSsrc @ be16 500 @ be16 0"

definition test_consumer :: "'s srtp_lib \<Rightarrow> (nat \<Rightarrow> u32) \<Rightarrow> (bool list \<times> ('s, 'd) sfu) option" where
  "test_consumer lib gen = do {
     let (A, B, s) = test_peers gen;
     (outSsrc, s) \<leftarrow> addConsumer B A True s;
     b \<leftarrow> peers s B;
     let k1 = [outSsrc \<noteq> 0, 0x40000000 \<le> outSsrc \<and> outSsrc \<le> 0x7FFFFFFF, length (consumers b) = 1];
     (bound, s) \<leftarrow> bindConsumerByMid B ''A'' True ''2'' s;
     b \<leftarrow> peers s B;
     if consumers b = [] then None
     else do {
       let c = consumers b ! 0;
       cc \<leftarrow> conss s c;
       (h1, s1) \<leftarrow> test_rewrite 1001 500 90000 c s;
       (h2, s2) \<leftarrow> test_rewrite 1001 501 90300 c s1;
       producers \<leftarrow> getAllVideoProducers s2;
       s3 \<leftarrow> onRtcpPacket lib (test_pli outSsrc) B s2;
       s4 \<leftarrow> onRtcpPacket lib (test_nack outSsrc) B s3;
       s5 \<leftarrow> removePeer B s4;
       b5 \<leftarrow> peers s5 B;
       Some (k1 @ [bound = outSsrc, c_recvMid cc = ''2'', h_ssrc h1 = outSsrc, h_sequenceNumber h1 = 500,
                   h_ssrc h2 = outSsrc, h_sequenceNumber h2 = 501, producers = [], True, True,
                   consumers b5 = []], s5)
     }
   }"

section \<open>The tests pass\<close>

lemma zeros12: "replicate 12 (0 :: u8) = [0, 0, 0, 0, 0, 0, 0, 0, 0, 0, 0, 0]"
  by (simp add: numeral_eq_Suc)

lemma zero_packet: "(replicate 12 (0 :: u8))[0 := 0x80, 1 := 96] = [0x80, 96, 0, 0, 0, 0, 0, 0, 0, 0, 0, 0]"
  unfolding zeros12 by simp

lemma makeRtp_eq:
  "makeRtp ssrc seq ts = Some ([0x80, 96] @ be16 seq @ be32 ts @ be32 ssrc)"
  unfolding makeRtp_def Let_def zero_packet by (simp add: poke_def be16_def be32_def)

lemma test_rtp_header_passes: "test_rtp_header = Some (replicate 9 True)"
  by code_simp

lemma string_find_append: "string_find p (xs @ p @ ys) \<noteq> None"
proof (induction xs)
  case Nil
  have "prefix p (p @ ys)" by simp
  then show ?case by (cases "p @ ys") simp_all
next
  case (Cons x xs)
  then show ?case by (cases "string_find p (xs @ p @ ys)") auto
qed

lemma string_find_line:
  assumes "p \<noteq> []" "d \<notin> set p"
  shows "string_find p (l @ d # rest) = (case string_find p l of
    None \<Rightarrow> map_option (\<lambda>i. length l + 1 + i) (string_find p rest) | Some i \<Rightarrow> Some i)"
proof (induction l)
  case Nil
  have "\<not> prefix p (d # rest)" using assms by (cases p) auto
  then show ?case using assms(1) by (cases "string_find p rest") simp_all
next
  case (Cons c l)
  have "prefix p ((c # l) @ d # rest) = prefix p (c # l)"
  proof
    assume a: "prefix p ((c # l) @ d # rest)"
    show "prefix p (c # l)"
    proof (cases "length p \<le> length (c # l)")
      case True
      then show ?thesis using a prefix_length_prefix [of p "(c # l) @ d # rest" "c # l"] by simp
    next
      case False
      then have "prefix ((c # l) @ [d]) p"
        using a prefix_length_prefix [of "(c # l) @ [d]" "(c # l) @ d # rest" p] by (simp add: Suc_leI)
      then show ?thesis using assms(2) by (metis in_set_conv_decomp prefix_def append_assoc append_Cons)
    qed
  next
    assume "prefix p (c # l)"
    then show "prefix p ((c # l) @ d # rest)" by (rule prefix_prefix)
  qed
  then show ?case using Cons by (cases "string_find p rest") (auto split: option.split)
qed

text \<open>A text that does not occur in the lines \<open>ls\<close> and occurs in the line after them.\<close>

lemma string_find_lines:
  assumes "p \<noteq> []" "CHR 0x0D \<notin> set p" "CHR 0x0A \<notin> set p" "list_all (\<lambda>l. string_find p l = None) ls"
  shows "string_find p (concat (map (\<lambda>l. l @ crlf) ls) @ rest) =
    map_option (\<lambda>i. length (concat (map (\<lambda>l. l @ crlf) ls)) + i) (string_find p rest)"
  using assms(4)
proof (induction ls)
  case (Cons l ls)
  let ?r = "concat (map (\<lambda>l. l @ crlf) ls) @ rest"
  have "string_find p ((l @ [CHR 0x0D]) @ CHR 0x0A # ?r) = map_option (\<lambda>i. length l + 2 + i) (string_find p ?r)"
    using Cons.prems assms by (subst string_find_line) (simp_all add: string_find_line split: option.split)
  then show ?case using Cons by (simp add: crlf_def option.map_comp comp_def add.assoc)
qed (cases "string_find p rest"; simp)

definition test_parser :: sdp_parser where
  "test_parser = setMidSsrcMap [''2'' \<mapsto> 2001, ''4'' \<mapsto> 2003]
     (setServerInfo ''127.0.0.1'' 10000 ''uf'' ''pw'' ''AA:BB:CC'' parser_new)"

definition test_section :: "string \<Rightarrow> string \<Rightarrow> string \<Rightarrow> string \<Rightarrow> string \<Rightarrow> media_section" where
  "test_section type mid dir pt codec =
     \<lparr>sec_type = type, sec_mid = mid, sec_direction = dir, sec_ptList = pt, sec_codecLines = [''a=rtpmap:'' @ codec]\<rparr>"

definition test_sections :: "media_section list" where
  "test_sections =
     [test_section ''audio'' ''0'' ''sendrecv'' ''111'' ''111 opus/48000/2'',
      test_section ''video'' ''1'' ''sendrecv'' ''96'' ''96 VP8/90000'',
      test_section ''video'' ''2'' ''recvonly'' ''96'' ''96 VP8/90000'',
      test_section ''video'' ''4'' ''recvonly'' ''96'' ''96 VP8/90000'']"

lemma test_offer_parsed:
  obtains q g where "parseOffer test_offer test_parser globals_init = (Inr (True, q), g)"
    "sections q = test_sections"
    "server_of q = server_of test_parser"
proof -
  let ?r = "parseOffer test_offer test_parser globals_init"
  have "map_sum id (\<lambda>(ok, q). (ok, sections q)) (fst ?r) = Inr (True, test_sections)"
    by code_simp
  moreover obtain x g where r: "?r = (x, g)" by (cases ?r)
  ultimately obtain q where "x = Inr (True, q)" "sections q = test_sections"
    by (cases x) auto
  with r parseOffer_server [of test_offer test_parser globals_init True q g] that show thesis by simp
qed

text \<open>The lines up to the mid of the second section, and two of the lines behind them.\<close>

definition answer_begin :: "string list" where
  "answer_begin =
     [''v=0'', ''o=- 0 0 IN IP4 127.0.0.1'', ''s=NameCon'', ''t=0 0'', ''a=group:BUNDLE 0 1 2 4'',
      ''a=msid-semantic: WMS'', ''a=ice-lite'',
      ''m=audio 9 UDP/TLS/RTP/SAVPF 111'', ''c=IN IP4 0.0.0.0'', ''a=ice-ufrag:uf'', ''a=ice-pwd:pw'',
      ''a=candidate:1 1 UDP 2130706433 127.0.0.1 10000 typ host'', ''a=rtcp:9 IN IP4 0.0.0.0'',
      ''a=fingerprint:sha-256 AA:BB:CC'', ''a=setup:passive'', ''a=rtcp-mux'', ''a=mid:0'', ''a=sendrecv'',
      ''a=rtpmap:111 opus/48000/2'',
      ''m=video 9 UDP/TLS/RTP/SAVPF 96'', ''c=IN IP4 0.0.0.0'', ''a=ice-ufrag:uf'', ''a=ice-pwd:pw'',
      ''a=candidate:1 1 UDP 2130706433 127.0.0.1 10000 typ host'', ''a=rtcp:9 IN IP4 0.0.0.0'',
      ''a=fingerprint:sha-256 AA:BB:CC'', ''a=setup:passive'', ''a=rtcp-mux'']"

lemma test_answer_lines:
  assumes "server_of q = server_of test_parser"
    and s: "sections q = test_sections"
  obtains tail where "answer_lines q = answer_begin @ ''a=mid:1'' # tail"
    "''a=ssrc:2001 cname:namecon'' \<in> set tail" "''a=ssrc:2003 cname:namecon'' \<in> set tail"
proof -
  have "char_of (48 :: nat) = CHR ''0''" "char_of (49 :: nat) = CHR ''1''" "char_of (50 :: nat) = CHR ''2''"
    "char_of (51 :: nat) = CHR ''3''" by code_simp+
  then have n: "show_nat 10000 = ''10000''" "show_nat 2001 = ''2001''" "show_nat 2003 = ''2003''"
    by (simp_all add: show_nat.simps)
  have f: "serverIp q = ''127.0.0.1''" "serverPort q = 10000" "serverUfrag q = ''uf''" "serverPwd q = ''pw''"
    "serverFingerprint q = ''AA:BB:CC''" "midSsrc q = [''2'' \<mapsto> 2001, ''4'' \<mapsto> 2003]"
    using assms(1) by (simp_all add: server_of_def test_parser_def setMidSsrcMap_def setServerInfo_def)
  let ?tail = "''a=sendrecv'' # ''a=rtpmap:96 VP8/90000'' #
    answer_section q (sections q ! 2) @ answer_section q (sections q ! 3)"
  have "answer_lines q = answer_begin @ ''a=mid:1'' # ?tail"
    by (simp add: s test_sections_def test_section_def f n answer_lines_def answer_header_def answer_section_def section_head_def section_ssrc_def
        or_default_def offer_direction_def answer_direction_def answer_begin_def show_port_def answer_port_def)
  moreover have "''a=ssrc:2001 cname:namecon'' \<in> set ?tail" "''a=ssrc:2003 cname:namecon'' \<in> set ?tail"
    by (simp_all add: s test_sections_def test_section_def f n answer_section_def section_ssrc_def
        offer_direction_def or_default_def ssrc_lines_def Let_def)
  ultimately show thesis by (rule that)
qed

lemma find_in_lines:
  assumes "l \<in> set ls"
  shows "string_find l (concat (map (\<lambda>l. l @ crlf) ls)) \<noteq> None"
proof -
  obtain xs ys where "ls = xs @ l # ys" using assms by (meson split_list)
  then show ?thesis
    using string_find_append [of l "concat (map (\<lambda>l. l @ crlf) xs)" "crlf @ concat (map (\<lambda>l. l @ crlf) ys)"] by simp
qed

lemma test_sdp_ssrc_passes: "test_sdp_ssrc globals_init = Inr [True, True, True, True]"
proof -
  obtain q g where q: "parseOffer test_offer test_parser globals_init = (Inr (True, q), g)"
    "server_of q = server_of test_parser" and s: "sections q = test_sections"
    by (rule test_offer_parsed)
  obtain tail where l: "answer_lines q = answer_begin @ ''a=mid:1'' # tail"
    "''a=ssrc:2001 cname:namecon'' \<in> set tail" "''a=ssrc:2003 cname:namecon'' \<in> set tail"
    by (rule test_answer_lines [OF q(2) s])
  let ?text = "\<lambda>ls. concat (map (\<lambda>l. l @ crlf) ls)"
  let ?ans = "?text (answer_lines q)"
  have found: "string_find ''a=ssrc:2001 cname:namecon'' ?ans \<noteq> None" "string_find ''a=ssrc:2003 cname:namecon'' ?ans \<noteq> None"
    by (rule find_in_lines; simp add: l)+
  have "list_all (\<lambda>l. string_find ''a=mid:1'' l = None) answer_begin"
    "list_all (\<lambda>l. string_find ''a=ssrc:2001'' l = None) (answer_begin @ [''a=mid:1''])"
    by code_simp+
  then have "string_find ''a=mid:1'' ?ans = Some (length (?text answer_begin))"
    "string_find ''a=ssrc:2001'' ?ans =
      map_option (\<lambda>i. length (?text (answer_begin @ [''a=mid:1''])) + i) (string_find ''a=ssrc:2001'' (?text tail))"
    using string_find_lines [of "''a=mid:1''" answer_begin "?text (''a=mid:1'' # tail)"]
      string_find_lines [of "''a=ssrc:2001''" "answer_begin @ [''a=mid:1'']" "?text tail"] l(1)
    by simp_all
  then have "pos_less (string_find ''a=mid:1'' ?ans) (string_find ''a=ssrc:2001'' ?ans)"
    by (cases "string_find ''a=ssrc:2001'' (?text tail)") simp_all
  moreover have "?ans \<noteq> ''''" using l(1) by (simp add: answer_begin_def)
  ultimately show ?thesis
    using found q(1) by (simp add: test_sdp_ssrc_def generateAnswer_def test_parser_def)
qed

text \<open>The router of the test after \<open>addConsumer\<close>: \<open>cc\<close> is the consumer, at address 2.\<close>

definition test_router :: "(nat \<Rightarrow> u32) \<Rightarrow> u32 \<Rightarrow> consumer \<Rightarrow> ('s, 'd) sfu" where
  "test_router gen out cc = (sfu_init gen)
     \<lparr>peers := [0 \<mapsto> new_peer\<lparr>peerId := ''A''\<rparr>, 1 \<mapsto> new_peer\<lparr>peerId := ''B'', consumers := [2]\<rparr>],
      conss := [2 \<mapsto> cc], nextAddr := 3, allPeers := [1, 0], outSsrcToConsumer := [out \<mapsto> 2], ssrcPos := 1\<rparr>"

definition test_out :: "(nat \<Rightarrow> u32) \<Rightarrow> u32" where
  "test_out gen = uniform_u32 0x40000000 0x7FFFFFFF (gen 0)"

lemma test_addConsumer:
  assumes "test_peers gen = (A, B, s)"
  shows "A = 0" "B = 1" "addConsumer B A True s = Some (test_out gen,
    test_router gen (test_out gen) (new_consumer 1 0 True (test_out gen)))"
proof -
  show AB: "A = 0" "B = 1" using assms by (auto simp: test_peers_def sfu_init_def alloc_peer_def Let_def)
  have "s = alloc_peer (new_peer\<lparr>peerId := ''B''\<rparr>) (alloc_peer (new_peer\<lparr>peerId := ''A''\<rparr>) (sfu_init gen))"
    using assms by (simp add: test_peers_def Let_def)
  moreover have "c_rewrittenSsrc (new_consumer a b v k) = k" for a b v k by (simp add: new_consumer_def)
  ultimately show "addConsumer B A True s = Some (test_out gen,
    test_router gen (test_out gen) (new_consumer 1 0 True (test_out gen)))"
    unfolding AB
    by (simp add: addConsumer_def insert_consumer_def allocateSsrc_eq sfu_init_def alloc_peer_def new_peer_def registerPeer_def
        test_router_def test_out_def modify_def Let_def fun_eq_iff numeral_eq_Suc)
qed

lemma test_packets: "test_pli out = pli_bytes 0 out" "test_nack out = nack_bytes 0 out 500 0"
  by (simp_all add: test_pli_def test_nack_def pli_bytes_def nack_bytes_def)

text \<open>Feedback for a publisher without SRTP keys is dropped.\<close>

lemma test_feedback_dropped:
  fixes lib :: "'s srtp_lib" and gen :: "nat \<Rightarrow> u32" and out :: u32 and cc :: consumer
  defines "s \<equiv> test_router gen out cc :: ('s, 'd) sfu"
  assumes "c_publisher cc = Some 0"
  shows "onRtcpPacket lib (test_pli out) 1 s = Some s"
    and "onRtcpPacket lib (test_nack out) 1 s = Some s"
proof -
  have quiet: "sendProtectedRtcp lib cap pkt 0 s = Some (False, s)" for cap pkt
    by (simp add: sendProtectedRtcp_def s_def test_router_def new_peer_def)
  have c: "findConsumerByOutSsrc out s = Some 2" "conss s 2 = Some cc"
    by (simp_all add: findConsumerByOutSsrc_def s_def test_router_def)
  note p = pli_bytes_read [of 0 out "[]", unfolded append_Nil2]
  note n = nack_bytes_read [of 0 out 500 0 "[]", unfolded append_Nil2]
  have "rtcp_packetLen (nack_bytes 0 out 500 0) 0 = 16" using n(3) unfolding rtcp_packetLen_def add_0 by simp
  then have nack: "subpackets (nack_bytes 0 out 500 0) 0 = [(0, 16)]"
    using subpackets_single [of "nack_bytes 0 out 500 0"] by simp
  have "router_rtcp_case lib 1 (pli_bytes 0 out) 0 12 s = Some s"
    using p by (simp add: router_rtcp_case_def rtcpIsPLI_def handlePLI_def rd32_def c quiet assms(2))
  then show "onRtcpPacket lib (test_pli out) 1 s = Some s"
    by (simp add: test_packets onRtcpPacket_def rtcp_r.loop_foldM subpackets_pli)
  have "router_rtcp_case lib 1 (nack_bytes 0 out 500 0) 0 16 s = Some s"
    using n by (simp add: router_rtcp_case_def rtcpIsPLI_def rtcpIsNACK_def handleNACK_def rd32_def rd16_def c quiet assms(2))
  then show "onRtcpPacket lib (test_nack out) 1 s = Some s"
    by (simp add: test_packets onRtcpPacket_def rtcp_r.loop_foldM nack)
qed

lemma test_rewrite_eq:
  "\<exists>hdr. h_sequenceNumber hdr = seq \<and> test_rewrite ssrc seq ts 2 (test_router gen out cc) =
     Some (hdr\<lparr>h_ssrc := c_rewrittenSsrc cc\<rparr>, test_router gen out (rewritten_consumer hdr cc))"
proof -
  define pkt where "pkt = [0x80, 96 :: u8] @ be16 seq @ be32 ts @ be32 ssrc"
  have len: "12 \<le> length pkt" by (simp add: pkt_def)
  define hdr where "hdr = header_of pkt"
  have hdr: "rtp_parse pkt = Some hdr" using rtp_parse_header_of [OF len] by (simp add: hdr_def)
  have "at16 pkt 2 = seq" by (simp add: pkt_def at16_def be16_def of16_be16)
  then have seq: "h_sequenceNumber hdr = seq" using rtp_parse_fields(7) [OF len] by (simp add: hdr_def)
  have "header_valid (hdr\<lparr>h_ssrc := c_rewrittenSsrc cc\<rparr>)"
    using rtp_parse_valid [OF hdr] by (simp add: header_valid_def)
  from rtp_parse_write [OF len this] seq show ?thesis
    using rewriteRtpHeader_eq [OF hdr, of cc] makeRtp_eq [of ssrc seq ts]
    by (intro exI [of _ hdr]) (simp add: test_rewrite_def pkt_def test_router_def)
qed

lemma test_no_producers: "getAllVideoProducers (test_router gen out cc) = Some []"
  by (simp add: getAllVideoProducers_def test_router_def new_peer_def)

lemma test_bind:
  assumes "c_publisher cc = Some 0" "c_isVideo cc"
  shows "bindConsumerByMid 1 ''A'' True ''2'' (test_router gen out cc) =
    Some (c_rewrittenSsrc cc, test_router gen out (cc\<lparr>c_recvMid := ''2''\<rparr>))"
  using assms by (simp add: bindConsumerByMid_def test_router_def new_peer_def modify_def)

lemma test_remove:
  assumes "c_publisher cc = Some 0"
  shows "\<exists>t p. removePeer 1 (test_router gen out cc) = Some t \<and> peers t 1 = Some p \<and> consumers p = []"
  using assms by (simp add: removePeer_def test_router_def new_peer_def detach_consumer_def modify_def)

text \<open>
  C40. The unit tests of the repository pass on the model: reading, changing and writing an RTP
  header; the SSRC lines of an answer; and, for every value the random generator can yield
  and every SRTP library, the checks on subscribing, binding a mid, rewriting packets,
  feedback and removal, none of which runs into undefined behaviour.
\<close>

theorem unit_tests_pass:
  fixes lib :: "'s srtp_lib" and gen :: "nat \<Rightarrow> u32"
  shows "test_rtp_header = Some (replicate 9 True) \<and> test_sdp_ssrc globals_init = Inr (replicate 4 True) \<and>
   (\<exists>s :: ('s, 'd) sfu. test_consumer lib gen = Some (replicate 13 True, s))"
proof -
  obtain A B and s :: "('s, 'd) sfu" where s: "test_peers gen = (A, B, s)" by (rule prod_cases3)
  let ?out = "test_out gen"
  define c0 where "c0 = (new_consumer 1 0 True ?out)\<lparr>c_recvMid := ''2''\<rparr>"
  have c0: "c_publisher c0 = Some 0" "c_rewrittenSsrc c0 = ?out" "c_recvMid c0 = ''2''"
    by (simp_all add: c0_def new_consumer_def)
  obtain h1 where h1: "h_sequenceNumber h1 = 500" "test_rewrite 1001 500 90000 2 (test_router gen ?out c0 :: ('s, 'd) sfu) =
      Some (h1\<lparr>h_ssrc := ?out\<rparr>, test_router gen ?out (rewritten_consumer h1 c0))"
    using test_rewrite_eq [of 500 1001 90000 gen ?out c0] c0(2) by auto
  define c1 where "c1 = rewritten_consumer h1 c0"
  have c1: "c_publisher c1 = Some 0" "c_rewrittenSsrc c1 = ?out" using c0 by (simp_all add: c1_def rewritten_consumer_def)
  obtain h2 where h2: "h_sequenceNumber h2 = 501" "test_rewrite 1001 501 90300 2 (test_router gen ?out c1 :: ('s, 'd) sfu) =
      Some (h2\<lparr>h_ssrc := ?out\<rparr>, test_router gen ?out (rewritten_consumer h2 c1))"
    using test_rewrite_eq [of 501 1001 90300 gen ?out c1] c1(2) by auto
  define c2 where "c2 = rewritten_consumer h2 c1"
  have c2: "c_publisher c2 = Some 0" using c1 by (simp add: c2_def rewritten_consumer_def)
  obtain t :: "('s, 'd) sfu" and p where t: "removePeer 1 (test_router gen ?out c2) = Some t" "peers t 1 = Some p" "consumers p = []"
    using test_remove [OF c2] by blast
  have bind: "bindConsumerByMid 1 ''A'' True ''2'' (test_router gen ?out (new_consumer 1 0 True ?out) :: ('s, 'd) sfu) =
      Some (?out, test_router gen ?out c0)"
    using test_bind [of "new_consumer 1 0 True ?out"] by (simp add: c0_def new_consumer_def)
  have B: "peers (test_router gen ?out cc :: ('s, 'd) sfu) 1 = Some (new_peer\<lparr>peerId := ''B'', consumers := [2]\<rparr>)"
    "conss (test_router gen ?out cc :: ('s, 'd) sfu) 2 = Some cc" for cc by (simp_all add: test_router_def)
  have np: "getAllVideoProducers (test_router gen ?out c2 :: ('s, 'd) sfu) = Some []" by (rule test_no_producers)
  have fb: "onRtcpPacket lib (test_pli ?out) 1 (test_router gen ?out c2 :: ('s, 'd) sfu) = Some (test_router gen ?out c2)"
    "onRtcpPacket lib (test_nack ?out) 1 (test_router gen ?out c2 :: ('s, 'd) sfu) = Some (test_router gen ?out c2)"
    by (rule test_feedback_dropped [OF c2])+
  have range: "?out \<noteq> 0" "0x40000000 \<le> ?out" "?out \<le> 0x7FFFFFFF"
    using uniform_ssrc_range [of "gen 0"] by (auto simp: test_out_def)
  have "test_consumer lib gen = Some (replicate 13 True, t)"
    using test_addConsumer [OF s] bind B h1 h2 np fb t c0 range
    by (simp add: test_consumer_def s c1_def [symmetric] c2_def [symmetric] numeral_eq_Suc)
  then show ?thesis
    using test_rtp_header_passes test_sdp_ssrc_passes by (simp add: numeral_eq_Suc)
qed

end
